(* ===== verification/Prelude.thy ===== *)
theory Prelude
  imports Main "HOL-Library.Word"
begin

unbundle bit_operations_syntax

text \<open>
  Shared vocabulary of the development: machine integer types, byte strings, slices of
  byte strings and the generic list lemmas that the component theories rely on.

  A C++ pointer range \<open>[p, p + n)\<close> into a buffer is a \<^typ>\<open>nat\<close> offset into a byte list;
  the functions below name the memory operations the source performs on such ranges.
\<close>

type_synonym byte = "8 word"
type_synonym u16 = "16 word"
type_synonym u32 = "32 word"
type_synonym u64 = "64 word"
type_synonym bytes = "8 word list"

named_theorems range_simps \<open>rewriting of slices and in-place copies\<close>

section \<open>Slices and in-place copies\<close>

definition sub_bytes :: "nat \<Rightarrow> nat \<Rightarrow> 'a list \<Rightarrow> 'a list" where
  "sub_bytes pos len xs = take len (drop pos xs)"

definition overwrite :: "nat \<Rightarrow> 'a list \<Rightarrow> 'a list \<Rightarrow> 'a list" where
  "overwrite pos ys xs = take pos xs @ ys @ drop (pos + length ys) xs"

definition insert_at :: "nat \<Rightarrow> 'a list \<Rightarrow> 'a list \<Rightarrow> 'a list" where
  "insert_at pos ys xs = take pos xs @ ys @ drop pos xs"

definition remove_at :: "nat \<Rightarrow> nat \<Rightarrow> 'a list \<Rightarrow> 'a list" where
  "remove_at pos len xs = take pos xs @ drop (pos + len) xs"

lemma length_sub_bytes [simp]: "length (sub_bytes pos len xs) = min len (length xs - pos)"
  by (simp add: sub_bytes_def min.commute)

lemma length_overwrite [simp]:
  "pos + length ys \<le> length xs \<Longrightarrow> length (overwrite pos ys xs) = length xs"
  by (simp add: overwrite_def)

lemma length_insert_at [simp]:
  "length (insert_at pos ys xs) = length xs + length ys"
  by (simp add: insert_at_def)

lemma length_remove_at [simp]:
  "pos + len \<le> length xs \<Longrightarrow> length (remove_at pos len xs) = length xs - len"
  by (simp add: remove_at_def)

section \<open>Results that can fail\<close>

text \<open>
  A computation that can fail returns a value of \<open>'e + 'a\<close>, with \<^const>\<open>Inl\<close> the error.
  \<open>bindE\<close> sequences two such computations; \<open>succeeds_or\<close> is the corresponding
  partial-correctness triple: the only errors are those allowed by \<open>E\<close>, and the result of a
  successful run satisfies \<open>Q\<close>.
\<close>

definition bindE :: "'e + 'a \<Rightarrow> ('a \<Rightarrow> 'e + 'b) \<Rightarrow> 'e + 'b" where
  "bindE m f = (case m of Inl e \<Rightarrow> Inl e | Inr x \<Rightarrow> f x)"

definition succeeds_or :: "'e set \<Rightarrow> ('a \<Rightarrow> bool) \<Rightarrow> 'e + 'a \<Rightarrow> bool" where
  "succeeds_or E Q r = (case r of Inl e \<Rightarrow> e \<in> E | Inr x \<Rightarrow> Q x)"

lemma bindE_simps [simp]: "bindE (Inl e) f = Inl e" "bindE (Inr x) f = f x"
  by (simp_all add: bindE_def)

lemma bindE_assoc: "bindE (bindE m f) g = bindE m (\<lambda>x. bindE (f x) g)"
  by (cases m) simp_all

lemma bindE_eq_Inl: "bindE m f = Inl e \<longleftrightarrow> m = Inl e \<or> (\<exists>x. m = Inr x \<and> f x = Inl e)"
  by (cases m) simp_all

lemma succeeds_or_simps [simp]:
  "succeeds_or E Q (Inl e) \<longleftrightarrow> e \<in> E" "succeeds_or E Q (Inr x) \<longleftrightarrow> Q x"
  by (simp_all add: succeeds_or_def)

lemma succeeds_or_bind:
  assumes "succeeds_or E P m" and "\<And>x. P x \<Longrightarrow> succeeds_or E Q (f x)"
  shows "succeeds_or E Q (bindE m f)"
  using assms by (cases m) auto

lemma succeeds_or_mono:
  assumes "succeeds_or E P m" and "\<And>x. P x \<Longrightarrow> Q x"
  shows "succeeds_or E Q m"
  using assms by (cases m) auto

lemma succeeds_or_InrD: "succeeds_or E Q m \<Longrightarrow> m = Inr x \<Longrightarrow> Q x"
  by simp

lemma unat_ucast_mod: "unat (ucast w :: 'b::len word) = unat w mod 2 ^ LENGTH('b)"
proof -
  have "ucast w = (word_of_nat (unat w) :: 'b word)" by simp
  then show ?thesis by (simp only: unat_of_nat)
qed

end
