(* ===== verification/ByteOrder.thy ===== *)
theory ByteOrder
  imports Prelude
begin

unbundle bit_operations_syntax

text \<open>
  Big-endian integers (\<^verbatim>\<open>include/ofp/byteorder.h\<close>) and padding
  (\<^verbatim>\<open>include/ofp/padding.h\<close>).

  The first part states what the wire format means: \<open>be_nat\<close> reads a byte string as a
  big-endian number and \<open>nat_be\<close> writes one. The second part follows the source: the byte
  swaps, the host-order conversion, the \<^verbatim>\<open>BigEndianAligned\<close> wrapper and
  \<^verbatim>\<open>Big24\<close>. The lemmas show that a \<^verbatim>\<open>Big\<close> object's memory is the big-endian encoding of its
  value on a host of either byte order.
\<close>

section \<open>The wire format\<close>

fun be_nat :: "bytes \<Rightarrow> nat" where
  "be_nat [] = 0"
| "be_nat (b # bs) = unat b * 256 ^ length bs + be_nat bs"

fun nat_be :: "nat \<Rightarrow> nat \<Rightarrow> bytes" where
  "nat_be 0 n = []"
| "nat_be (Suc k) n = word_of_nat (n div 256 ^ k) # nat_be k n"

lemma length_nat_be [simp]: "length (nat_be k n) = k"
  by (induction k) auto

lemma unat_byte_bound: "unat (b :: byte) < 256"
  using unsigned_less [of b] by simp

lemma unat_byte_of_nat [simp]: "unat (word_of_nat n :: byte) = n mod 256"
  by (simp add: unsigned_of_nat take_bit_eq_mod)

lemma be_nat_bound: "be_nat bs < 256 ^ length bs"
proof (induction bs)
  case Nil
  then show ?case by simp
next
  case (Cons b bs)
  have "unat b * 256 ^ length bs + be_nat bs < unat b * 256 ^ length bs + 256 ^ length bs"
    using Cons by simp
  also have "\<dots> = (unat b + 1) * 256 ^ length bs" by simp
  also have "\<dots> \<le> 256 * 256 ^ length bs"
    using unat_byte_bound [of b] by (intro mult_right_mono) auto
  finally show ?case by simp
qed

lemma be_nat_nat_be: "be_nat (nat_be k n) = n mod 256 ^ k"
proof (induction k)
  case 0
  then show ?case by simp
next
  case (Suc k)
  have "be_nat (nat_be (Suc k) n) = n div 256 ^ k mod 256 * 256 ^ k + n mod 256 ^ k"
    by (simp add: Suc)
  also have "\<dots> = n mod (256 ^ k * 256)"
    by (simp add: mod_mult2_eq)
  finally show ?case by (simp add: mult.commute)
qed

lemma nat_be_mod: "k \<le> j \<Longrightarrow> nat_be k (n mod 256 ^ j) = nat_be k n"
proof (induction k)
  case 0
  then show ?case by simp
next
  case (Suc k)
  have "n mod 256 ^ j div 256 ^ k mod 256 = n div 256 ^ k mod 256"
  proof -
    have j: "(256::nat) ^ j = 256 ^ k * (256 * 256 ^ (j - Suc k))"
      using Suc.prems by (simp flip: power_add power_Suc)
    have "n mod 256 ^ j div 256 ^ k = n div 256 ^ k mod (256 * 256 ^ (j - Suc k))"
      unfolding j by (simp add: mod_mult2_eq)
    then show ?thesis by (simp add: mod_mod_cancel)
  qed
  then have "(word_of_nat (n mod 256 ^ j div 256 ^ k) :: byte) = word_of_nat (n div 256 ^ k)"
    by (metis unat_byte_of_nat word_unat_eq_iff)
  with Suc show ?case by simp
qed

lemma nat_be_be_nat: "length bs = k \<Longrightarrow> nat_be k (be_nat bs) = bs"
proof (induction bs arbitrary: k)
  case Nil
  then show ?case by simp
next
  case (Cons b bs)
  then obtain j where k: "k = Suc j" and j: "j = length bs" by auto
  have "nat_be j (be_nat (b # bs)) = nat_be j (be_nat (b # bs) mod 256 ^ j)"
    by (simp add: nat_be_mod)
  also have "be_nat (b # bs) mod 256 ^ j = be_nat bs"
    using be_nat_bound [of bs] j by simp
  finally have tl: "nat_be j (be_nat (b # bs)) = bs"
    using Cons.IH j by simp
  have "be_nat (b # bs) div 256 ^ j = unat b"
    using be_nat_bound [of bs] j by simp
  with tl k show ?case by simp
qed

lemma be_nat_append: "be_nat (xs @ ys) = be_nat xs * 256 ^ length ys + be_nat ys"
  by (induction xs) (auto simp: power_add algebra_simps)

lemma be_nat_zeros [simp]: "be_nat (replicate n 0) = 0"
  by (induction n) auto


lemma unat_word_of_be_nat:
  "LENGTH('a) = 8 * k \<Longrightarrow> length bs = k \<Longrightarrow> unat (word_of_nat (be_nat bs) :: 'a::len word) = be_nat bs"
  using be_nat_bound [of bs]
  by (simp add: unsigned_of_nat take_bit_nat_eq_self power_mult)

lemma word_of_nat_div_256:
  "(word_of_nat (unat w div 256 ^ i) :: byte) = ucast (drop_bit (8 * i) w)"
proof -
  have "unat w div 256 ^ i = unat (drop_bit (8 * i) w)"
    by (simp add: unat_drop_bit_eq drop_bit_eq_div [of "8 * i" "unat w"] power_mult)
  then show ?thesis
    by (simp add: unsigned_ucast_eq word_unat_eq_iff unsigned_of_nat)
qed

section \<open>Byte swapping\<close>

definition SwapTwoBytes :: "u16 \<Rightarrow> u16" where
  "SwapTwoBytes n = push_bit 8 (n AND 0x00ff) OR drop_bit 8 (n AND 0xff00)"

definition SwapFourBytes :: "u32 \<Rightarrow> u32" where
  "SwapFourBytes n =
     push_bit 24 (n AND 0x000000ff) OR push_bit 8 (n AND 0x0000ff00) OR
     drop_bit 8 (n AND 0x00ff0000) OR drop_bit 24 (n AND 0xff000000)"

definition SwapEightBytes :: "u64 \<Rightarrow> u64" where
  "SwapEightBytes n =
     push_bit 56 (n AND 0x00000000000000ff) OR
     push_bit 40 (n AND 0x000000000000ff00) OR
     push_bit 24 (n AND 0x0000000000ff0000) OR
     push_bit 8 (n AND 0x00000000ff000000) OR
     drop_bit 8 (n AND 0x000000ff00000000) OR
     drop_bit 24 (n AND 0x0000ff0000000000) OR
     drop_bit 40 (n AND 0x00ff000000000000) OR
     drop_bit 56 (n AND 0xff00000000000000)"

definition SwapOneByte :: "byte \<Rightarrow> byte" where
  "SwapOneByte n = n"

definition HostSwapByteOrder :: "bool \<Rightarrow> ('a::len word \<Rightarrow> 'a word) \<Rightarrow> 'a word \<Rightarrow> 'a word" where
  "HostSwapByteOrder little SwapByteOrder n = (if little then SwapByteOrder n else n)"

text \<open>The bytes of a native integer in memory, and the integer read back from them.\<close>

definition host_bytes :: "bool \<Rightarrow> nat \<Rightarrow> 'a::len word \<Rightarrow> bytes" where
  "host_bytes little k n = (if little then rev (nat_be k (unat n)) else nat_be k (unat n))"

definition host_value :: "bool \<Rightarrow> bytes \<Rightarrow> 'a::len word" where
  "host_value little bs = word_of_nat (be_nat (if little then rev bs else bs))"

section \<open>BigEndianAligned\<close>

text \<open>
  The object holds one native integer \<open>raw_n\<close>. The constructor from a native value stores the
  swapped value unless \<open>bigEndian\<close> says that it is already in network order; the conversion
  operator swaps it back.
\<close>

record (overloaded) 'a BigEndianAligned =
  raw_n :: "'a word"

definition Big_make :: "bool \<Rightarrow> ('a::len word \<Rightarrow> 'a word) \<Rightarrow> 'a word \<Rightarrow> bool \<Rightarrow> 'a BigEndianAligned" where
  "Big_make little swap n bigEndian =
     \<lparr> raw_n = (if bigEndian then n else HostSwapByteOrder little swap n) \<rparr>"

definition Big_value :: "bool \<Rightarrow> ('a::len word \<Rightarrow> 'a word) \<Rightarrow> 'a BigEndianAligned \<Rightarrow> 'a word" where
  "Big_value little swap b = HostSwapByteOrder little swap (raw_n b)"

definition Big_not :: "'a::len BigEndianAligned \<Rightarrow> bool" where
  "Big_not b = (raw_n b = 0)"

definition Big_fromBytes :: "bool \<Rightarrow> bytes \<Rightarrow> 'a::len BigEndianAligned" where
  "Big_fromBytes little data = \<lparr> raw_n = host_value little data \<rparr>"

definition Big_fromBytesSize :: "bool \<Rightarrow> nat \<Rightarrow> bytes \<Rightarrow> 'a::len BigEndianAligned" where
  "Big_fromBytesSize little k data =
     (if length data = 0 then \<lparr> raw_n = 0 \<rparr>
      else if length data > k then Big_fromBytes little (drop (length data - k) data)
      else Big_fromBytes little (overwrite (k - length data) data (replicate k 0)))"

text \<open>
  What a byte swap promises: on a word of \<open>k\<close> bytes it reverses the bytes. Everything about
  the wrapper follows from this, for every width.
\<close>

locale byte_swap =
  fixes swap :: "'a::len word \<Rightarrow> 'a word" and k :: nat
  assumes width: "LENGTH('a) = 8 * k"
    and swap_rev: "nat_be k (unat (swap n)) = rev (nat_be k (unat n))"
begin

lemma unat_be: "be_nat (nat_be k (unat n)) = unat (n :: 'a word)"
proof -
  have "unat n < 2 ^ LENGTH('a)" by (rule unsigned_less)
  then show ?thesis by (simp add: be_nat_nat_be width power_mult)
qed

lemma swap_involution: "swap (swap n) = n"
proof -
  have "nat_be k (unat (swap (swap n))) = nat_be k (unat n)"
    by (simp add: swap_rev)
  then have "unat (swap (swap n)) = unat n"
    by (metis unat_be)
  then show ?thesis by (simp add: word_unat_eq_iff)
qed

lemma Big_memory: "host_bytes little k (raw_n (Big_make little swap n False)) = nat_be k (unat n)"
  by (simp add: host_bytes_def Big_make_def HostSwapByteOrder_def swap_rev)

lemma Big_value_make: "Big_value little swap (Big_make little swap n False) = n"
  by (simp add: Big_value_def Big_make_def HostSwapByteOrder_def swap_involution)

lemma swap_host_value:
  assumes "length data = k"
  shows "HostSwapByteOrder little swap (host_value little data) = word_of_nat (be_nat data)"
proof (cases little)
  case True
  let ?w = "word_of_nat (be_nat (rev data)) :: 'a word"
  have "nat_be k (unat (swap ?w)) = rev (nat_be k (be_nat (rev data)))"
    using assms by (simp add: swap_rev unat_word_of_be_nat [OF width])
  also have "\<dots> = data"
    using assms by (simp add: nat_be_be_nat)
  finally have "unat (swap ?w) = be_nat data"
    by (metis unat_be)
  then have "swap ?w = word_of_nat (be_nat data)"
    by (metis of_nat_unat ucast_id)
  with True show ?thesis by (simp add: HostSwapByteOrder_def host_value_def)
next
  case False
  then show ?thesis by (simp add: HostSwapByteOrder_def host_value_def)
qed

lemma Big_value_fromBytes:
  "length data = k \<Longrightarrow> Big_value little swap (Big_fromBytes little data) = word_of_nat (be_nat data)"
  by (simp add: Big_value_def Big_fromBytes_def swap_host_value)

lemma be_nat_drop_word:
  "length data \<ge> k \<Longrightarrow>
   (word_of_nat (be_nat (drop (length data - k) data)) :: 'a word) = word_of_nat (be_nat data)"
proof -
  assume len: "length data \<ge> k"
  have "be_nat data =
      be_nat (take (length data - k) data) * 2 ^ LENGTH('a) + be_nat (drop (length data - k) data)"
    using len be_nat_append [of "take (length data - k) data" "drop (length data - k) data"]
    by (simp add: width power_mult)
  then show ?thesis
    by (simp add: word_of_nat_eq_iff take_bit_eq_mod)
qed

lemma swap_zero: "swap 0 = 0"
proof -
  have z: "nat_be j 0 = replicate j 0" for j
    by (induction j) auto
  have "nat_be k (unat (swap 0)) = replicate k 0"
    by (simp add: swap_rev z)
  then have "unat (swap 0) = 0"
    by (metis unat_be be_nat_zeros)
  then show ?thesis by (simp add: unat_eq_zero)
qed

lemma Big_value_fromBytesSize:
  "Big_value little swap (Big_fromBytesSize little k data) = word_of_nat (be_nat data)"
proof -
  consider "data = []" | "length data > k" | "data \<noteq> []" "length data \<le> k" by fastforce
  then show ?thesis
  proof cases
    case 1
    then show ?thesis
      by (simp add: Big_fromBytesSize_def Big_value_def HostSwapByteOrder_def swap_zero)
  next
    case 2
    then have "data \<noteq> []" by auto
    with 2 show ?thesis
      by (simp add: Big_fromBytesSize_def Big_value_fromBytes be_nat_drop_word)
  next
    case 3
    then show ?thesis
      by (simp add: Big_fromBytesSize_def Big_value_fromBytes overwrite_def be_nat_append)
  qed
qed

end


lemma nat_be_numeral [simp]:
  "nat_be (numeral k) n = word_of_nat (n div 256 ^ pred_numeral k) # nat_be (pred_numeral k) n"
  by (simp add: numeral_eq_Suc)

lemma nat_be_2: "nat_be 2 (unat w) = [ucast (drop_bit 8 w), ucast w]"
  using word_of_nat_div_256 [of w 1] word_of_nat_div_256 [of w 0] by simp

lemma nat_be_4: "nat_be 4 (unat w) =
    [ucast (drop_bit 24 w), ucast (drop_bit 16 w), ucast (drop_bit 8 w), ucast w]"
  using word_of_nat_div_256 [of w 3] word_of_nat_div_256 [of w 2]
    word_of_nat_div_256 [of w 1] word_of_nat_div_256 [of w 0]
  by simp

lemma nat_be_8: "nat_be 8 (unat w) =
    [ucast (drop_bit 56 w), ucast (drop_bit 48 w), ucast (drop_bit 40 w), ucast (drop_bit 32 w),
     ucast (drop_bit 24 w), ucast (drop_bit 16 w), ucast (drop_bit 8 w), ucast w]"
  using word_of_nat_div_256 [of w 7] word_of_nat_div_256 [of w 6]
    word_of_nat_div_256 [of w 5] word_of_nat_div_256 [of w 4]
    word_of_nat_div_256 [of w 3] word_of_nat_div_256 [of w 2]
    word_of_nat_div_256 [of w 1] word_of_nat_div_256 [of w 0]
  by simp

interpretation swap1: byte_swap SwapOneByte 1
  by unfold_locales (simp_all add: SwapOneByte_def)

interpretation swap2: byte_swap SwapTwoBytes 2
proof
  fix n
  have m: "(0xff :: 16 word) = mask 8" "(0xff00 :: 16 word) = push_bit 8 (mask 8)"
    by (simp_all add: mask_eq_exp_minus_1)
  show "nat_be 2 (unat (SwapTwoBytes n)) = rev (nat_be 2 (unat n))"
    unfolding nat_be_2 SwapTwoBytes_def m by (simp, intro conjI; rule bit_word_eqI) (auto simp: bit_simps)
qed simp

interpretation swap4: byte_swap SwapFourBytes 4
proof
  fix n
  have m: "(0xff :: 32 word) = mask 8" "(0xff00 :: 32 word) = push_bit 8 (mask 8)"
    "(0xff0000 :: 32 word) = push_bit 16 (mask 8)" "(0xff000000 :: 32 word) = push_bit 24 (mask 8)"
    by (simp_all add: mask_eq_exp_minus_1)
  show "nat_be 4 (unat (SwapFourBytes n)) = rev (nat_be 4 (unat n))"
    unfolding nat_be_4 SwapFourBytes_def m by (simp, intro conjI; rule bit_word_eqI) (auto simp: bit_simps)
qed simp

interpretation swap8: byte_swap SwapEightBytes 8
proof
  fix n
  have m: "(0xff :: 64 word) = mask 8" "(0xff00 :: 64 word) = push_bit 8 (mask 8)"
    "(0xff0000 :: 64 word) = push_bit 16 (mask 8)" "(0xff000000 :: 64 word) = push_bit 24 (mask 8)"
    "(0xff00000000 :: 64 word) = push_bit 32 (mask 8)"
    "(0xff0000000000 :: 64 word) = push_bit 40 (mask 8)"
    "(0xff000000000000 :: 64 word) = push_bit 48 (mask 8)"
    "(0xff00000000000000 :: 64 word) = push_bit 56 (mask 8)"
    by (simp_all add: mask_eq_exp_minus_1)
  show "nat_be 8 (unat (SwapEightBytes n)) = rev (nat_be 8 (unat n))"
    unfolding nat_be_8 SwapEightBytes_def m by (simp, intro conjI; rule bit_word_eqI) (auto simp: bit_simps)
qed simp

text \<open>C12: On a host of either byte order, the memory of a 16-, 32- or 64-bit \<^verbatim>\<open>Big\<close> object
  built from a native value is the big-endian encoding of that value, and converting the object
  back gives the value.\<close>

theorem big_endian_wire:
  "host_bytes little 2 (raw_n (Big_make little SwapTwoBytes a False)) = nat_be 2 (unat a) \<and>
   host_bytes little 4 (raw_n (Big_make little SwapFourBytes b False)) = nat_be 4 (unat b) \<and>
   host_bytes little 8 (raw_n (Big_make little SwapEightBytes c False)) = nat_be 8 (unat c) \<and>
   Big_value little SwapTwoBytes (Big_make little SwapTwoBytes a False) = a \<and>
   Big_value little SwapFourBytes (Big_make little SwapFourBytes b False) = b \<and>
   Big_value little SwapEightBytes (Big_make little SwapEightBytes c False) = c"
  by (intro conjI swap2.Big_memory swap4.Big_memory swap8.Big_memory
        swap2.Big_value_make swap4.Big_value_make swap8.Big_value_make)

text \<open>Reading a \<^verbatim>\<open>Big\<close> object from a byte string of any length with
  \<^verbatim>\<open>fromBytes(data, size)\<close> yields the big-endian number of the string, truncated to the trailing
  bytes when the string is longer than the object and zero-extended when it is shorter.\<close>

lemma big_endian_fromBytes:
  "Big_value little SwapOneByte (Big_fromBytesSize little 1 data) = word_of_nat (be_nat data) \<and>
   Big_value little SwapTwoBytes (Big_fromBytesSize little 2 data) = word_of_nat (be_nat data) \<and>
   Big_value little SwapFourBytes (Big_fromBytesSize little 4 data) = word_of_nat (be_nat data) \<and>
   Big_value little SwapEightBytes (Big_fromBytesSize little 8 data) = word_of_nat (be_nat data)"
  by (intro conjI swap1.Big_value_fromBytesSize swap2.Big_value_fromBytesSize
        swap4.Big_value_fromBytesSize swap8.Big_value_fromBytesSize)

section \<open>24-bit integers\<close>

type_synonym Big24 = "byte \<times> byte \<times> byte"

definition Big24_make :: "u32 \<Rightarrow> Big24" where
  "Big24_make n =
     (ucast (drop_bit 16 n AND 0xFF), ucast (drop_bit 8 n AND 0xFF), ucast (n AND 0xFF))"

definition Big24_value :: "Big24 \<Rightarrow> u32" where
  "Big24_value b = (case b of (n0, n1, n2) \<Rightarrow>
     push_bit 16 (ucast n0) OR push_bit 8 (ucast n1) OR ucast n2)"

definition Big24_not :: "Big24 \<Rightarrow> bool" where
  "Big24_not b = (case b of (n0, n1, n2) \<Rightarrow> n0 = 0 \<or> n1 = 0 \<or> n0 = 0)"

lemma Big24_value_make: "Big24_value (Big24_make n) = n AND 0xFFFFFF"
proof -
  have m: "(0xff :: 32 word) = mask 8" "(0xffffff :: 32 word) = mask 24"
    by (simp_all add: mask_eq_exp_minus_1)
  show ?thesis
    unfolding Big24_value_def Big24_make_def m prod.case
  proof (rule bit_word_eqI, goal_cases)
    case (1 i)
    then show ?case by (cases "16 \<le> i"; cases "8 \<le> i") (auto simp: bit_simps)
  qed
qed

section \<open>Padding\<close>

definition PadLength :: "nat \<Rightarrow> nat" where
  "PadLength n = 8 * ((n + 7) div 8)"

lemma PadLength_split: "\<exists>r < 8. PadLength n + r = n + 7"
proof -
  have "PadLength n + (n + 7) mod 8 = n + 7" by (simp add: PadLength_def)
  then show ?thesis by (intro exI [of _ "(n + 7) mod 8"]) simp
qed

lemma PadLength_ge: "n \<le> PadLength n"
  using PadLength_split [of n] by auto

lemma PadLength_less: "PadLength n < n + 8"
  using PadLength_split [of n] by auto

lemma PadLength_mod8 [simp]: "PadLength n mod 8 = 0"
  by (simp add: PadLength_def)

lemma PadLength_mult8 [simp]: "PadLength (8 * n) = 8 * n"
  by (simp add: PadLength_def)

lemma PadLength_aligned [simp]: "n mod 8 = 0 \<Longrightarrow> PadLength n = n"
  by (auto simp: mod_eq_0_iff_dvd elim!: dvdE)

lemma PadLength_pos [simp]: "0 < PadLength n \<longleftrightarrow> 0 < n"
  using PadLength_ge [of n] PadLength_less [of n] by (cases n) (auto simp: PadLength_def)

lemma PadLength_mono: "m \<le> n \<Longrightarrow> PadLength m \<le> PadLength n"
  by (simp add: PadLength_def div_le_mono)

lemma PadLength_le_iff: "m mod 8 = 0 \<Longrightarrow> PadLength n \<le> m \<longleftrightarrow> n \<le> m"
  using PadLength_ge [of n] PadLength_mono [of n m] by auto

end
