(* ===== verification/SmallBuffer.thy ===== *)
theory SmallBuffer
  imports ByteOrder
begin

text \<open>
  The growable byte buffer (\<^verbatim>\<open>include/ofp/smallbuffer.h\<close>, \<^verbatim>\<open>src/ofp/smallbuffer.cpp\<close>) and
  its wrapper \<^verbatim>\<open>ByteList\<close> (\<^verbatim>\<open>src/ofp/bytelist.cpp\<close>).

  A buffer owns an intrinsic array of 64 bytes and, once it has grown, a block obtained from
  \<^verbatim>\<open>malloc\<close>. The pointers \<^verbatim>\<open>begin_\<close>, \<^verbatim>\<open>end_\<close> and \<^verbatim>\<open>capacity_\<close> become the block in use, the
  number of bytes in use and the length of the block; positions are offsets from \<^verbatim>\<open>begin_\<close>.
  Every copy is bounds-checked: a copy outside the block is the error \<open>OutOfBounds\<close>, which
  the source never reports because it is undefined behaviour there. The contents of freshly
  allocated memory are an argument, so the lemmas hold whatever they are.
\<close>

section \<open>Memory\<close>

datatype mem_error = MallocFailed | OutOfBounds

type_synonym 'a mem_result = "mem_error + 'a"

text \<open>For each size: \<^const>\<open>None\<close> when \<^verbatim>\<open>malloc\<close> fails, else the contents of the new block.\<close>

type_synonym allocator = "nat \<Rightarrow> (nat \<Rightarrow> byte) option"

definition malloc :: "allocator \<Rightarrow> nat \<Rightarrow> bytes mem_result" where
  "malloc a n = (case a n of None \<Rightarrow> Inl MallocFailed | Some f \<Rightarrow> Inr (map f [0..<n]))"

definition mem_read :: "bytes \<Rightarrow> nat \<Rightarrow> nat \<Rightarrow> bytes mem_result" where
  "mem_read blk pos n =
     (if pos + n \<le> length blk then Inr (sub_bytes pos n blk) else Inl OutOfBounds)"

definition mem_write :: "bytes \<Rightarrow> nat \<Rightarrow> bytes \<Rightarrow> bytes mem_result" where
  "mem_write blk pos data =
     (if pos + length data \<le> length blk then Inr (overwrite pos data blk) else Inl OutOfBounds)"

definition realloc :: "allocator \<Rightarrow> bytes \<Rightarrow> nat \<Rightarrow> bytes mem_result" where
  "realloc a old n = bindE (malloc a n) (\<lambda>blk. mem_write blk 0 (take n old))"

section \<open>The buffer\<close>

definition IntrinsicBufSize :: nat where
  "IntrinsicBufSize = 64"

record SmallBuffer =
  sb_buf :: bytes
  sb_heap :: "bytes option"
  sb_size :: nat

definition isSmall :: "SmallBuffer \<Rightarrow> bool" where
  "isSmall b = (sb_heap b = None)"

definition sb_block :: "SmallBuffer \<Rightarrow> bytes" where
  "sb_block b = (case sb_heap b of None \<Rightarrow> sb_buf b | Some blk \<Rightarrow> blk)"

definition sb_set_block :: "bytes \<Rightarrow> SmallBuffer \<Rightarrow> SmallBuffer" where
  "sb_set_block blk b = (if isSmall b then b\<lparr>sb_buf := blk\<rparr> else b\<lparr>sb_heap := Some blk\<rparr>)"

definition sb_capacity :: "SmallBuffer \<Rightarrow> nat" where
  "sb_capacity b = length (sb_block b)"

definition sb_remaining :: "SmallBuffer \<Rightarrow> nat" where
  "sb_remaining b = sb_capacity b - sb_size b"

definition sb_init :: "SmallBuffer \<Rightarrow> SmallBuffer" where
  "sb_init b = b\<lparr>sb_heap := None, sb_size := 0\<rparr>"

definition sb_write :: "nat \<Rightarrow> bytes \<Rightarrow> SmallBuffer \<Rightarrow> SmallBuffer mem_result" where
  "sb_write pos data b =
     bindE (mem_write (sb_block b) pos data) (\<lambda>blk. Inr (sb_set_block blk b))"

definition sb_memmove :: "nat \<Rightarrow> nat \<Rightarrow> nat \<Rightarrow> SmallBuffer \<Rightarrow> SmallBuffer mem_result" where
  "sb_memmove dst src n b = bindE (mem_read (sb_block b) src n) (\<lambda>data. sb_write dst data b)"

definition computeCapacity :: "nat \<Rightarrow> nat" where
  "computeCapacity n =
     (if n \<le> 1024 then 1024
      else if n \<le> 8192 then 8192
      else if n \<le> 65536 then 65536
      else if n \<le> 524288 then 524288
      else if n \<le> 4194304 then 4194304
      else 2 * PadLength n)"

definition increaseCapacity :: "allocator \<Rightarrow> nat \<Rightarrow> SmallBuffer \<Rightarrow> SmallBuffer mem_result" where
  "increaseCapacity a newLength b =
     (let newCapacity = computeCapacity newLength; len = sb_size b in
      bindE
        (if isSmall b then
           bindE (malloc a newCapacity) (\<lambda>newBuf.
           bindE (mem_read (sb_block b) 0 len) (\<lambda>data. mem_write newBuf 0 data))
         else realloc a (sb_block b) newCapacity)
        (\<lambda>newBuf. Inr (b\<lparr>sb_heap := Some newBuf, sb_size := len\<rparr>)))"

text \<open>\<open>ensure\<close> is the recurring test before a write: grow when \<open>need\<close> is not available.\<close>

definition ensure :: "allocator \<Rightarrow> bool \<Rightarrow> nat \<Rightarrow> SmallBuffer \<Rightarrow> SmallBuffer mem_result" where
  "ensure a need newLength b = (if need then increaseCapacity a newLength b else Inr b)"

definition sb_assign :: "allocator \<Rightarrow> bytes \<Rightarrow> SmallBuffer \<Rightarrow> SmallBuffer mem_result" where
  "sb_assign a data b =
     bindE (ensure a (length data > sb_capacity b) (length data) b) (\<lambda>b.
     bindE (sb_write 0 data b) (\<lambda>b.
     Inr (b\<lparr>sb_size := length data\<rparr>)))"

definition sb_add :: "allocator \<Rightarrow> bytes \<Rightarrow> SmallBuffer \<Rightarrow> SmallBuffer mem_result" where
  "sb_add a data b =
     bindE (ensure a (length data > sb_remaining b) (sb_size b + length data) b) (\<lambda>b.
     bindE (sb_write (sb_size b) data b) (\<lambda>b.
     Inr (b\<lparr>sb_size := sb_size b + length data\<rparr>)))"

definition sb_insert :: "allocator \<Rightarrow> nat \<Rightarrow> bytes \<Rightarrow> SmallBuffer \<Rightarrow> SmallBuffer mem_result" where
  "sb_insert a pos data b =
     bindE (ensure a (length data > sb_remaining b) (sb_size b + length data) b) (\<lambda>b.
     bindE (sb_memmove (pos + length data) pos (sb_size b - pos) b) (\<lambda>b.
     bindE (sb_write pos data b) (\<lambda>b.
     Inr (b\<lparr>sb_size := sb_size b + length data\<rparr>))))"

definition sb_replace ::
  "allocator \<Rightarrow> nat \<Rightarrow> nat \<Rightarrow> bytes \<Rightarrow> SmallBuffer \<Rightarrow> SmallBuffer mem_result" where
  "sb_replace a pos posEnd data b =
     (let posLen = posEnd - pos in
      if length data > posLen then
        (let more = length data - posLen in
         bindE (ensure a (more > sb_remaining b) (sb_size b + more) b) (\<lambda>b.
         bindE (sb_memmove (posEnd + more) posEnd (sb_size b - posEnd) b) (\<lambda>b.
         bindE (sb_write pos data b) (\<lambda>b.
         Inr (b\<lparr>sb_size := sb_size b + more\<rparr>)))))
      else
        (let less = posLen - length data in
         bindE (sb_memmove (posEnd - less) posEnd (sb_size b - posEnd) b) (\<lambda>b.
         bindE (sb_write pos data b) (\<lambda>b.
         Inr (b\<lparr>sb_size := sb_size b - less\<rparr>)))))"

definition sb_remove :: "nat \<Rightarrow> nat \<Rightarrow> SmallBuffer \<Rightarrow> SmallBuffer mem_result" where
  "sb_remove pos posEnd b =
     (let less = posEnd - pos in
      bindE (sb_memmove (posEnd - less) posEnd (sb_size b - posEnd) b) (\<lambda>b.
      Inr (b\<lparr>sb_size := sb_size b - less\<rparr>)))"

definition sb_resize :: "allocator \<Rightarrow> nat \<Rightarrow> SmallBuffer \<Rightarrow> SmallBuffer mem_result" where
  "sb_resize a n b =
     bindE (ensure a (n > sb_capacity b) n b) (\<lambda>b. Inr (b\<lparr>sb_size := n\<rparr>))"

definition sb_clear :: "SmallBuffer \<Rightarrow> SmallBuffer" where
  "sb_clear b = b\<lparr>sb_size := 0\<rparr>"

definition sb_reset :: "allocator \<Rightarrow> nat \<Rightarrow> SmallBuffer \<Rightarrow> SmallBuffer mem_result" where
  "sb_reset a n b =
     (if n \<le> IntrinsicBufSize then Inr (b\<lparr>sb_heap := None, sb_size := n\<rparr>)
      else bindE (malloc a (PadLength n)) (\<lambda>newBuf.
           Inr (b\<lparr>sb_heap := Some newBuf, sb_size := n\<rparr>)))"

text \<open>The \<open>Uninitialized\<close> operations also return the position of the new bytes.\<close>

definition sb_addUninitialized ::
  "allocator \<Rightarrow> nat \<Rightarrow> SmallBuffer \<Rightarrow> (SmallBuffer \<times> nat) mem_result" where
  "sb_addUninitialized a n b =
     bindE (ensure a (n > sb_remaining b) (sb_size b + n) b) (\<lambda>b.
     Inr (b\<lparr>sb_size := sb_size b + n\<rparr>, sb_size b))"

definition sb_insertUninitialized ::
  "allocator \<Rightarrow> nat \<Rightarrow> nat \<Rightarrow> SmallBuffer \<Rightarrow> (SmallBuffer \<times> nat) mem_result" where
  "sb_insertUninitialized a pos n b =
     bindE (ensure a (n > sb_remaining b) (sb_size b + n) b) (\<lambda>b.
     bindE (sb_memmove (pos + n) pos (sb_size b - pos) b) (\<lambda>b.
     Inr (b\<lparr>sb_size := sb_size b + n\<rparr>, pos)))"

definition sb_replaceUninitialized ::
  "allocator \<Rightarrow> nat \<Rightarrow> nat \<Rightarrow> nat \<Rightarrow> SmallBuffer \<Rightarrow> (SmallBuffer \<times> nat) mem_result" where
  "sb_replaceUninitialized a pos posEnd n b =
     (let posLen = posEnd - pos in
      if n > posLen then
        (let more = n - posLen in
         bindE (ensure a (more > sb_remaining b) more b) (\<lambda>b.
         bindE (sb_memmove (posEnd + more) posEnd (sb_size b - posEnd) b) (\<lambda>b.
         Inr (b\<lparr>sb_size := sb_size b + more\<rparr>, pos))))
      else
        (let less = posLen - n in
         bindE (sb_memmove (posEnd - less) posEnd (sb_size b - posEnd) b) (\<lambda>b.
         Inr (b\<lparr>sb_size := sb_size b - less\<rparr>, pos))))"

definition sb_addZeros :: "allocator \<Rightarrow> nat \<Rightarrow> SmallBuffer \<Rightarrow> SmallBuffer mem_result" where
  "sb_addZeros a n b =
     bindE (sb_addUninitialized a n b) (\<lambda>(b, p). sb_write p (replicate n 0) b)"

definition sb_insertZeros :: "allocator \<Rightarrow> nat \<Rightarrow> nat \<Rightarrow> SmallBuffer \<Rightarrow> SmallBuffer mem_result" where
  "sb_insertZeros a pos n b =
     bindE (sb_insertUninitialized a pos n b) (\<lambda>(b, p). sb_write p (replicate n 0) b)"

definition sb_replaceZeros ::
  "allocator \<Rightarrow> nat \<Rightarrow> nat \<Rightarrow> nat \<Rightarrow> SmallBuffer \<Rightarrow> SmallBuffer mem_result" where
  "sb_replaceZeros a pos posEnd n b =
     bindE (sb_replaceUninitialized a pos posEnd n b) (\<lambda>(b, p). sb_write p (replicate n 0) b)"

text \<open>Copy and move: the second buffer is the source, returned in the state it is left in.\<close>

definition sb_copyAssign ::
  "allocator \<Rightarrow> SmallBuffer \<Rightarrow> SmallBuffer \<Rightarrow> SmallBuffer mem_result" where
  "sb_copyAssign a b src =
     bindE (mem_read (sb_block src) 0 (sb_size src)) (\<lambda>data. sb_assign a data b)"

definition sb_moveConstruct ::
  "bytes \<Rightarrow> SmallBuffer \<Rightarrow> (SmallBuffer \<times> SmallBuffer) mem_result" where
  "sb_moveConstruct raw src =
     (if isSmall src then
        bindE (mem_read (sb_buf src) 0 (sb_size src)) (\<lambda>data.
        bindE (mem_write raw 0 data) (\<lambda>blk.
        Inr (\<lparr>sb_buf = blk, sb_heap = None, sb_size = sb_size src\<rparr>, sb_init src)))
      else Inr (\<lparr>sb_buf = raw, sb_heap = sb_heap src, sb_size = sb_size src\<rparr>, sb_init src))"

definition sb_moveAssign ::
  "allocator \<Rightarrow> SmallBuffer \<Rightarrow> SmallBuffer \<Rightarrow> (SmallBuffer \<times> SmallBuffer) mem_result" where
  "sb_moveAssign a b src =
     (if isSmall src then
        bindE (mem_read (sb_block src) 0 (sb_size src)) (\<lambda>data.
        bindE (sb_assign a data b) (\<lambda>b. Inr (b, sb_init src)))
      else Inr (b\<lparr>sb_heap := sb_heap src, sb_size := sb_size src\<rparr>, sb_init src))"

section \<open>Invariant and contents\<close>

text \<open>The class invariant is \<^verbatim>\<open>assertInvariant\<close>; the contents are the bytes \<open>[begin_, end_)\<close>.\<close>

definition sb_inv :: "SmallBuffer \<Rightarrow> bool" where
  "sb_inv b = (sb_size b \<le> sb_capacity b \<and> 0 < sb_capacity b \<and> sb_capacity b mod 8 = 0 \<and>
     length (sb_buf b) = IntrinsicBufSize)"

definition sb_contents :: "SmallBuffer \<Rightarrow> bytes" where
  "sb_contents b = take (sb_size b) (sb_block b)"

named_theorems sb_wp \<open>what each buffer operation establishes\<close>

abbreviation sb_ok :: "('a \<Rightarrow> bool) \<Rightarrow> 'a mem_result \<Rightarrow> bool" where
  "sb_ok \<equiv> succeeds_or {MallocFailed}"

lemma length_sb_contents [simp]: "sb_inv b \<Longrightarrow> length (sb_contents b) = sb_size b"
  by (simp add: sb_contents_def sb_inv_def sb_capacity_def)

lemma sb_block_simps [simp]:
  "sb_block (sb_set_block blk b) = blk"
  "sb_size (sb_set_block blk b) = sb_size b"
  "sb_block (b\<lparr>sb_size := n\<rparr>) = sb_block b"
  "sb_block (b\<lparr>sb_heap := Some blk\<rparr>) = blk"
  "sb_block (b\<lparr>sb_heap := None\<rparr>) = sb_buf b"
  "sb_capacity (b\<lparr>sb_size := n\<rparr>) = sb_capacity b"
  by (auto simp: sb_block_def sb_set_block_def isSmall_def sb_capacity_def split: option.splits)

lemma length_sb_buf_set_block:
  "length blk = sb_capacity b \<Longrightarrow> length (sb_buf (sb_set_block blk b)) = length (sb_buf b)"
  by (auto simp: sb_set_block_def isSmall_def sb_capacity_def sb_block_def)

lemma sb_inv_init: "sb_inv b \<Longrightarrow> sb_inv (sb_init b) \<and> sb_contents (sb_init b) = []"
  by (auto simp: sb_inv_def sb_init_def sb_contents_def sb_capacity_def IntrinsicBufSize_def)

lemma computeCapacity_ge: "n \<le> computeCapacity n"
  using PadLength_ge [of n] by (simp add: computeCapacity_def)

lemma computeCapacity_pos: "0 < computeCapacity n"
  by (simp add: computeCapacity_def)

lemma computeCapacity_mod8: "computeCapacity n mod 8 = 0"
  by (simp add: computeCapacity_def PadLength_def)

lemma malloc_wp: "sb_ok (\<lambda>blk. length blk = n) (malloc a n)"
  by (simp add: malloc_def split: option.splits)

lemma take_overwrite_0: "take (length ys) (overwrite 0 ys xs) = ys"
  by (simp add: overwrite_def)

lemma increaseCapacity_cases:
  assumes size: "sb_size b \<le> length (sb_block b)" and fits: "sb_size b \<le> computeCapacity n"
  shows "increaseCapacity a n b = Inl MallocFailed \<or>
    (\<exists>blk. increaseCapacity a n b = Inr (b\<lparr>sb_heap := Some blk, sb_size := sb_size b\<rparr>) \<and>
       length blk = computeCapacity n \<and> take (sb_size b) blk = sb_contents b)"
proof (cases "a (computeCapacity n)")
  case None
  then show ?thesis by (simp add: increaseCapacity_def realloc_def malloc_def Let_def)
next
  case (Some f)
  let ?c = "computeCapacity n" and ?new = "map f [0..<computeCapacity n]"
  let ?data = "if isSmall b then sb_contents b else take ?c (sb_block b)"
  have len: "length ?data \<le> ?c" and tk: "take (sb_size b) ?data = sb_contents b"
    using size fits by (simp_all add: sb_contents_def)
  have "increaseCapacity a n b = Inr (b\<lparr>sb_heap := Some (overwrite 0 ?data ?new), sb_size := sb_size b\<rparr>)"
    using Some size fits
    by (simp add: increaseCapacity_def realloc_def malloc_def Let_def mem_read_def mem_write_def
        sub_bytes_def sb_contents_def)
  moreover have "length (overwrite 0 ?data ?new) = ?c"
    using len by simp
  moreover have "take (sb_size b) (overwrite 0 ?data ?new) = sb_contents b"
    using tk size fits by (simp add: overwrite_def sb_contents_def)
  ultimately show ?thesis by blast
qed

lemma increaseCapacity_wp:
  assumes inv: "sb_inv b" and fits: "sb_size b \<le> computeCapacity n"
  shows "sb_ok (\<lambda>b'. sb_inv b' \<and> sb_contents b' = sb_contents b \<and> sb_size b' = sb_size b \<and>
           sb_capacity b' = computeCapacity n) (increaseCapacity a n b)"
proof -
  have "sb_size b \<le> length (sb_block b)"
    using inv by (simp add: sb_inv_def sb_capacity_def)
  from increaseCapacity_cases [OF this fits, of a] show ?thesis
    using inv fits computeCapacity_pos [of n] computeCapacity_mod8 [of n]
    by (auto simp: sb_inv_def sb_capacity_def sb_contents_def)
qed

lemma ensure_wp:
  assumes "sb_inv b" and "\<not> need \<Longrightarrow> n \<le> sb_capacity b" and "sb_size b \<le> n"
  shows "sb_ok (\<lambda>b'. sb_inv b' \<and> sb_contents b' = sb_contents b \<and> sb_size b' = sb_size b \<and>
           n \<le> sb_capacity b') (ensure a need n b)"
proof (cases need)
  case True
  have "sb_size b \<le> computeCapacity n"
    using assms(3) computeCapacity_ge [of n] by simp
  from increaseCapacity_wp [OF assms(1) this, of a] show ?thesis
    unfolding ensure_def using True computeCapacity_ge [of n]
    by (auto elim: succeeds_or_mono)
next
  case False
  with assms show ?thesis by (simp add: ensure_def)
qed

section \<open>What each operation does to the contents\<close>

lemma sb_write_wp:
  assumes "sb_inv b" and "pos + length data \<le> sb_capacity b"
  shows "sb_write pos data b = Inr (sb_set_block (overwrite pos data (sb_block b)) b)"
    and "sb_capacity (sb_set_block (overwrite pos data (sb_block b)) b) = sb_capacity b"
    and "length (sb_buf (sb_set_block (overwrite pos data (sb_block b)) b)) = IntrinsicBufSize"
  using assms
  by (simp_all add: sb_write_def mem_write_def sb_capacity_def sb_inv_def length_sb_buf_set_block)

lemma sb_memmove_eq:
  assumes "src + n \<le> sb_capacity b"
  shows "sb_memmove dst src n b = sb_write dst (sub_bytes src n (sb_block b)) b"
  using assms by (simp add: sb_memmove_def mem_read_def sb_capacity_def)

lemma overwrite_end:
  "n + length d \<le> length blk \<Longrightarrow> take (n + length d) (overwrite n d blk) = take n blk @ d"
  by (simp add: overwrite_def)

text \<open>Shift the tail \<open>[posEnd, n)\<close> to \<open>dst\<close>, then write \<open>d\<close> at \<open>pos\<close>.\<close>

lemma overwrite_shift:
  assumes "pos \<le> posEnd" "posEnd \<le> n" "n \<le> length blk"
    and dst: "dst = pos + length d" and "dst + (n - posEnd) \<le> length blk"
  shows "take (dst + (n - posEnd))
           (overwrite pos d (overwrite dst (sub_bytes posEnd (n - posEnd) blk) blk)) =
         take pos (take n blk) @ d @ drop posEnd (take n blk)"
proof -
  let ?T = "drop posEnd (take n blk)" and ?R = "drop (dst + (n - posEnd)) blk"
  have lenT: "length ?T = n - posEnd" using assms by simp
  have X: "overwrite dst (sub_bytes posEnd (n - posEnd) blk) blk = take dst blk @ ?T @ ?R"
    using assms by (simp add: overwrite_def sub_bytes_def drop_take)
  have Y: "overwrite pos d (take dst blk @ ?T @ ?R) = (take pos blk @ d @ ?T) @ ?R"
    using assms by (simp add: overwrite_def)
  have "length (take pos blk @ d @ ?T) = dst + (n - posEnd)"
    using assms lenT by simp
  then have "take (dst + (n - posEnd)) ((take pos blk @ d @ ?T) @ ?R) = take pos blk @ d @ ?T"
    by (metis append_eq_conv_conj)
  then show ?thesis
    unfolding X Y using assms by simp
qed

lemma sb_contents_setI:
  assumes "length blk = sb_capacity b" "n \<le> sb_capacity b" "sb_inv b" "take n blk = xs"
  shows "sb_inv ((sb_set_block blk b)\<lparr>sb_size := n\<rparr>) \<and>
         sb_contents ((sb_set_block blk b)\<lparr>sb_size := n\<rparr>) = xs"
  using assms length_sb_buf_set_block [of blk b]
  by (auto simp: sb_inv_def sb_contents_def sb_capacity_def)

lemma sb_assign_wp [sb_wp]:
  assumes "sb_inv b"
  shows "sb_ok (\<lambda>b'. sb_inv b' \<and> sb_contents b' = data) (sb_assign a data b)"
  unfolding sb_assign_def
proof (rule succeeds_or_bind)
  show "sb_ok (\<lambda>b'. sb_inv b' \<and> length data \<le> sb_capacity b')
      (ensure a (sb_capacity b < length data) (length data) b)"
  proof (cases "sb_capacity b < length data")
    case True
    with assms have "sb_size b \<le> length data" by (simp add: sb_inv_def)
    with assms show ?thesis
      by (intro succeeds_or_mono [OF ensure_wp]) auto
  qed (use assms in \<open>simp add: ensure_def\<close>)
next
  fix b'
  assume "sb_inv b' \<and> length data \<le> sb_capacity b'"
  then show "sb_ok (\<lambda>b'. sb_inv b' \<and> sb_contents b' = data)
      (bindE (sb_write 0 data b') (\<lambda>b. Inr (b\<lparr>sb_size := length data\<rparr>)))"
    by (simp add: sb_write_wp sb_contents_setI take_overwrite_0 sb_capacity_def)
qed


lemma ensure_more_wp:
  assumes "sb_inv b" and "sb_size b \<le> n"
  shows "sb_ok (\<lambda>b'. sb_inv b' \<and> sb_contents b' = sb_contents b \<and> sb_size b' = sb_size b \<and>
           n \<le> sb_capacity b') (ensure a (n - sb_size b > sb_remaining b) n b)"
  using assms by (intro ensure_wp) (auto simp: sb_remaining_def sb_inv_def)

lemma sb_add_wp [sb_wp]:
  assumes "sb_inv b"
  shows "sb_ok (\<lambda>b'. sb_inv b' \<and> sb_contents b' = sb_contents b @ data) (sb_add a data b)"
  unfolding sb_add_def
proof (rule succeeds_or_bind)
  show "sb_ok (\<lambda>b'. sb_inv b' \<and> sb_contents b' = sb_contents b \<and> sb_size b' = sb_size b \<and>
          sb_size b + length data \<le> sb_capacity b')
      (ensure a (sb_remaining b < length data) (sb_size b + length data) b)"
    using ensure_more_wp [OF assms, of "sb_size b + length data" a] by simp
next
  fix b'
  assume b': "sb_inv b' \<and> sb_contents b' = sb_contents b \<and> sb_size b' = sb_size b \<and>
    sb_size b + length data \<le> sb_capacity b'"
  then have "take (sb_size b + length data) (overwrite (sb_size b) data (sb_block b')) =
      sb_contents b @ data"
    by (auto simp: overwrite_end sb_capacity_def sb_contents_def)
  with b' show "sb_ok (\<lambda>b'. sb_inv b' \<and> sb_contents b' = sb_contents b @ data)
      (bindE (sb_write (sb_size b') data b') (\<lambda>b. Inr (b\<lparr>sb_size := sb_size b + length data\<rparr>)))"
    by (simp add: sb_write_wp sb_contents_setI sb_capacity_def)
qed

text \<open>Shifting the tail of the buffer and writing \<open>d\<close> into the gap, in buffer terms.\<close>

lemma sb_shift_write:
  assumes inv: "sb_inv b" and le: "pos \<le> posEnd" "posEnd \<le> sb_size b"
    and cap: "pos + length d + (sb_size b - posEnd) \<le> sb_capacity b"
  shows "\<exists>b'. bindE (sb_memmove (pos + length d) posEnd (sb_size b - posEnd) b) (sb_write pos d) = Inr b' \<and>
      sb_size b' = sb_size b \<and>
      sb_inv (b'\<lparr>sb_size := pos + length d + (sb_size b - posEnd)\<rparr>) \<and>
      sb_contents (b'\<lparr>sb_size := pos + length d + (sb_size b - posEnd)\<rparr>) =
        take pos (sb_contents b) @ d @ drop posEnd (sb_contents b)"
proof -
  let ?m = "sb_size b - posEnd"
  let ?blk1 = "overwrite (pos + length d) (sub_bytes posEnd ?m (sb_block b)) (sb_block b)"
  let ?b1 = "sb_set_block ?blk1 b"
  have size: "sb_size b \<le> sb_capacity b" using inv by (simp add: sb_inv_def)
  have lenm: "length (sub_bytes posEnd ?m (sb_block b)) = ?m"
    using size le by (simp add: sb_capacity_def)
  have w1: "sb_memmove (pos + length d) posEnd ?m b = Inr ?b1"
    using inv cap size le lenm by (simp add: sb_memmove_eq sb_write_wp)
  have cap1: "sb_capacity ?b1 = sb_capacity b"
    using inv cap lenm by (intro sb_write_wp) auto
  have inv1: "sb_inv ?b1"
    using inv cap lenm sb_write_wp(3) [of b "pos + length d" "sub_bytes posEnd ?m (sb_block b)"] cap1
    by (simp add: sb_inv_def)
  have w2: "sb_write pos d ?b1 = Inr (sb_set_block (overwrite pos d ?blk1) ?b1)"
    using inv1 cap cap1 by (simp add: sb_write_wp)
  have shift: "take (pos + length d + ?m) (overwrite pos d ?blk1) =
      take pos (sb_contents b) @ d @ drop posEnd (sb_contents b)"
    unfolding sb_contents_def
    using le size cap by (intro overwrite_shift) (auto simp: sb_capacity_def)
  have "length (overwrite pos d ?blk1) = sb_capacity ?b1"
    using cap1 cap by (simp add: sb_capacity_def)
  then show ?thesis
    using w1 w2 sb_contents_setI [OF _ _ inv1 shift] cap cap1 by simp
qed


lemma sb_shift:
  assumes inv: "sb_inv b" and le: "pos \<le> posEnd" "posEnd \<le> sb_size b"
    and cap: "pos + n + (sb_size b - posEnd) \<le> sb_capacity b"
  shows "\<exists>b' gap. sb_memmove (pos + n) posEnd (sb_size b - posEnd) b = Inr b' \<and>
      sb_size b' = sb_size b \<and> length gap = n \<and>
      sb_inv (b'\<lparr>sb_size := pos + n + (sb_size b - posEnd)\<rparr>) \<and>
      sb_contents (b'\<lparr>sb_size := pos + n + (sb_size b - posEnd)\<rparr>) =
        take pos (sb_contents b) @ gap @ drop posEnd (sb_contents b)"
proof -
  let ?m = "sb_size b - posEnd" and ?blk = "sb_block b"
  let ?T = "sub_bytes posEnd ?m ?blk"
  let ?blk1 = "overwrite (pos + n) ?T ?blk"
  have size: "sb_size b \<le> sb_capacity b" using inv by (simp add: sb_inv_def)
  have lenT: "length ?T = ?m" using size le by (simp add: sb_capacity_def)
  have T: "?T = drop posEnd (sb_contents b)"
    by (simp add: sub_bytes_def sb_contents_def drop_take)
  have w1: "sb_memmove (pos + n) posEnd ?m b = Inr (sb_set_block ?blk1 b)"
    using inv cap size le lenT by (simp add: sb_memmove_eq sb_write_wp)
  have "take (pos + n + ?m) ?blk1 = take (pos + n) ?blk @ ?T"
    using cap lenT by (simp add: overwrite_def sb_capacity_def)
  also have "take (pos + n) ?blk = take pos (sb_contents b) @ sub_bytes pos n ?blk"
    using le by (simp add: take_add sub_bytes_def sb_contents_def min_def)
  finally have c: "take (pos + n + ?m) ?blk1 =
      take pos (sb_contents b) @ sub_bytes pos n ?blk @ drop posEnd (sb_contents b)"
    by (simp add: T)
  have "length ?blk1 = sb_capacity b"
    using cap lenT by (simp add: sb_capacity_def)
  then show ?thesis
    using w1 sb_contents_setI [OF _ cap inv c] cap
    by (intro exI [of _ "sb_set_block ?blk1 b"] exI [of _ "sub_bytes pos n ?blk"])
       (simp add: sb_capacity_def)
qed

lemma sb_write_contents:
  assumes inv: "sb_inv b" and le: "pos + length data \<le> sb_size b"
  shows "sb_ok (\<lambda>b'. sb_inv b' \<and> sb_contents b' = overwrite pos data (sb_contents b)) (sb_write pos data b)"
proof -
  have size: "sb_size b \<le> sb_capacity b" using inv by (simp add: sb_inv_def)
  let ?b' = "sb_set_block (overwrite pos data (sb_block b)) b"
  have "take (sb_size b) (overwrite pos data (sb_block b)) = overwrite pos data (sb_contents b)"
    using le size by (auto simp: overwrite_def sb_contents_def sb_capacity_def drop_take min_def
        dest: order_antisym)
  from sb_contents_setI [OF _ size inv this] have "sb_inv ?b' \<and> sb_contents ?b' = overwrite pos data (sb_contents b)"
    using le size by (simp add: sb_capacity_def sb_set_block_def split: if_splits)
  with inv le size show ?thesis by (simp add: sb_write_wp)
qed

lemma sb_insert_wp [sb_wp]:
  assumes "sb_inv b" and "pos \<le> sb_size b"
  shows "sb_ok (\<lambda>b'. sb_inv b' \<and> sb_contents b' = insert_at pos data (sb_contents b)) (sb_insert a pos data b)"
  unfolding sb_insert_def
proof (rule succeeds_or_bind)
  show "sb_ok (\<lambda>b'. sb_inv b' \<and> sb_contents b' = sb_contents b \<and> sb_size b' = sb_size b \<and>
          sb_size b + length data \<le> sb_capacity b')
      (ensure a (sb_remaining b < length data) (sb_size b + length data) b)"
    using ensure_more_wp [OF assms(1), of "sb_size b + length data" a] by simp
next
  fix b'
  assume b': "sb_inv b' \<and> sb_contents b' = sb_contents b \<and> sb_size b' = sb_size b \<and>
    sb_size b + length data \<le> sb_capacity b'"
  have n: "pos + length data + (sb_size b - pos) = sb_size b + length data"
    using assms(2) by simp
  from sb_shift_write [of b' pos pos data] b' assms(2)
  show "sb_ok (\<lambda>b'. sb_inv b' \<and> sb_contents b' = insert_at pos data (sb_contents b))
      (bindE (sb_memmove (pos + length data) pos (sb_size b' - pos) b') (\<lambda>b.
       bindE (sb_write pos data b) (\<lambda>b. Inr (b\<lparr>sb_size := sb_size b + length data\<rparr>))))"
    by (auto simp: insert_at_def n simp flip: bindE_assoc)
qed

lemma sb_replace_wp [sb_wp]:
  assumes "sb_inv b" and le: "pos \<le> posEnd" "posEnd \<le> sb_size b"
  shows "sb_ok (\<lambda>b'. sb_inv b' \<and>
           sb_contents b' = take pos (sb_contents b) @ data @ drop posEnd (sb_contents b))
         (sb_replace a pos posEnd data b)"
proof (cases "length data > posEnd - pos")
  case True
  let ?more = "length data - (posEnd - pos)"
  have dst: "posEnd + ?more = pos + length data" and
       n: "pos + length data + (sb_size b - posEnd) = sb_size b + ?more"
    using True le by simp_all
  have ens: "sb_ok (\<lambda>b'. sb_inv b' \<and> sb_contents b' = sb_contents b \<and> sb_size b' = sb_size b \<and>
          sb_size b + ?more \<le> sb_capacity b')
      (ensure a (?more > sb_remaining b) (sb_size b + ?more) b)"
    using ensure_more_wp [OF assms(1), of "sb_size b + ?more" a] by simp
  have wr: "sb_ok (\<lambda>b'. sb_inv b' \<and>
        sb_contents b' = take pos (sb_contents b) @ data @ drop posEnd (sb_contents b))
      (bindE (sb_memmove (posEnd + ?more) posEnd (sb_size b' - posEnd) b') (\<lambda>b.
       bindE (sb_write pos data b) (\<lambda>b. Inr (b\<lparr>sb_size := sb_size b + ?more\<rparr>))))"
    if "sb_inv b' \<and> sb_contents b' = sb_contents b \<and> sb_size b' = sb_size b \<and>
        sb_size b + ?more \<le> sb_capacity b'" for b'
    using sb_shift_write [of b' pos posEnd data] that le n
    unfolding dst by (auto simp flip: bindE_assoc)
  show ?thesis
    using True succeeds_or_bind [OF ens wr] by (simp add: sb_replace_def Let_def)
next
  case False
  let ?less = "posEnd - pos - length data"
  have dst: "posEnd - ?less = pos + length data" and
       n: "pos + length data + (sb_size b - posEnd) = sb_size b - ?less"
    using False le by simp_all
  have "sb_size b - ?less \<le> sb_capacity b"
    using assms(1) unfolding sb_inv_def by linarith
  then show ?thesis
    using sb_shift_write [of b pos posEnd data] assms False n
    unfolding sb_replace_def Let_def dst
    by (auto simp flip: bindE_assoc)
qed

lemma sb_remove_wp [sb_wp]:
  assumes "sb_inv b" and le: "pos \<le> posEnd" "posEnd \<le> sb_size b"
  shows "sb_ok (\<lambda>b'. sb_inv b' \<and> sb_contents b' = remove_at pos (posEnd - pos) (sb_contents b))
         (sb_remove pos posEnd b)"
proof -
  have n: "pos + 0 + (sb_size b - posEnd) = sb_size b - (posEnd - pos)" and
       p: "posEnd - (posEnd - pos) = pos + 0"
    using le by simp_all
  have "sb_size b - (posEnd - pos) \<le> sb_capacity b"
    using assms(1) unfolding sb_inv_def by linarith
  then show ?thesis
    using sb_shift [of b pos posEnd 0] assms
    unfolding sb_remove_def Let_def p n by (auto simp: remove_at_def)
qed


lemma sb_resize_wp [sb_wp]:
  assumes "sb_inv b"
  shows "sb_ok (\<lambda>b'. sb_inv b' \<and> length (sb_contents b') = n \<and>
           take (min n (sb_size b)) (sb_contents b') = take n (sb_contents b)) (sb_resize a n b)"
  unfolding sb_resize_def
proof (rule succeeds_or_bind)
  show "sb_ok (\<lambda>b'. sb_inv b' \<and> sb_contents b' = sb_contents b \<and> sb_size b' = sb_size b \<and>
      n \<le> sb_capacity b') (ensure a (sb_capacity b < n) n b)"
  proof (cases "sb_capacity b < n")
    case True
    moreover have "sb_size b \<le> sb_capacity b" using assms by (simp add: sb_inv_def)
    ultimately show ?thesis using ensure_wp [OF assms, of "sb_capacity b < n" n a] by simp
  next
    case False
    then show ?thesis using assms by (simp add: ensure_def)
  qed
next
  fix b' assume "sb_inv b' \<and> sb_contents b' = sb_contents b \<and> sb_size b' = sb_size b \<and> n \<le> sb_capacity b'"
  then show "sb_ok (\<lambda>b'. sb_inv b' \<and> length (sb_contents b') = n \<and>
      take (min n (sb_size b)) (sb_contents b') = take n (sb_contents b)) (Inr (b'\<lparr>sb_size := n\<rparr>))"
    by (simp add: sb_inv_def sb_contents_def sb_capacity_def min_def) (metis order_refl take_all_iff take_take min_def nle_le)
qed

lemma sb_clear_wp: "sb_inv b \<Longrightarrow> sb_inv (sb_clear b) \<and> sb_contents (sb_clear b) = []"
  by (simp add: sb_inv_def sb_clear_def sb_contents_def)

lemma sb_reset_wp [sb_wp]:
  assumes "sb_inv b"
  shows "sb_ok (\<lambda>b'. sb_inv b' \<and> length (sb_contents b') = n) (sb_reset a n b)"
proof (cases "n \<le> IntrinsicBufSize")
  case True
  then show ?thesis
    using assms by (auto simp: sb_reset_def sb_inv_def sb_contents_def sb_capacity_def IntrinsicBufSize_def)
next
  case False
  then have "0 < PadLength n" using PadLength_ge [of n] by (simp add: IntrinsicBufSize_def)
  with False show ?thesis
    using assms PadLength_ge [of n] PadLength_mod8 [of n]
    by (auto simp: sb_reset_def malloc_def sb_inv_def sb_contents_def sb_capacity_def
        split: option.splits)
qed

lemma sb_addUninitialized_wp [sb_wp]:
  assumes "sb_inv b"
  shows "sb_ok (\<lambda>(b', p). sb_inv b' \<and> p = sb_size b \<and>
           (\<exists>gap. length gap = n \<and> sb_contents b' = sb_contents b @ gap)) (sb_addUninitialized a n b)"
  unfolding sb_addUninitialized_def
proof (rule succeeds_or_bind)
  show "sb_ok (\<lambda>b'. sb_inv b' \<and> sb_contents b' = sb_contents b \<and> sb_size b' = sb_size b \<and>
          sb_size b + n \<le> sb_capacity b')
      (ensure a (sb_remaining b < n) (sb_size b + n) b)"
    using ensure_more_wp [OF assms, of "sb_size b + n" a] by simp
next
  fix b'
  assume b': "sb_inv b' \<and> sb_contents b' = sb_contents b \<and> sb_size b' = sb_size b \<and>
    sb_size b + n \<le> sb_capacity b'"
  then have "sb_contents (b'\<lparr>sb_size := sb_size b' + n\<rparr>) = sb_contents b @ sub_bytes (sb_size b) n (sb_block b')"
    by (auto simp: sb_contents_def take_add sub_bytes_def)
  with b' show "sb_ok (\<lambda>(b', p). sb_inv b' \<and> p = sb_size b \<and>
         (\<exists>gap. length gap = n \<and> sb_contents b' = sb_contents b @ gap))
      (Inr (b'\<lparr>sb_size := sb_size b' + n\<rparr>, sb_size b'))"
    by (auto simp: sb_inv_def sb_capacity_def intro!: exI [of _ "sub_bytes (sb_size b) n (sb_block b')"])
qed

lemma sb_insertUninitialized_wp [sb_wp]:
  assumes "sb_inv b" and "pos \<le> sb_size b"
  shows "sb_ok (\<lambda>(b', p). sb_inv b' \<and> p = pos \<and>
           (\<exists>gap. length gap = n \<and> sb_contents b' = insert_at pos gap (sb_contents b)))
         (sb_insertUninitialized a pos n b)"
  unfolding sb_insertUninitialized_def
proof (rule succeeds_or_bind)
  show "sb_ok (\<lambda>b'. sb_inv b' \<and> sb_contents b' = sb_contents b \<and> sb_size b' = sb_size b \<and>
          sb_size b + n \<le> sb_capacity b')
      (ensure a (sb_remaining b < n) (sb_size b + n) b)"
    using ensure_more_wp [OF assms(1), of "sb_size b + n" a] by simp
next
  fix b'
  assume b': "sb_inv b' \<and> sb_contents b' = sb_contents b \<and> sb_size b' = sb_size b \<and>
    sb_size b + n \<le> sb_capacity b'"
  have n: "pos + n + (sb_size b - pos) = sb_size b + n"
    using assms(2) by simp
  from sb_shift [of b' pos pos n] b' assms(2)
  show "sb_ok (\<lambda>(b', p). sb_inv b' \<and> p = pos \<and>
          (\<exists>gap. length gap = n \<and> sb_contents b' = insert_at pos gap (sb_contents b)))
      (bindE (sb_memmove (pos + n) pos (sb_size b' - pos) b') (\<lambda>b. Inr (b\<lparr>sb_size := sb_size b + n\<rparr>, pos)))"
    by (auto simp: insert_at_def n)
qed

text \<open>\<open>replaceUninitialized\<close> is right when it need not grow the buffer; the branch that grows it
asks for \<open>more\<close> bytes in all instead of \<open>size() + more\<close>.\<close>

lemma sb_replaceUninitialized_wp [sb_wp]:
  assumes "sb_inv b" and le: "pos \<le> posEnd" "posEnd \<le> sb_size b"
    and room: "n - (posEnd - pos) \<le> sb_remaining b"
  shows "sb_ok (\<lambda>(b', p). sb_inv b' \<and> p = pos \<and>
           (\<exists>gap. length gap = n \<and>
              sb_contents b' = take pos (sb_contents b) @ gap @ drop posEnd (sb_contents b)))
         (sb_replaceUninitialized a pos posEnd n b)"
proof -
  have n1: "posEnd + n - (posEnd - pos) = pos + n"
    and n2: "n > posEnd - pos \<Longrightarrow> sb_size b + n - (posEnd - pos) = pos + n + (sb_size b - posEnd)"
    and n3: "\<not> n > posEnd - pos \<Longrightarrow> posEnd - (posEnd - (pos + n)) = pos + n"
    and n4: "\<not> n > posEnd - pos \<Longrightarrow> sb_size b - (posEnd - (pos + n)) = pos + n + (sb_size b - posEnd)"
    using le by simp_all
  have cap: "pos + n + (sb_size b - posEnd) \<le> sb_capacity b"
    using assms unfolding sb_inv_def sb_remaining_def by linarith
  from sb_shift [OF assms(1) le cap] obtain b' gap where
    "sb_memmove (pos + n) posEnd (sb_size b - posEnd) b = Inr b'" "sb_size b' = sb_size b" "length gap = n"
    "sb_inv (b'\<lparr>sb_size := pos + n + (sb_size b - posEnd)\<rparr>)"
    "sb_contents (b'\<lparr>sb_size := pos + n + (sb_size b - posEnd)\<rparr>) =
        take pos (sb_contents b) @ gap @ drop posEnd (sb_contents b)"
    by blast
  with room show ?thesis
    by (cases "n > posEnd - pos") (auto simp: sb_replaceUninitialized_def Let_def ensure_def n1 n2 n3 n4)
qed

lemma overwrite_gap:
  "length gap = length data \<Longrightarrow> length xs = p \<Longrightarrow> overwrite p data (xs @ gap @ ys) = xs @ data @ ys"
  by (simp add: overwrite_def)

lemma sb_addZeros_wp [sb_wp]:
  assumes "sb_inv b"
  shows "sb_ok (\<lambda>b'. sb_inv b' \<and> sb_contents b' = sb_contents b @ replicate n 0) (sb_addZeros a n b)"
  unfolding sb_addZeros_def
proof (rule succeeds_or_bind [OF sb_addUninitialized_wp [OF assms]], clarify)
  fix b' gap
  assume b': "sb_inv b'" "sb_contents b' = sb_contents b @ gap" "n = length gap"
  have "sb_size b' = sb_size b + length gap"
    using b' assms by (metis length_sb_contents length_append)
  with b' assms show "sb_ok (\<lambda>b'. sb_inv b' \<and> sb_contents b' = sb_contents b @ replicate (length gap) 0)
      (sb_write (sb_size b) (replicate (length gap) 0) b')"
    using sb_write_contents [of b' "sb_size b" "replicate (length gap) 0"]
      overwrite_gap [of gap "replicate (length gap) 0" "sb_contents b" "sb_size b" "[]"]
    by simp
qed

lemma sb_insertZeros_wp [sb_wp]:
  assumes "sb_inv b" and "pos \<le> sb_size b"
  shows "sb_ok (\<lambda>b'. sb_inv b' \<and> sb_contents b' = insert_at pos (replicate n 0) (sb_contents b))
         (sb_insertZeros a pos n b)"
  unfolding sb_insertZeros_def
proof (rule succeeds_or_bind [OF sb_insertUninitialized_wp [OF assms]], clarify)
  fix b' gap
  assume b': "sb_inv b'" "sb_contents b' = insert_at pos gap (sb_contents b)" "n = length gap"
  have "sb_size b' = sb_size b + length gap"
    using length_sb_contents [OF b'(1)] b'(2) assms by (simp add: insert_at_def)
  with b' assms show "sb_ok (\<lambda>b'. sb_inv b' \<and> sb_contents b' = insert_at pos (replicate (length gap) 0) (sb_contents b))
      (sb_write pos (replicate (length gap) 0) b')"
    using sb_write_contents [of b' pos "replicate (length gap) 0"]
    by (simp add: insert_at_def overwrite_gap)
qed

lemma sb_copyAssign_wp [sb_wp]:
  assumes "sb_inv b" and "sb_inv src"
  shows "sb_ok (\<lambda>b'. sb_inv b' \<and> sb_contents b' = sb_contents src) (sb_copyAssign a b src)"
proof -
  have "mem_read (sb_block src) 0 (sb_size src) = Inr (sb_contents src)"
    using assms(2) by (simp add: mem_read_def sb_inv_def sb_capacity_def sub_bytes_def sb_contents_def)
  then show ?thesis
    using sb_assign_wp [OF assms(1)] by (simp add: sb_copyAssign_def)
qed

lemma sb_moveAssign_wp [sb_wp]:
  assumes "sb_inv b" and "sb_inv src"
  shows "sb_ok (\<lambda>(b', src'). sb_inv b' \<and> sb_contents b' = sb_contents src \<and>
           sb_inv src' \<and> sb_contents src' = []) (sb_moveAssign a b src)"
proof (cases "isSmall src")
  case True
  have "mem_read (sb_block src) 0 (sb_size src) = Inr (sb_contents src)"
    using assms(2) by (simp add: mem_read_def sb_inv_def sb_capacity_def sub_bytes_def sb_contents_def)
  moreover have "sb_ok (\<lambda>(b', src'). sb_inv b' \<and> sb_contents b' = sb_contents src \<and>
           sb_inv src' \<and> sb_contents src' = []) (bindE (sb_assign a (sb_contents src) b) (\<lambda>b. Inr (b, sb_init src)))"
    using sb_inv_init [OF assms(2)]
    by (intro succeeds_or_bind [OF sb_assign_wp [OF assms(1)]]) auto
  ultimately show ?thesis
    using True by (simp add: sb_moveAssign_def)
next
  case False
  then obtain blk where blk: "sb_heap src = Some blk" by (auto simp: isSmall_def)
  with False assms sb_inv_init [OF assms(2)] show ?thesis
    by (auto simp: sb_moveAssign_def sb_inv_def sb_capacity_def sb_contents_def sb_block_def isSmall_def)
qed

end
