(* ===== verification/HexCodec.thy ===== *)
theory HexCodec
  imports Prelude
begin

text \<open>
  The raw-data helpers of \<^verbatim>\<open>src/ofp/types.cpp\<close>: hexadecimal printing and the four hexadecimal
  parsers, the base64 printer, and the byte-wise memory helpers. A C string or
  \<^verbatim>\<open>llvm::StringRef\<close> is a \<^typ>\<open>string\<close>; an output buffer is the list of the bytes written to it.
  Loops over a pointer become recursion over the list of the bytes that are left.
\<close>

unbundle bit_operations_syntax

section \<open>Digits\<close>

definition kTwoGigabytes :: nat where
  "kTwoGigabytes = 0x80000000"

definition HexDigitsUpperCase :: string where
  "HexDigitsUpperCase = ''0123456789ABCDEF''"

definition HexDigitsLowerCase :: string where
  "HexDigitsLowerCase = ''0123456789abcdef''"

definition isxdigit :: "char \<Rightarrow> bool" where
  "isxdigit c = (c \<in> set ''0123456789ABCDEFabcdef'')"

definition isspace :: "char \<Rightarrow> bool" where
  "isspace c = (c \<in> {CHR 0x20, CHR 0x09, CHR 0x0A, CHR 0x0B, CHR 0x0C, CHR 0x0D})"

definition FromHex :: "char \<Rightarrow> u32" where
  "FromHex hex = word_of_int
     (if (of_char hex :: int) \<le> of_char (CHR ''9'') then of_char hex - of_char (CHR ''0'')
      else (of_char hex AND NOT 0x20) - of_char (CHR ''A'') + 10)"

definition ToHexUpperCase :: "byte \<Rightarrow> char" where
  "ToHexUpperCase v = HexDigitsUpperCase ! unat v"

definition ToHexLowerCase :: "byte \<Rightarrow> char" where
  "ToHexLowerCase v = HexDigitsLowerCase ! unat v"

text \<open>The byte \<^verbatim>\<open>UInt8_narrow_cast((ch[0] << 4) | ch[1])\<close> of two digits.\<close>

definition hexByte :: "u32 \<Rightarrow> u32 \<Rightarrow> byte" where
  "hexByte hi lo = ucast (push_bit 4 hi OR lo)"

section \<open>Printing\<close>

primrec RawDataToHex_loop :: "bytes \<Rightarrow> string" where
  "RawDataToHex_loop [] = []"
| "RawDataToHex_loop (b # bs) =
     ToHexUpperCase (drop_bit 4 b) # ToHexUpperCase (b AND 0x0F) # RawDataToHex_loop bs"

definition RawDataToHex :: "bytes \<Rightarrow> string" where
  "RawDataToHex data =
     (if length data > kTwoGigabytes then ''== hex too big =='' else RawDataToHex_loop data)"

text \<open>The stream variant converts blocks of 128 bytes; the result is what is written to the stream.\<close>

function RawDataToHex_blocks :: "bytes \<Rightarrow> string" where
  "RawDataToHex_blocks data =
     (if length data \<ge> 128
      then RawDataToHex_loop (take 128 data) @ RawDataToHex_blocks (drop 128 data)
      else RawDataToHex_loop data)"
  by auto
termination by (relation "measure length") auto

definition RawDataToHex_stream :: "bytes \<Rightarrow> string" where
  "RawDataToHex_stream data =
     (if length data > kTwoGigabytes then ''== hex too big =='' else RawDataToHex_blocks data)"

primrec RawDataToHex_delim_loop :: "char \<Rightarrow> int \<Rightarrow> int \<Rightarrow> bytes \<Rightarrow> string" where
  "RawDataToHex_delim_loop delimiter word_size cnt [] = []"
| "RawDataToHex_delim_loop delimiter word_size cnt (b # bs) =
     (let cnt = cnt + 1; wrap = cnt > word_size in
      (if wrap then [delimiter] else []) @
      ToHexUpperCase (drop_bit 4 b) # ToHexUpperCase (b AND 0x0F) #
      RawDataToHex_delim_loop delimiter word_size (if wrap then 1 else cnt) bs)"

definition RawDataToHex_delim :: "bytes \<Rightarrow> char \<Rightarrow> int \<Rightarrow> string" where
  "RawDataToHex_delim data delimiter word_size =
     (if length data \<ge> kTwoGigabytes then ''== hex too big ==''
      else RawDataToHex_delim_loop delimiter word_size 0 data)"

primrec RawDataToHexDelimitedLowercase_rest :: "bytes \<Rightarrow> string" where
  "RawDataToHexDelimitedLowercase_rest [] = []"
| "RawDataToHexDelimitedLowercase_rest (e # es) =
     CHR '':'' # ToHexLowerCase (drop_bit 4 e) # ToHexLowerCase (e AND 0x0F) #
     RawDataToHexDelimitedLowercase_rest es"

text \<open>The template is instantiated for arrays of 6 and 8 bytes, so the first byte exists.\<close>

definition RawDataToHexDelimitedLowercase :: "bytes \<Rightarrow> string" where
  "RawDataToHexDelimitedLowercase data =
     ToHexLowerCase (drop_bit 4 (hd data)) # ToHexLowerCase (hd data AND 0x0F) #
     RawDataToHexDelimitedLowercase_rest (tl data)"

section \<open>Parsing\<close>

text \<open>\<open>HexToRawData_string\<close> is the overload that returns a string. The pending first digit
\<^verbatim>\<open>ch[0]\<close> is \<^const>\<open>None\<close> when \<^verbatim>\<open>idx\<close> is 0. Like the source it stops at a NUL character.\<close>

fun HexToRawData_string_loop :: "string \<Rightarrow> u32 option \<Rightarrow> bytes" where
  "HexToRawData_string_loop [] ch = []"
| "HexToRawData_string_loop (c # cs) ch =
     (if c = CHR 0x00 then []
      else if isxdigit c then
        (case ch of
           None \<Rightarrow> HexToRawData_string_loop cs (Some (FromHex c))
         | Some hi \<Rightarrow> hexByte hi (FromHex c) # HexToRawData_string_loop cs None)
      else HexToRawData_string_loop cs ch)"

definition HexToRawData_string :: "string \<Rightarrow> bytes" where
  "HexToRawData_string hex = HexToRawData_string_loop hex None"

text \<open>The overload with an output buffer: the loop yields the bytes written, whether a character
was neither a digit nor white space, and whether a digit is left over.\<close>

fun HexToRawData_loop ::
  "nat \<Rightarrow> string \<Rightarrow> u32 option \<Rightarrow> bool \<Rightarrow> bytes \<Rightarrow> bytes \<times> bool \<times> bool" where
  "HexToRawData_loop maxlen [] ch nonhex out = (out, nonhex, ch \<noteq> None)"
| "HexToRawData_loop maxlen (c # cs) ch nonhex out =
     (if c = CHR 0x00 then (out, nonhex, ch \<noteq> None)
      else if isxdigit c then
        (case ch of
           None \<Rightarrow> HexToRawData_loop maxlen cs (Some (FromHex c)) nonhex out
         | Some hi \<Rightarrow>
             (let out = out @ [hexByte hi (FromHex c)] in
              if length out \<ge> maxlen then (out, nonhex, False)
              else HexToRawData_loop maxlen cs None nonhex out))
      else if \<not> nonhex \<and> \<not> isspace c then HexToRawData_loop maxlen cs ch True out
      else HexToRawData_loop maxlen cs ch nonhex out)"

text \<open>The number of bytes converted, the buffer afterwards, and the value stored in \<^verbatim>\<open>*error\<close>
(none when the buffer is empty).\<close>

definition HexToRawData :: "string \<Rightarrow> nat \<Rightarrow> nat \<times> bytes \<times> bool option" where
  "HexToRawData hex maxlen =
     (if maxlen = 0 then (0, [], None)
      else (case HexToRawData_loop maxlen hex None False [] of
              (out, nonhex, left) \<Rightarrow>
                (length out, out @ replicate (maxlen - length out) 0, Some (nonhex \<or> left))))"

text \<open>\<^verbatim>\<open>HexDelimitedToRawData\<close> and \<^verbatim>\<open>HexStrictToRawData\<close> return the size of the output (0 for an
error) and have written the bytes of the second component, also when they fail.\<close>

fun HexDelimitedToRawData_loop :: "char \<Rightarrow> nat \<Rightarrow> string \<Rightarrow> bytes \<Rightarrow> nat \<times> bytes" where
  "HexDelimitedToRawData_loop delimiter n (a # b # input) out =
     (if length out \<ge> n then (0, out)
      else if \<not> isxdigit a then (0, out)
      else if b = delimiter then
        HexDelimitedToRawData_loop delimiter n input (out @ [ucast (FromHex a)])
      else if \<not> isxdigit b then (0, out)
      else
        (let out = out @ [hexByte (FromHex a) (FromHex b)] in
         case input of
           [] \<Rightarrow> (length out, out)
         | delim # input' \<Rightarrow>
             if delim \<noteq> delimiter then (0, out)
             else HexDelimitedToRawData_loop delimiter n input' out))"
| "HexDelimitedToRawData_loop delimiter n [c] out =
     (if length out \<ge> n then (0, out)
      else if \<not> isxdigit c then (0, out)
      else (let out = out @ [ucast (FromHex c)] in (length out, out)))"
| "HexDelimitedToRawData_loop delimiter n [] out = (0, out)"

definition HexDelimitedToRawData :: "string \<Rightarrow> nat \<Rightarrow> char \<Rightarrow> nat \<times> bytes" where
  "HexDelimitedToRawData s n delimiter = HexDelimitedToRawData_loop delimiter n s []"

fun HexStrictToRawData_loop :: "nat \<Rightarrow> string \<Rightarrow> bytes \<Rightarrow> nat \<times> bytes" where
  "HexStrictToRawData_loop n (a # b # input) out =
     (if length out \<ge> n then (0, out)
      else if \<not> isxdigit a \<or> \<not> isxdigit b then (0, out)
      else HexStrictToRawData_loop n input (out @ [hexByte (FromHex a) (FromHex b)]))"
| "HexStrictToRawData_loop n [c] out = (0, out)"
| "HexStrictToRawData_loop n [] out = (length out, out)"

definition HexStrictToRawData :: "string \<Rightarrow> nat \<Rightarrow> nat \<times> bytes" where
  "HexStrictToRawData s n = HexStrictToRawData_loop n s []"

section \<open>Base64 and memory helpers\<close>

definition Base64Digits :: string where
  "Base64Digits = ''ABCDEFGHIJKLMNOPQRSTUVWXYZabcdefghijklmnopqrstuvwxyz0123456789+/''"

definition ToBase64 :: "u32 \<Rightarrow> char" where
  "ToBase64 v = Base64Digits ! unat v"

text \<open>The four expressions \<^verbatim>\<open>ToBase64((block24 >> k) & 0x03F)\<close>.\<close>

definition base64Digit :: "u32 \<Rightarrow> nat \<Rightarrow> char" where
  "base64Digit block24 k = ToBase64 (drop_bit k block24 AND 0x03F)"

fun RawDataToBase64_loop :: "bytes \<Rightarrow> string" where
  "RawDataToBase64_loop (x # y # z # src) =
     (let block24 = push_bit 16 (ucast x) OR push_bit 8 (ucast y) OR ucast z in
      base64Digit block24 18 # base64Digit block24 12 # base64Digit block24 6 #
      base64Digit block24 0 # RawDataToBase64_loop src)"
| "RawDataToBase64_loop [x, y] =
     (let block24 = push_bit 16 (ucast x) OR push_bit 8 (ucast y) in
      [base64Digit block24 18, base64Digit block24 12, base64Digit block24 6, CHR ''=''])"
| "RawDataToBase64_loop [x] =
     (let block24 = push_bit 16 (ucast x) in
      [base64Digit block24 18, base64Digit block24 12, CHR ''='', CHR ''=''])"
| "RawDataToBase64_loop [] = []"

definition RawDataToBase64 :: "bytes \<Rightarrow> string" where
  "RawDataToBase64 data =
     (if length data > kTwoGigabytes then ''== base64 too big =='' else RawDataToBase64_loop data)"

primrec IsMemFilled :: "bytes \<Rightarrow> byte \<Rightarrow> bool" where
  "IsMemFilled [] ch = True"
| "IsMemFilled (p # ps) ch = (if p \<noteq> ch then False else IsMemFilled ps ch)"

fun MemCopyMasked :: "bytes \<Rightarrow> bytes \<Rightarrow> bytes" where
  "MemCopyMasked (s # ss) (m # ms) = (s AND m) # MemCopyMasked ss ms"
| "MemCopyMasked _ _ = []"


declare RawDataToHex_blocks.simps [simp del]

section \<open>Digit facts\<close>

lemma nibble_less [simp]: "unat (drop_bit 4 (b :: byte)) < 16" "unat ((b :: byte) AND 0x0F) < 16"
proof -
  have "unat b < 2 ^ LENGTH(8)" by (rule unsigned_less)
  then show "unat (drop_bit 4 b) < 16"
    by (simp add: drop_bit_eq_div unat_div less_mult_imp_div_less)
  have "b AND 0x0F \<le> 0x0F" by (rule word_and_le1)
  then show "unat (b AND 0x0F) < 16" by (simp add: word_le_nat_alt)
qed

lemma upper_digits:
  "\<forall>v\<in>set [0..<16]. isxdigit (HexDigitsUpperCase ! v) \<and> HexDigitsUpperCase ! v \<noteq> CHR 0x00 \<and>
     FromHex (HexDigitsUpperCase ! v) = of_nat v"
  by code_simp

lemma lower_digits:
  "\<forall>v\<in>set [0..<16]. isxdigit (HexDigitsLowerCase ! v) \<and> HexDigitsLowerCase ! v \<noteq> CHR 0x00 \<and>
     FromHex (HexDigitsLowerCase ! v) = of_nat v"
  by code_simp

lemma ToHex_digit:
  assumes "unat v < 16"
  shows "isxdigit (ToHexUpperCase v)" "ToHexUpperCase v \<noteq> CHR 0x00" "FromHex (ToHexUpperCase v) = ucast v"
    and "isxdigit (ToHexLowerCase v)" "ToHexLowerCase v \<noteq> CHR 0x00" "FromHex (ToHexLowerCase v) = ucast v"
  using upper_digits lower_digits assms
  by (simp_all add: ToHexUpperCase_def ToHexLowerCase_def of_nat_unat)

lemma hexByte_nibbles [simp]: "hexByte (ucast (drop_bit 4 b)) (ucast (b AND 0x0F)) = b"
proof -
  have m: "(0x0F :: byte) = mask 4" by (simp add: mask_eq_decr_exp)
  show ?thesis
    unfolding hexByte_def m
    by (rule bit_word_eqI) (auto simp: bit_simps)
qed

lemmas hex_nibbles [simp] =
  ToHex_digit [OF nibble_less(1)] ToHex_digit [OF nibble_less(2)]

lemma hexByte_0: "hexByte 0 lo = ucast lo"
  by (simp add: hexByte_def)

section \<open>Printing then parsing\<close>

text \<open>The reference for all hexadecimal printers: parsing skips everything but digits, so what a
printer adds between the digits does not matter.\<close>

lemma string_loop_hex_append [simp]:
  "HexToRawData_string_loop (RawDataToHex_loop data @ s) None = data @ HexToRawData_string_loop s None"
  by (induction data) simp_all

lemma string_loop_delim:
  assumes "\<not> isxdigit d" "d \<noteq> CHR 0x00"
  shows "HexToRawData_string_loop (RawDataToHex_delim_loop d w cnt data) None = data"
  using assms by (induction data arbitrary: cnt) (simp_all add: Let_def)

lemma string_loop_lower_rest:
  "HexToRawData_string_loop (RawDataToHexDelimitedLowercase_rest data) None = data"
  by (induction data) (simp_all add: isxdigit_def [of "CHR '':''"])

lemma RawDataToHex_loop_append:
  "RawDataToHex_loop (xs @ ys) = RawDataToHex_loop xs @ RawDataToHex_loop ys"
  by (induction xs) simp_all

lemma RawDataToHex_blocks_eq: "RawDataToHex_blocks data = RawDataToHex_loop data"
proof (induction data rule: RawDataToHex_blocks.induct)
  case (1 data)
  then show ?case
    by (subst RawDataToHex_blocks.simps)
       (simp del: RawDataToHex_loop.simps flip: RawDataToHex_loop_append)
qed

lemma strict_loop_hex:
  "length out + length data \<le> n \<Longrightarrow>
   HexStrictToRawData_loop n (RawDataToHex_loop data) out = (length (out @ data), out @ data)"
  by (induction data arbitrary: out) (auto simp: Suc_le_eq)

text \<open>C14: Hexadecimal text determines the data it was printed from: printing any data (of less than
two gigabytes), with or without delimiters, on the string or on the stream path, and parsing the
text gives the data back, as does the strict parser when the output buffer has room.\<close>

theorem hex_round_trip:
  assumes "length data < kTwoGigabytes" and "\<not> isxdigit d" and "d \<noteq> CHR 0x00"
    and "length data \<le> n"
  shows "HexToRawData_string (RawDataToHex data) = data \<and>
         RawDataToHex_stream data = RawDataToHex data \<and>
         HexToRawData_string (RawDataToHex_delim data d w) = data \<and>
         HexStrictToRawData (RawDataToHex data) n = (length data, data)"
  using assms string_loop_hex_append [of data "[]"] strict_loop_hex [of "[]" data n]
  by (simp_all add: HexToRawData_string_def RawDataToHex_def RawDataToHex_stream_def
      RawDataToHex_blocks_eq RawDataToHex_delim_def string_loop_delim HexStrictToRawData_def)


theorem hex_round_trip_witness:
  "HexToRawData_string (RawDataToHex [0xDE, 0x01]) = [0xDE, 0x01] \<and>
   RawDataToHex_stream [0xDE, 0x01] = RawDataToHex [0xDE, 0x01] \<and>
   HexToRawData_string (RawDataToHex_delim [0xDE, 0x01] CHR '':'' 1) = [0xDE, 0x01] \<and>
   HexStrictToRawData (RawDataToHex [0xDE, 0x01]) 6 = (2, [0xDE, 0x01])"
  using hex_round_trip [of "[0xDE, 0x01]" "CHR '':''" 6 1]
  by (simp add: kTwoGigabytes_def isxdigit_def)

section \<open>The buffer variant\<close>

lemma HexToRawData_loop_out:
  "length out < maxlen \<Longrightarrow>
   fst (HexToRawData_loop maxlen s ch nonhex out) =
     take maxlen (out @ HexToRawData_string_loop s ch)"
proof (induction maxlen s ch nonhex out rule: HexToRawData_loop.induct)
  case (2 maxlen c cs ch nonhex out)
  then show ?case
    by (auto simp: Let_def not_le take_Cons' split: option.splits)
qed simp

text \<open>C15: The buffer variant of \<open>HexToRawData\<close> fills the whole buffer: the bytes the string variant
yields, cut at the end of the buffer and padded with zeros; the count it returns is the number of
converted bytes in the buffer.\<close>

theorem HexToRawData_fills_buffer:
  "\<exists>error. HexToRawData hex maxlen =
     (min maxlen (length (HexToRawData_string hex)),
      take maxlen (HexToRawData_string hex) @ replicate (maxlen - length (HexToRawData_string hex)) 0,
      error)"
proof (cases "maxlen = 0")
  case False
  then have "fst (HexToRawData_loop maxlen hex None False []) = take maxlen (HexToRawData_string hex)"
    by (simp add: HexToRawData_loop_out HexToRawData_string_def)
  then show ?thesis
    using False by (auto simp: HexToRawData_def min_def split: prod.splits)
qed (simp add: HexToRawData_def)

section \<open>The delimited parser\<close>

text \<open>The documented grammar: groups of one or two hexadecimal digits separated by the delimiter.\<close>

definition hexGroup :: "string \<Rightarrow> bool" where
  "hexGroup g = ((length g = 1 \<or> length g = 2) \<and> (\<forall>c\<in>set g. isxdigit c))"

definition groupByte :: "string \<Rightarrow> byte" where
  "groupByte g = (case g of [a] \<Rightarrow> ucast (FromHex a) | a # b # _ \<Rightarrow> hexByte (FromHex a) (FromHex b) | [] \<Rightarrow> 0)"

fun joinGroups :: "char \<Rightarrow> string list \<Rightarrow> string" where
  "joinGroups d [] = []"
| "joinGroups d [g] = g"
| "joinGroups d (g # gs) = g @ d # joinGroups d gs"

lemma hexGroup_cases:
  assumes "hexGroup g"
  obtains a where "g = [a]" "isxdigit a" | a b where "g = [a, b]" "isxdigit a" "isxdigit b"
  using assms by (auto simp: hexGroup_def length_Suc_conv numeral_2_eq_2)

lemma joinGroups_Cons: "gs \<noteq> [] \<Longrightarrow> joinGroups d (g # gs) = g @ d # joinGroups d gs"
  by (cases gs) auto

lemma delimited_complete:
  assumes "\<not> isxdigit d"
  shows "gs \<noteq> [] \<Longrightarrow> (\<forall>g\<in>set gs. hexGroup g) \<Longrightarrow> length out + length gs \<le> n \<Longrightarrow>
    HexDelimitedToRawData_loop d n (joinGroups d gs) out =
      (length out + length gs, out @ map groupByte gs)"
proof (induction gs arbitrary: out)
  case (Cons g gs)
  from Cons.prems have g: "hexGroup g" by simp
  show ?case
  proof (cases "gs = []")
    case True
    from g show ?thesis
      by (cases rule: hexGroup_cases) (use assms Cons.prems True in \<open>auto simp: groupByte_def\<close>)
  next
    case False
    note IH = Cons.IH [OF False]
    from g show ?thesis
      by (cases rule: hexGroup_cases)
         (use assms Cons.prems False in \<open>auto simp: groupByte_def joinGroups_Cons IH\<close>)
  qed
qed simp

lemma delimited_sound:
  assumes "\<not> isxdigit d"
  shows "HexDelimitedToRawData_loop d n s out = (k, bs) \<Longrightarrow> 0 < k \<Longrightarrow>
    \<exists>gs. gs \<noteq> [] \<and> (\<forall>g\<in>set gs. hexGroup g) \<and> k = length out + length gs \<and> k \<le> n \<and>
      s = joinGroups d gs \<and> bs = out @ map groupByte gs"
proof (induction d n s out rule: HexDelimitedToRawData_loop.induct)
  case (1 d n a b input out)
  have len: "length out < n" and a: "isxdigit a"
    using "1.prems" by (auto split: if_splits)
  show ?case
  proof (cases "b = d")
    case True
    with "1.IH"(1) "1.prems" len a obtain gs where
      "gs \<noteq> []" "\<forall>g\<in>set gs. hexGroup g" "k = length out + 1 + length gs" "k \<le> n"
      "input = joinGroups d gs" "bs = out @ ucast (FromHex a) # map groupByte gs"
      by (auto simp: not_le)
    with True a show ?thesis
      by (intro exI [of _ "[a] # gs"]) (simp add: joinGroups_Cons hexGroup_def groupByte_def)
  next
    case False
    then have b: "isxdigit b" using "1.prems" len a by (auto split: if_splits)
    let ?out = "out @ [hexByte (FromHex a) (FromHex b)]"
    show ?thesis
    proof (cases input)
      case Nil
      with "1.prems" len a b False show ?thesis
        by (intro exI [of _ "[[a, b]]"]) (auto simp: hexGroup_def groupByte_def)
    next
      case (Cons c input')
      with "1.prems" len a b False have c: "c = d" "HexDelimitedToRawData_loop d n input' ?out = (k, bs)"
        by (auto simp: Let_def split: if_splits)
      with "1.IH"(2) [OF _ _ False _ refl Cons] "1.prems" len a b obtain gs where
        "gs \<noteq> []" "\<forall>g\<in>set gs. hexGroup g" "k = length out + 1 + length gs" "k \<le> n"
        "input' = joinGroups d gs" "bs = ?out @ map groupByte gs"
        by (auto simp: not_le)
      with Cons c(1) a b show ?thesis
        by (intro exI [of _ "[a, b] # gs"]) (simp add: joinGroups_Cons hexGroup_def groupByte_def)
    qed
  qed
next
  case (2 d n c out)
  then show ?case
    by (intro exI [of _ "[[c]]"]) (auto simp: hexGroup_def groupByte_def split: if_splits)
qed simp

text \<open>C16: The delimited parser accepts exactly the documented grammar: it returns a positive size
if and only if the text is that many groups of one or two digits separated by the delimiter and the
buffer has room for one byte per group, and then it has written the value of each group.\<close>

theorem HexDelimitedToRawData_grammar:
  assumes "\<not> isxdigit d" and "0 < k"
  shows "HexDelimitedToRawData s n d = (k, bs) \<longleftrightarrow>
    (\<exists>gs. length gs = k \<and> k \<le> n \<and> (\<forall>g\<in>set gs. hexGroup g) \<and>
          s = joinGroups d gs \<and> bs = map groupByte gs)"
  using delimited_sound [OF assms(1), of n s "[]" k bs] assms(2)
    delimited_complete [OF assms(1), of _ "[]" n]
  by (auto simp: HexDelimitedToRawData_def)

theorem HexDelimitedToRawData_grammar_witness:
  "HexDelimitedToRawData ''a:0F'' 6 CHR '':'' = (2, [0x0A, 0x0F]) \<and>
   (\<exists>gs. length gs = 2 \<and> 2 \<le> (6 :: nat) \<and> (\<forall>g\<in>set gs. hexGroup g) \<and>
      ''a:0F'' = joinGroups CHR '':'' gs \<and> [0x0A, 0x0F] = map groupByte gs)"
proof -
  have run: "HexDelimitedToRawData ''a:0F'' 6 CHR '':'' = (2, [0x0A, 0x0F])" by code_simp
  have "\<not> isxdigit CHR '':''" by code_simp
  from HexDelimitedToRawData_grammar [OF this, of 2 "''a:0F''" 6 "[0x0A, 0x0F]"] run
  show ?thesis by simp
qed

lemma lowercase_groups:
  "data \<noteq> [] \<Longrightarrow> \<exists>gs. RawDataToHexDelimitedLowercase data = joinGroups CHR '':'' gs \<and>
     (\<forall>g\<in>set gs. hexGroup g) \<and> map groupByte gs = data \<and> length gs = length data"
proof (induction data)
  case (Cons e es)
  let ?g = "[ToHexLowerCase (drop_bit 4 e), ToHexLowerCase (e AND 0x0F)]"
  have g: "hexGroup ?g" "groupByte ?g = e"
    by (simp_all add: hexGroup_def groupByte_def)
  show ?case
  proof (cases es)
    case Nil
    then show ?thesis
      using g by (intro exI [of _ "[?g]"]) (simp add: RawDataToHexDelimitedLowercase_def)
  next
    case (Cons e' es')
    with Cons.IH obtain gs where "RawDataToHexDelimitedLowercase es = joinGroups CHR '':'' gs"
      "\<forall>g\<in>set gs. hexGroup g" "map groupByte gs = es" "length gs = length es" by auto
    then show ?thesis
      using g Cons
      by (intro exI [of _ "?g # gs"]) (auto simp: RawDataToHexDelimitedLowercase_def joinGroups_Cons)
  qed
qed simp

lemma delimited_lowercase:
  assumes "data \<noteq> []" "length data \<le> n"
  shows "HexDelimitedToRawData (RawDataToHexDelimitedLowercase data) n CHR '':'' = (length data, data)"
proof -
  obtain gs where gs: "RawDataToHexDelimitedLowercase data = joinGroups CHR '':'' gs"
    "\<forall>g\<in>set gs. hexGroup g" "map groupByte gs = data" "length gs = length data"
    using lowercase_groups [OF assms(1)] by blast
  moreover have "\<not> isxdigit CHR '':''" by code_simp
  ultimately show ?thesis
    using delimited_complete [of "CHR '':''" gs "[]" n] assms by (auto simp: HexDelimitedToRawData_def)
qed


section \<open>Base64\<close>

text \<open>A reference decoder for RFC 4648 text, against which the printer is checked.\<close>

definition base64Value :: "char \<Rightarrow> u32" where
  "base64Value c =
     (if c = CHR ''='' then 0 else of_nat (length (takeWhile (\<lambda>x. x \<noteq> c) Base64Digits)))"

definition base64Join :: "u32 \<Rightarrow> u32 \<Rightarrow> u32 \<Rightarrow> u32 \<Rightarrow> u32" where
  "base64Join a b c d = push_bit 18 a OR push_bit 12 b OR push_bit 6 c OR d"

fun base64Decode :: "string \<Rightarrow> bytes" where
  "base64Decode (a # b # c # d # s) =
     (let block = base64Join (base64Value a) (base64Value b) (base64Value c) (base64Value d) in
      if c = CHR ''='' then [ucast (drop_bit 16 block)]
      else if d = CHR ''='' then [ucast (drop_bit 16 block), ucast (drop_bit 8 block)]
      else ucast (drop_bit 16 block) # ucast (drop_bit 8 block) # ucast block # base64Decode s)"
| "base64Decode _ = []"

lemma base64_digits:
  "\<forall>v\<in>set [0..<64]. Base64Digits ! v \<noteq> CHR ''='' \<and> base64Value (Base64Digits ! v) = of_nat v"
  by code_simp

lemma base64Digit_value [simp]:
  "base64Digit block k \<noteq> CHR ''=''" "base64Value (base64Digit block k) = drop_bit k block AND 0x3F"
proof -
  have "drop_bit k block AND 0x3F \<le> 0x3F" by (rule word_and_le1)
  then have "unat (drop_bit k block AND 0x3F) < 64" by (simp add: word_le_nat_alt)
  with base64_digits show "base64Digit block k \<noteq> CHR ''=''"
    "base64Value (base64Digit block k) = drop_bit k block AND 0x3F"
    by (simp_all add: base64Digit_def ToBase64_def)
qed

lemma base64Join_bits:
  "bit (base64Join (drop_bit 18 w AND 0x3F) (drop_bit 12 w AND 0x3F) (drop_bit 6 w AND 0x3F)
      (drop_bit 0 w AND 0x3F)) n \<longleftrightarrow> n < 24 \<and> bit w n"
proof -
  have m: "(0x3F :: u32) = mask 6" by (simp add: mask_eq_decr_exp)
  consider "n < 6" | "6 \<le> n" "n < 12" | "12 \<le> n" "n < 18" | "18 \<le> n" by linarith
  then show ?thesis
    unfolding base64Join_def m by cases (simp_all add: bit_simps less_diff_conv2, auto)
qed

lemma base64Join_digits:
  fixes w :: u32
  assumes "w = push_bit 16 (ucast (x :: byte)) OR push_bit 8 (ucast (y :: byte)) OR ucast (z :: byte)"
  shows "base64Join (drop_bit 18 w AND 0x3F) (drop_bit 12 w AND 0x3F) (drop_bit 6 w AND 0x3F)
      (drop_bit 0 w AND 0x3F) = w"
    and "ucast (drop_bit 16 w) = x" and "ucast (drop_bit 8 w) = y" and "ucast w = z"
proof -
  have high: "n < 24" if "bit w n" for n
    using that unfolding assms by (auto simp: bit_simps dest: bit_imp_le_length)
  show "base64Join (drop_bit 18 w AND 0x3F) (drop_bit 12 w AND 0x3F) (drop_bit 6 w AND 0x3F)
      (drop_bit 0 w AND 0x3F) = w"
    using high by (intro bit_word_eqI) (simp only: base64Join_bits, blast)
  show "ucast (drop_bit 16 w) = x" "ucast (drop_bit 8 w) = y" "ucast w = z"
    unfolding assms by (rule bit_word_eqI; auto simp: bit_simps dest: bit_imp_le_length)+
qed

lemma base64_zero_digits:
  fixes w :: u32
  assumes "w = push_bit 16 (ucast (x :: byte)) OR push_bit 8 (ucast (y :: byte))"
  shows "drop_bit 0 w AND 0x3F = 0" and "y = 0 \<Longrightarrow> drop_bit 6 w AND 0x3F = 0"
proof -
  have m: "(0x3F :: u32) = mask 6" by (simp add: mask_eq_decr_exp)
  show "drop_bit 0 w AND 0x3F = 0" "y = 0 \<Longrightarrow> drop_bit 6 w AND 0x3F = 0"
    unfolding assms m by (rule bit_word_eqI; auto simp: bit_simps; fail)+
qed

lemma base64Decode_block:
  assumes w: "w = push_bit 16 (ucast (x :: byte)) OR push_bit 8 (ucast (y :: byte)) OR ucast (z :: byte)"
  shows "base64Decode (base64Digit w 18 # base64Digit w 12 # base64Digit w 6 # base64Digit w 0 # s) =
      x # y # z # base64Decode s"
  using base64Join_digits [OF w] unfolding base64Decode.simps Let_def base64Digit_value by simp

lemma base64Decode_two:
  assumes w: "w = push_bit 16 (ucast (x :: byte)) OR push_bit 8 (ucast (y :: byte))"
  shows "base64Decode [base64Digit w 18, base64Digit w 12, base64Digit w 6, CHR ''=''] = [x, y]"
proof -
  have "w = push_bit 16 (ucast x) OR push_bit 8 (ucast y) OR ucast (0 :: byte)"
    using w by simp
  note J = base64Join_digits [OF this]
  have "base64Value CHR ''='' = drop_bit 0 w AND 0x3F"
    using base64_zero_digits(1) [OF w] by (simp add: base64Value_def)
  then show ?thesis
    using J unfolding base64Decode.simps Let_def base64Digit_value by simp
qed

lemma base64Decode_one:
  assumes w: "w = push_bit 16 (ucast (x :: byte))"
  shows "base64Decode [base64Digit w 18, base64Digit w 12, CHR ''='', CHR ''=''] = [x]"
proof -
  have w0: "w = push_bit 16 (ucast x) OR push_bit 8 (ucast (0 :: byte))"
    and "w = push_bit 16 (ucast x) OR push_bit 8 (ucast (0 :: byte)) OR ucast (0 :: byte)"
    using w by simp_all
  note J = base64Join_digits [OF this(2)]
  have v: "base64Value CHR ''='' = 0" by (simp add: base64Value_def)
  have "base64Join (drop_bit 18 w AND 0x3F) (drop_bit 12 w AND 0x3F) 0 0 = w"
    using J(1) base64_zero_digits [OF w0] by simp
  then show ?thesis
    using J(2) unfolding base64Decode.simps Let_def base64Digit_value v by simp
qed

text \<open>C17: Base64 printing is right: the text has four characters for every started group of three
bytes, and decoding it as RFC 4648 prescribes gives the data back.\<close>

theorem base64_round_trip:
  assumes "length data \<le> kTwoGigabytes"
  shows "base64Decode (RawDataToBase64 data) = data \<and>
         length (RawDataToBase64 data) = (length data + 2) div 3 * 4"
proof -
  have "base64Decode (RawDataToBase64_loop data) = data \<and>
        length (RawDataToBase64_loop data) = (length data + 2) div 3 * 4"
  proof (induction data rule: RawDataToBase64_loop.induct)
    case (1 x y z src)
    have "(length src + 3 + 2) div 3 = (length src + 2) div 3 + 1"
      using div_add_self2 [of 3 "length src + 2"] by simp
    then have "4 + (length src + 2) div 3 * 4 = (length (x # y # z # src) + 2) div 3 * 4" by simp
    with 1 base64Decode_block [OF refl, of x y z "RawDataToBase64_loop src"] show ?case
      unfolding RawDataToBase64_loop.simps Let_def or.assoc by simp
  next
    case (2 x y)
    show ?case
      using base64Decode_two [OF refl, of x y]
      unfolding RawDataToBase64_loop.simps Let_def by simp
  next
    case (3 x)
    show ?case
      using base64Decode_one [OF refl, of x]
      unfolding RawDataToBase64_loop.simps Let_def by simp
  qed simp
  with assms show ?thesis by (simp add: RawDataToBase64_def)
qed

theorem base64_round_trip_witness:
  "base64Decode (RawDataToBase64 [0x4D, 0x61]) = [0x4D, 0x61] \<and>
   RawDataToBase64 [0x4D, 0x61] = ''TWE='' \<and> length (RawDataToBase64 [0x4D, 0x61]) = 4"
proof -
  have "RawDataToBase64_loop [0x4D, 0x61] = ''TWE=''" by code_simp
  then have "RawDataToBase64 [0x4D, 0x61] = ''TWE=''"
    by (simp only: RawDataToBase64_def) (simp add: kTwoGigabytes_def)
  with base64_round_trip [of "[0x4D, 0x61]"] show ?thesis by (simp add: kTwoGigabytes_def)
qed

section \<open>Memory helpers\<close>

lemma IsMemFilled_iff: "IsMemFilled data ch \<longleftrightarrow> data = replicate (length data) ch"
  by (induction data) auto

lemma length_MemCopyMasked [simp]: "length (MemCopyMasked s m) = min (length s) (length m)"
  by (induction s m rule: MemCopyMasked.induct) auto

lemma MemCopyMasked_nth:
  "i < length s \<Longrightarrow> i < length m \<Longrightarrow> MemCopyMasked s m ! i = s ! i AND m ! i"
  by (induction s m arbitrary: i rule: MemCopyMasked.induct) (auto simp: nth_Cons')

end
