(* ===== verification/ByteList.thy ===== *)
theory ByteList
  imports SmallBuffer HexCodec
begin

text \<open>
  \<^verbatim>\<open>ByteList\<close> (\<^verbatim>\<open>include/ofp/bytelist.h\<close>, \<^verbatim>\<open>src/ofp/bytelist.cpp\<close>), the mutable byte buffer every
  message is built in. The class has one member, the \<open>SmallBuffer\<close>, so the model uses that
  type directly. The abstract view is a plain list of bytes: \<open>edit\<close> names the operations,
  \<open>edit_spec\<close> says what each does to the list, and the locale \<open>byte_buffer\<close> is the contract a
  buffer keeps towards its clients. The interpretation shows that the code keeps it, growth,
  reallocation and block moves included.
\<close>

type_synonym ByteList = SmallBuffer

definition bl_set :: "allocator \<Rightarrow> bytes \<Rightarrow> ByteList \<Rightarrow> ByteList mem_result" where
  "bl_set a data b = sb_assign a data b"

definition bl_add :: "allocator \<Rightarrow> bytes \<Rightarrow> ByteList \<Rightarrow> ByteList mem_result" where
  "bl_add a data b = sb_add a data b"

definition bl_addMasked :: "allocator \<Rightarrow> bytes \<Rightarrow> bytes \<Rightarrow> ByteList \<Rightarrow> ByteList mem_result" where
  "bl_addMasked a data mask_bytes b =
     bindE (sb_addUninitialized a (length data) b) (\<lambda>(b, _).
     let dest = sb_size b - length data in
     sb_write dest (MemCopyMasked data mask_bytes) b)"

definition bl_insert :: "allocator \<Rightarrow> nat \<Rightarrow> bytes \<Rightarrow> ByteList \<Rightarrow> ByteList mem_result" where
  "bl_insert a pos data b = sb_insert a pos data b"

definition bl_replace :: "allocator \<Rightarrow> nat \<Rightarrow> nat \<Rightarrow> bytes \<Rightarrow> ByteList \<Rightarrow> ByteList mem_result" where
  "bl_replace a pos posEnd data b = sb_replace a pos posEnd data b"

definition bl_addUninitialized :: "allocator \<Rightarrow> nat \<Rightarrow> ByteList \<Rightarrow> ByteList mem_result" where
  "bl_addUninitialized a n b = bindE (sb_addUninitialized a n b) (\<lambda>(b, _). Inr b)"

definition bl_insertUninitialized :: "allocator \<Rightarrow> nat \<Rightarrow> nat \<Rightarrow> ByteList \<Rightarrow> ByteList mem_result" where
  "bl_insertUninitialized a pos n b = bindE (sb_insertUninitialized a pos n b) (\<lambda>(b, _). Inr b)"

definition bl_replaceUninitialized ::
  "allocator \<Rightarrow> nat \<Rightarrow> nat \<Rightarrow> nat \<Rightarrow> ByteList \<Rightarrow> ByteList mem_result" where
  "bl_replaceUninitialized a pos posEnd n b =
     bindE (sb_replaceUninitialized a pos posEnd n b) (\<lambda>(b, _). Inr b)"

definition bl_addZeros :: "allocator \<Rightarrow> nat \<Rightarrow> ByteList \<Rightarrow> ByteList mem_result" where
  "bl_addZeros a n b = sb_addZeros a n b"

definition bl_insertZeros :: "allocator \<Rightarrow> nat \<Rightarrow> nat \<Rightarrow> ByteList \<Rightarrow> ByteList mem_result" where
  "bl_insertZeros a pos n b = sb_insertZeros a pos n b"

definition bl_remove :: "nat \<Rightarrow> nat \<Rightarrow> ByteList \<Rightarrow> ByteList mem_result" where
  "bl_remove pos n b = sb_remove pos (pos + n) b"

definition bl_resize :: "allocator \<Rightarrow> nat \<Rightarrow> ByteList \<Rightarrow> ByteList mem_result" where
  "bl_resize a n b = sb_resize a n b"

definition bl_clear :: "ByteList \<Rightarrow> ByteList" where
  "bl_clear b = sb_clear b"

definition bl_toRange :: "ByteList \<Rightarrow> bytes" where
  "bl_toRange b = sb_contents b"

text \<open>The argument \<open>raw\<close> is the memory of the fresh object: the constructor leaves the intrinsic
array uninitialised.\<close>

definition sb_new :: "bytes \<Rightarrow> SmallBuffer" where
  "sb_new raw = sb_init \<lparr>sb_buf = raw, sb_heap = None, sb_size = 0\<rparr>"

definition bl_iota :: "allocator \<Rightarrow> bytes \<Rightarrow> nat \<Rightarrow> ByteList mem_result" where
  "bl_iota a raw n =
     bindE (bl_resize a n (sb_new raw)) (\<lambda>b. sb_write 0 (map of_nat [0..<n]) b)"

section \<open>The contract\<close>

datatype edit =
    Set bytes
  | Add bytes
  | AddMasked bytes bytes
  | Insert nat bytes
  | Replace nat nat bytes
  | AddZeros nat
  | InsertZeros nat nat
  | Remove nat nat
  | Clear

text \<open>The positions that \<^verbatim>\<open>assertInRange\<close> demands; the mask is as long as the data.\<close>

fun edit_pre :: "edit \<Rightarrow> bytes \<Rightarrow> bool" where
  "edit_pre (AddMasked data m) xs = (length m = length data)"
| "edit_pre (Insert pos data) xs = (pos \<le> length xs)"
| "edit_pre (Replace pos posEnd data) xs = (pos \<le> posEnd \<and> posEnd \<le> length xs)"
| "edit_pre (InsertZeros pos n) xs = (pos \<le> length xs)"
| "edit_pre (Remove pos n) xs = (pos + n \<le> length xs)"
| "edit_pre _ xs = True"

fun edit_spec :: "edit \<Rightarrow> bytes \<Rightarrow> bytes" where
  "edit_spec (Set data) xs = data"
| "edit_spec (Add data) xs = xs @ data"
| "edit_spec (AddMasked data m) xs = xs @ map2 (AND) data m"
| "edit_spec (Insert pos data) xs = insert_at pos data xs"
| "edit_spec (Replace pos posEnd data) xs = take pos xs @ data @ drop posEnd xs"
| "edit_spec (AddZeros n) xs = xs @ replicate n 0"
| "edit_spec (InsertZeros pos n) xs = insert_at pos (replicate n 0) xs"
| "edit_spec (Remove pos n) xs = remove_at pos n xs"
| "edit_spec Clear xs = []"

fun edits_pre :: "edit list \<Rightarrow> bytes \<Rightarrow> bool" where
  "edits_pre [] xs = True"
| "edits_pre (e # es) xs = (edit_pre e xs \<and> edits_pre es (edit_spec e xs))"

text \<open>Dispatch of the named operations on a buffer, and running a sequence of them.\<close>

fun bl_apply :: "allocator \<Rightarrow> edit \<Rightarrow> ByteList \<Rightarrow> ByteList mem_result" where
  "bl_apply a (Set data) b = bl_set a data b"
| "bl_apply a (Add data) b = bl_add a data b"
| "bl_apply a (AddMasked data m) b = bl_addMasked a data m b"
| "bl_apply a (Insert pos data) b = bl_insert a pos data b"
| "bl_apply a (Replace pos posEnd data) b = bl_replace a pos posEnd data b"
| "bl_apply a (AddZeros n) b = bl_addZeros a n b"
| "bl_apply a (InsertZeros pos n) b = bl_insertZeros a pos n b"
| "bl_apply a (Remove pos n) b = bl_remove pos n b"
| "bl_apply a Clear b = Inr (bl_clear b)"

fun run_edits :: "('x \<Rightarrow> 'b \<Rightarrow> 'e + 'b) \<Rightarrow> 'x list \<Rightarrow> 'b \<Rightarrow> 'e + 'b" where
  "run_edits f [] b = Inr b"
| "run_edits f (e # es) b = bindE (f e b) (run_edits f es)"

locale byte_buffer =
  fixes apply_edit :: "edit \<Rightarrow> 'b \<Rightarrow> 'e + 'b"
    and contents :: "'b \<Rightarrow> bytes"
    and invar :: "'b \<Rightarrow> bool"
    and resource_error :: "'e \<Rightarrow> bool"
  assumes step: "invar b \<Longrightarrow> edit_pre e (contents b) \<Longrightarrow>
    succeeds_or {x. resource_error x}
      (\<lambda>b'. invar b' \<and> contents b' = edit_spec e (contents b)) (apply_edit e b)"
begin

lemma run_refines:
  "invar b \<Longrightarrow> edits_pre es (contents b) \<Longrightarrow>
   succeeds_or {x. resource_error x}
     (\<lambda>b'. invar b' \<and> contents b' = fold edit_spec es (contents b)) (run_edits apply_edit es b)"
proof (induction es arbitrary: b)
  case (Cons e es)
  have "succeeds_or {x. resource_error x}
      (\<lambda>b'. invar b' \<and> contents b' = fold edit_spec es (edit_spec e (contents b)))
      (bindE (apply_edit e b) (run_edits apply_edit es))"
  proof (rule succeeds_or_bind)
    show "succeeds_or {x. resource_error x}
        (\<lambda>b'. invar b' \<and> contents b' = edit_spec e (contents b)) (apply_edit e b)"
      using Cons.prems by (intro step) simp_all
  next
    fix b' assume "invar b' \<and> contents b' = edit_spec e (contents b)"
    with Cons.IH [of b'] Cons.prems show "succeeds_or {x. resource_error x}
        (\<lambda>b'. invar b' \<and> contents b' = fold edit_spec es (edit_spec e (contents b)))
        (run_edits apply_edit es b')"
      by simp
  qed
  then show ?case by simp
qed simp

end

section \<open>The code keeps the contract\<close>

lemma MemCopyMasked_map2: "length m = length s \<Longrightarrow> MemCopyMasked s m = map2 (AND) s m"
  by (rule nth_equalityI) (simp_all add: MemCopyMasked_nth)

lemma bl_addMasked_wp:
  assumes "sb_inv b" and "length m = length data"
  shows "sb_ok (\<lambda>b'. sb_inv b' \<and> sb_contents b' = sb_contents b @ map2 (AND) data m)
         (bl_addMasked a data m b)"
  unfolding bl_addMasked_def
proof (rule succeeds_or_bind [OF sb_addUninitialized_wp [OF assms(1)]], clarify)
  fix b' gap
  assume b': "sb_inv b'" "length gap = length data" "sb_contents b' = sb_contents b @ gap"
  have sz: "sb_size b' = sb_size b + length data"
    using b' assms by (metis length_sb_contents length_append)
  with b' assms show "sb_ok (\<lambda>b'. sb_inv b' \<and> sb_contents b' = sb_contents b @ map2 (AND) data m)
      (let dest = sb_size b' - length data in sb_write dest (MemCopyMasked data m) b')"
    using sb_write_contents [of b' "sb_size b" "map2 (AND) data m"]
      overwrite_gap [of gap "map2 (AND) data m" "sb_contents b" "sb_size b" "[]"]
    by (simp add: MemCopyMasked_map2)
qed

lemma bl_remove_wp:
  "sb_inv b \<Longrightarrow> pos + n \<le> sb_size b \<Longrightarrow>
   sb_ok (\<lambda>b'. sb_inv b' \<and> sb_contents b' = remove_at pos n (sb_contents b)) (bl_remove pos n b)"
  using sb_remove_wp [of b pos "pos + n"] by (simp add: bl_remove_def)

lemma bl_apply_wp:
  assumes "sb_inv b" and "edit_pre e (sb_contents b)"
  shows "sb_ok (\<lambda>b'. sb_inv b' \<and> sb_contents b' = edit_spec e (sb_contents b)) (bl_apply a e b)"
  using assms sb_clear_wp [of b]
  by (cases e)
     (simp_all add: bl_set_def bl_add_def bl_insert_def bl_replace_def bl_addZeros_def
        bl_insertZeros_def bl_clear_def sb_wp bl_addMasked_wp bl_remove_wp)

interpretation bl: byte_buffer "bl_apply a" sb_contents sb_inv "\<lambda>e. e = MallocFailed"
  by unfold_locales (use bl_apply_wp in simp)


text \<open>An operation reports an allocation failure only when the allocator failed.\<close>

definition malloc_total :: "allocator \<Rightarrow> bool" where
  "malloc_total a \<longleftrightarrow> (\<forall>n. a n \<noteq> None)"

lemma no_malloc_failure [simp]:
  "malloc_total a \<Longrightarrow> malloc a n \<noteq> Inl MallocFailed"
  "mem_read blk pos n \<noteq> Inl MallocFailed"
  "mem_write blk pos data \<noteq> Inl MallocFailed"
  "sb_write pos data b \<noteq> Inl MallocFailed"
  "sb_memmove dst src n b \<noteq> Inl MallocFailed"
  "malloc_total a \<Longrightarrow> realloc a old n \<noteq> Inl MallocFailed"
  by (auto simp: malloc_total_def malloc_def mem_read_def mem_write_def sb_write_def sb_memmove_def
      realloc_def bindE_eq_Inl split: option.splits)

lemma ensure_total [simp]: "malloc_total a \<Longrightarrow> ensure a need n b \<noteq> Inl MallocFailed"
  by (simp add: ensure_def increaseCapacity_def Let_def bindE_eq_Inl)

lemma bl_apply_total: "malloc_total a \<Longrightarrow> bl_apply a e b \<noteq> Inl MallocFailed"
  by (cases e)
     (auto simp: bl_set_def bl_add_def bl_addMasked_def bl_insert_def bl_replace_def bl_addZeros_def
        bl_insertZeros_def bl_remove_def bl_clear_def sb_assign_def sb_add_def sb_insert_def
        sb_replace_def sb_remove_def sb_addZeros_def sb_insertZeros_def sb_addUninitialized_def
        sb_insertUninitialized_def Let_def bindE_eq_Inl)

lemma run_edits_total:
  "malloc_total a \<Longrightarrow> run_edits (bl_apply a) es b \<noteq> Inl MallocFailed"
  by (induction es arbitrary: b) (simp_all add: bindE_eq_Inl bl_apply_total)

lemma sb_memmove_outside: "length (sb_block b) < dst + n \<Longrightarrow> sb_memmove dst src n b = Inl OutOfBounds"
  by (auto simp: sb_memmove_def sb_write_def mem_read_def mem_write_def min_def bindE_eq_Inl)

section \<open>Properties\<close>


definition sample_edits :: "edit list" where
  "sample_edits = [Set [1, 2, 3], Insert 1 [9, 9], AddZeros 2, Replace 0 2 [7], Remove 1 1]"





end
