(* ===== verification/StringRef.thy ===== *)
theory StringRef
  imports HexCodec "HOL-Library.Char_ord"
begin

text \<open>
  The string view the parsers use (\<^verbatim>\<open>external/yaml-io\<close>: \<^verbatim>\<open>llvm/ADT/StringRef.h\<close>,
  \<^verbatim>\<open>Support/StringRef.cpp\<close>, \<^verbatim>\<open>Support/NativeFormatting.cpp\<close>): searching, slicing and trimming, and
  the conversion between integers and text. A position \<^verbatim>\<open>npos\<close> is \<^const>\<open>None\<close>; a conversion that
  returns \<^verbatim>\<open>true\<close> (its error result) is \<^const>\<open>None\<close>. Integers keep the 64 bits the source
  accumulates them in, so that its overflow test is the one proved right.
\<close>

section \<open>Searching and slicing\<close>

primrec scan :: "(char \<Rightarrow> bool) \<Rightarrow> nat \<Rightarrow> string \<Rightarrow> nat option" where
  "scan P i [] = None"
| "scan P i (c # cs) = (if P c then Some i else scan P (Suc i) cs)"

primrec rscan :: "(char \<Rightarrow> bool) \<Rightarrow> string \<Rightarrow> nat \<Rightarrow> nat option" where
  "rscan P s 0 = None"
| "rscan P s (Suc i) = (if P (s ! i) then Some i else rscan P s i)"

definition str_find :: "string \<Rightarrow> char \<Rightarrow> nat \<Rightarrow> nat option" where
  "str_find s C From = (let i = min From (length s) in scan (\<lambda>c. c = C) i (drop i s))"

definition str_rfind :: "string \<Rightarrow> char \<Rightarrow> nat option" where
  "str_rfind s C = rscan (\<lambda>c. c = C) s (length s)"

definition find_first_not_of :: "string \<Rightarrow> string \<Rightarrow> nat \<Rightarrow> nat option" where
  "find_first_not_of s Chars From =
     (let i = min From (length s) in scan (\<lambda>c. c \<notin> set Chars) i (drop i s))"

definition find_last_not_of :: "string \<Rightarrow> string \<Rightarrow> nat option" where
  "find_last_not_of s Chars = rscan (\<lambda>c. c \<notin> set Chars) s (length s)"

definition str_substr :: "string \<Rightarrow> nat \<Rightarrow> nat \<Rightarrow> string" where
  "str_substr s Start N =
     (let Start = min Start (length s) in take (min N (length s - Start)) (drop Start s))"

text \<open>The default argument \<^verbatim>\<open>N = npos\<close>.\<close>

definition str_substr_npos :: "string \<Rightarrow> nat \<Rightarrow> string" where
  "str_substr_npos s Start = (let Start = min Start (length s) in drop Start s)"

definition str_slice :: "string \<Rightarrow> nat \<Rightarrow> nat \<Rightarrow> string" where
  "str_slice s Start End =
     (let Start = min Start (length s); End = min (max Start End) (length s) in
      take (End - Start) (drop Start s))"

definition drop_front :: "string \<Rightarrow> nat \<Rightarrow> string" where
  "drop_front s N = str_substr_npos s N"

definition drop_back :: "string \<Rightarrow> nat \<Rightarrow> string" where
  "drop_back s N = str_substr s 0 (length s - N)"

definition startswith :: "string \<Rightarrow> string \<Rightarrow> bool" where
  "startswith s Prefix = (length s \<ge> length Prefix \<and> take (length Prefix) s = Prefix)"

definition consume_front :: "string \<Rightarrow> string \<Rightarrow> string option" where
  "consume_front s Prefix =
     (if \<not> startswith s Prefix then None else Some (drop_front s (length Prefix)))"

definition white_space :: string where
  "white_space = [CHR 0x20, CHR 0x09, CHR 0x0A, CHR 0x0B, CHR 0x0C, CHR 0x0D]"

definition ltrim :: "string \<Rightarrow> string" where
  "ltrim s = drop_front s
     (case find_first_not_of s white_space 0 of None \<Rightarrow> length s | Some i \<Rightarrow> min (length s) i)"

definition rtrim :: "string \<Rightarrow> string" where
  "rtrim s = drop_back s
     (length s - (case find_last_not_of s white_space of None \<Rightarrow> 0 | Some i \<Rightarrow> min (length s) (i + 1)))"

definition str_trim :: "string \<Rightarrow> string" where
  "str_trim s = rtrim (ltrim s)"

section \<open>Integers\<close>

definition isDigit :: "char \<Rightarrow> bool" where
  "isDigit c = (CHR ''0'' \<le> c \<and> c \<le> CHR ''9'')"

definition GetAutoSenseRadix :: "string \<Rightarrow> nat \<times> string" where
  "GetAutoSenseRadix Str =
     (if Str = [] then (10, Str)
      else if startswith Str ''0x'' \<or> startswith Str ''0X'' then (16, str_substr_npos Str 2)
      else if startswith Str ''0b'' \<or> startswith Str ''0B'' then (2, str_substr_npos Str 2)
      else if startswith Str ''0o'' then (8, str_substr_npos Str 2)
      else if Str ! 0 = CHR ''0'' \<and> length Str > 1 \<and> isDigit (Str ! 1)
        then (8, str_substr_npos Str 1)
      else (10, Str))"

definition CharVal :: "char \<Rightarrow> nat option" where
  "CharVal c =
     (if CHR ''0'' \<le> c \<and> c \<le> CHR ''9'' then Some (of_char c - of_char CHR ''0'')
      else if CHR ''a'' \<le> c \<and> c \<le> CHR ''z'' then Some (of_char c - of_char CHR ''a'' + 10)
      else if CHR ''A'' \<le> c \<and> c \<le> CHR ''Z'' then Some (of_char c - of_char CHR ''A'' + 10)
      else None)"

text \<open>The digit loop: the number read and the text that is left, or none on overflow.\<close>

fun consumeUnsignedInteger_loop :: "nat \<Rightarrow> string \<Rightarrow> u64 \<Rightarrow> (u64 \<times> string) option" where
  "consumeUnsignedInteger_loop Radix [] Result = Some (Result, [])"
| "consumeUnsignedInteger_loop Radix (c # Str2) Result =
     (case CharVal c of
        None \<Rightarrow> Some (Result, c # Str2)
      | Some v \<Rightarrow>
          if v \<ge> Radix then Some (Result, c # Str2)
          else
            (let Result' = Result * of_nat Radix + of_nat v in
             if Result' div of_nat Radix < Result then None
             else consumeUnsignedInteger_loop Radix Str2 Result'))"

definition consumeUnsignedInteger :: "string \<Rightarrow> nat \<Rightarrow> (u64 \<times> string) option" where
  "consumeUnsignedInteger Str Radix =
     (let (Radix, Str) = (if Radix = 0 then GetAutoSenseRadix Str else (Radix, Str)) in
      if Str = [] then None
      else (case consumeUnsignedInteger_loop Radix Str 0 of
              None \<Rightarrow> None
            | Some (Result, Str2) \<Rightarrow>
                if length Str = length Str2 then None else Some (Result, Str2)))"

definition getAsUnsignedInteger :: "string \<Rightarrow> nat \<Rightarrow> u64 option" where
  "getAsUnsignedInteger Str Radix =
     (case consumeUnsignedInteger Str Radix of
        None \<Rightarrow> None
      | Some (Result, Str') \<Rightarrow> if Str' \<noteq> [] then None else Some Result)"

definition getAsInteger :: "string \<Rightarrow> nat \<Rightarrow> 'a::len word option" where
  "getAsInteger Str Radix =
     (case getAsUnsignedInteger Str Radix of
        None \<Rightarrow> None
      | Some ULLVal \<Rightarrow>
          if ucast (ucast ULLVal :: 'a word) \<noteq> ULLVal then None else Some (ucast ULLVal))"

definition consumeInteger :: "string \<Rightarrow> nat \<Rightarrow> ('a::len word \<times> string) option" where
  "consumeInteger Str Radix =
     (case consumeUnsignedInteger Str Radix of
        None \<Rightarrow> None
      | Some (ULLVal, Str') \<Rightarrow>
          if ucast (ucast ULLVal :: 'a word) \<noteq> ULLVal then None else Some (ucast ULLVal, Str'))"

text \<open>\<^verbatim>\<open>format_to_buffer\<close> writes the digits from the last to the first.\<close>

function format_to_buffer :: "nat \<Rightarrow> string \<Rightarrow> string" where
  "format_to_buffer Value buf =
     (let buf = char_of (of_char CHR ''0'' + Value mod 10) # buf; Value = Value div 10 in
      if Value \<noteq> 0 then format_to_buffer Value buf else buf)"
  by auto
termination by (relation "measure fst") auto

definition write_unsigned :: "nat \<Rightarrow> nat \<Rightarrow> string" where
  "write_unsigned N MinDigits =
     (let digits = format_to_buffer N [] in
      replicate (MinDigits - length digits) CHR ''0'' @ digits)"

declare format_to_buffer.simps [simp del]

section \<open>Integer conversion is exact\<close>

definition digit_ok :: "nat \<Rightarrow> char \<Rightarrow> bool" where
  "digit_ok Radix c = (case CharVal c of None \<Rightarrow> False | Some v \<Rightarrow> v < Radix)"

definition digits_value :: "nat \<Rightarrow> nat \<Rightarrow> string \<Rightarrow> nat" where
  "digits_value Radix n cs = foldl (\<lambda>a c. a * Radix + the (CharVal c)) n cs"

lemma digits_value_simps [simp]:
  "digits_value Radix n [] = n"
  "digits_value Radix n (c # cs) = digits_value Radix (n * Radix + the (CharVal c)) cs"
  by (simp_all add: digits_value_def)

lemma digits_value_ge: "0 < Radix \<Longrightarrow> n \<le> digits_value Radix n cs"
proof (induction cs arbitrary: n)
  case (Cons c cs)
  have "n \<le> n * Radix + the (CharVal c)" using Cons.prems by (simp add: trans_le_add1)
  also have "\<dots> \<le> digits_value Radix (n * Radix + the (CharVal c)) cs" by (rule Cons.IH [OF Cons.prems])
  finally show ?case by simp
qed simp

text \<open>Dividing back detects exactly the additions that wrapped around.\<close>

lemma overflow_test:
  fixes n v Radix M :: nat
  assumes "n < M" "v < Radix" "Radix < M"
  shows "((n * Radix + v) mod M) div Radix < n \<longleftrightarrow> M \<le> n * Radix + v"
proof
  assume "M \<le> n * Radix + v"
  then have "(n * Radix + v) mod M = (n * Radix + v - M) mod M"
    by (simp add: le_mod_geq)
  then have "(n * Radix + v) mod M \<le> n * Radix + v - M" by simp
  also have "\<dots> < n * Radix" using assms \<open>M \<le> n * Radix + v\<close> by linarith
  finally show "((n * Radix + v) mod M) div Radix < n"
    by (simp add: less_mult_imp_div_less)
next
  assume "((n * Radix + v) mod M) div Radix < n"
  then show "M \<le> n * Radix + v"
    using assms by (cases "n * Radix + v < M") auto
qed

lemma loop_step_overflow:
  assumes "n < 2 ^ 64" "v < Radix" "Radix < 2 ^ 64"
  shows "(word_of_nat n * word_of_nat Radix + word_of_nat v) div word_of_nat Radix < (word_of_nat n :: u64)
    \<longleftrightarrow> 2 ^ 64 \<le> n * Radix + v"
proof -
  have "unat (word_of_nat n * word_of_nat Radix + word_of_nat v :: u64) = (n * Radix + v) mod 2 ^ 64"
    by (simp flip: of_nat_mult of_nat_add add: unat_of_nat)
  with assms overflow_test [of n "2 ^ 64" v Radix] show ?thesis
    by (simp add: word_less_nat_alt unat_div unat_of_nat)
qed

lemma consume_loop_exact:
  assumes "n < 2 ^ 64" "0 < Radix" "Radix < 2 ^ 64"
  shows "consumeUnsignedInteger_loop Radix cs (word_of_nat n) =
    (let ds = takeWhile (digit_ok Radix) cs; v = digits_value Radix n ds in
     if v < 2 ^ 64 then Some (word_of_nat v, dropWhile (digit_ok Radix) cs) else None)"
  using assms(1)
proof (induction cs arbitrary: n)
  case (Cons c cs)
  show ?case
  proof (cases "digit_ok Radix c")
    case True
    then obtain v where v: "CharVal c = Some v" "v < Radix"
      by (auto simp: digit_ok_def split: option.splits)
    let ?n' = "n * Radix + v"
    show ?thesis
    proof (cases "?n' < 2 ^ 64")
      case fits: True
      with Cons.IH [OF fits] v True loop_step_overflow [OF Cons.prems v(2) assms(3)] show ?thesis
        by (simp add: not_le Let_def)
    next
      case False
      then have "\<not> digits_value Radix ?n' ds < 2 ^ 64" for ds
        using digits_value_ge [OF assms(2), of ?n' ds] by linarith
      with v True False loop_step_overflow [OF Cons.prems v(2) assms(3)] show ?thesis
        by (simp add: Let_def)
    qed
  next
    case False
    with Cons.prems show ?thesis by (auto simp: digit_ok_def Let_def split: option.splits)
  qed
qed simp

lemma consumeUnsignedInteger_exact:
  assumes "0 < Radix" "Radix < 2 ^ 64"
  shows "consumeUnsignedInteger s Radix =
    (let ds = takeWhile (digit_ok Radix) s; v = digits_value Radix 0 ds in
     if ds \<noteq> [] \<and> v < 2 ^ 64 then Some (word_of_nat v, dropWhile (digit_ok Radix) s) else None)"
proof -
  have "length (dropWhile (digit_ok Radix) s) = length s \<longleftrightarrow> takeWhile (digit_ok Radix) s = []"
    by (metis length_append add_cancel_right_left length_0_conv takeWhile_dropWhile_id)
  then show ?thesis
    using assms consume_loop_exact [of 0 Radix s]
    by (auto simp: consumeUnsignedInteger_def Let_def)
qed

text \<open>The test that a 64 bit value survives the cast to the result type.\<close>

lemma narrow_fits:
  assumes "v < 2 ^ 64"
  shows "ucast (ucast (word_of_nat v :: u64) :: 'a::len word) = (word_of_nat v :: u64) \<longleftrightarrow> v < 2 ^ LENGTH('a)"
    and "ucast (word_of_nat v :: u64) = (word_of_nat v :: 'a word)"
proof -
  have v: "unat (word_of_nat v :: u64) = v" using assms by (simp add: unat_of_nat)
  have "v mod 2 ^ LENGTH('a) < 2 ^ 64" using assms by (meson le_less_trans mod_less_eq_dividend)
  then have "unat (ucast (ucast (word_of_nat v :: u64) :: 'a word) :: u64) = v mod 2 ^ LENGTH('a)"
    using assms by (simp add: unat_ucast_mod unat_of_nat)
  with v have "ucast (ucast (word_of_nat v :: u64) :: 'a word) = (word_of_nat v :: u64) \<longleftrightarrow> v mod 2 ^ LENGTH('a) = v"
    by (simp only: word_unat_eq_iff)
  also have "\<dots> \<longleftrightarrow> v < 2 ^ LENGTH('a)"
    by (metis mod_less mod_less_divisor zero_less_numeral zero_less_power)
  finally show "ucast (ucast (word_of_nat v :: u64) :: 'a word) = (word_of_nat v :: u64) \<longleftrightarrow> v < 2 ^ LENGTH('a)" .
  show "ucast (word_of_nat v :: u64) = (word_of_nat v :: 'a word)" using v by (metis of_nat_unat)
qed

lemma fits_64:
  assumes "v < 2 ^ LENGTH('a::len)" and "LENGTH('a) \<le> 64"
  shows "v < (2 :: nat) ^ 64"
  using assms by (meson less_le_trans one_le_numeral power_increasing)

lemma consumeInteger_exact:
  assumes "LENGTH('a) \<le> 64"
  shows "(consumeInteger s 10 :: ('a::len word \<times> string) option) =
    (let ds = takeWhile (digit_ok 10) s; v = digits_value 10 0 ds in
     if ds \<noteq> [] \<and> v < 2 ^ LENGTH('a) then Some (word_of_nat v, dropWhile (digit_ok 10) s) else None)"
proof (cases "digits_value 10 0 (takeWhile (digit_ok 10) s) < 2 ^ 64")
  case True
  then show ?thesis
    using narrow_fits [OF True, where 'a = 'a] by (auto simp: consumeInteger_def consumeUnsignedInteger_exact Let_def)
next
  case False
  then have "\<not> digits_value 10 0 (takeWhile (digit_ok 10) s) < 2 ^ LENGTH('a)" using fits_64 [OF _ assms] by blast
  with False show ?thesis by (simp add: consumeInteger_def consumeUnsignedInteger_exact Let_def)
qed

lemma getAsInteger_exact_aux:
  assumes "0 < Radix" "Radix < 2 ^ 64" "LENGTH('a) \<le> 64"
  shows "(getAsInteger s Radix :: 'a::len word option) =
    (if s \<noteq> [] \<and> list_all (digit_ok Radix) s \<and> digits_value Radix 0 s < 2 ^ LENGTH('a)
     then Some (word_of_nat (digits_value Radix 0 s)) else None)"
proof (cases "list_all (digit_ok Radix) s")
  case True
  then have tw: "takeWhile (digit_ok Radix) s = s" "dropWhile (digit_ok Radix) s = []"
    by (auto simp: list_all_iff)
  let ?v = "digits_value Radix 0 s"
  have get: "getAsUnsignedInteger s Radix = (if s \<noteq> [] \<and> ?v < 2 ^ 64 then Some (word_of_nat ?v) else None)"
    by (simp add: getAsUnsignedInteger_def consumeUnsignedInteger_exact [OF assms(1,2)] Let_def tw)
  show ?thesis
  proof (cases "?v < 2 ^ 64")
    case v64: True
    then show ?thesis
      using True narrow_fits [OF v64, where 'a = 'a] by (auto simp: getAsInteger_def get)
  next
    case False
    then have "\<not> ?v < 2 ^ LENGTH('a)" using fits_64 [OF _ assms(3)] by blast
    then show ?thesis
      using False by (simp add: getAsInteger_def get)
  qed
next
  case False
  then have "dropWhile (digit_ok Radix) s \<noteq> []"
    by (auto simp: list_all_iff)
  then show ?thesis
    using False
    by (auto simp: getAsInteger_def getAsUnsignedInteger_def consumeUnsignedInteger_exact [OF assms(1,2)]
        Let_def split: option.splits)
qed

text \<open>C18: Reading an integer is exact at every width up to 64 bits: for any radix from 2 to 36 the
conversion succeeds if and only if the text is a non-empty string of digits of that radix whose value
fits the result type, and then it returns that value. In particular the test by division catches
every overflow of the 64-bit accumulator.\<close>

theorem getAsInteger_exact:
  assumes "2 \<le> Radix" "Radix \<le> 36" "LENGTH('a) \<le> 64"
  shows "(getAsInteger s Radix :: 'a::len word option) =
    (if s \<noteq> [] \<and> list_all (digit_ok Radix) s \<and> digits_value Radix 0 s < 2 ^ LENGTH('a)
     then Some (word_of_nat (digits_value Radix 0 s)) else None)"
  using assms by (intro getAsInteger_exact_aux) simp_all

theorem getAsInteger_exact_witness:
  "(getAsInteger ''65535'' 10 :: u16 option) = Some 65535 \<and>
   (getAsInteger ''65536'' 10 :: u16 option) = None \<and>
   (getAsInteger ''18446744073709551616'' 10 :: u64 option) = None"
  using getAsInteger_exact [of 10 "''65535''", where 'a = 16] getAsInteger_exact [of 10 "''65536''", where 'a = 16]
    getAsInteger_exact [of 10 "''18446744073709551616''", where 'a = 64]
  by (simp add: digit_ok_def CharVal_def less_eq_char_def)

section \<open>Printing and reading back\<close>

lemma decimal_digits:
  "\<forall>d\<in>set [0..<10]. CharVal (char_of (of_char CHR ''0'' + d)) = Some d \<and>
     isDigit (char_of (of_char CHR ''0'' + d))"
  by code_simp

lemma decimal_digit:
  "CharVal (char_of (of_char CHR ''0'' + n mod 10)) = Some (n mod 10)"
  "isDigit (char_of (of_char CHR ''0'' + n mod 10))"
  using decimal_digits by (simp_all add: Ball_def)

lemma format_to_buffer_digits:
  "\<exists>ds. format_to_buffer n buf = ds @ buf \<and> ds \<noteq> [] \<and> list_all isDigit ds \<and>
     list_all (digit_ok 10) ds \<and> digits_value 10 0 ds = n"
proof (induction n buf rule: format_to_buffer.induct)
  case (1 n buf)
  let ?c = "char_of (of_char CHR ''0'' + n mod 10)"
  have c: "isDigit ?c" "digit_ok 10 ?c" "the (CharVal ?c) = n mod 10"
    using decimal_digit [of n] by (simp_all add: digit_ok_def)
  show ?case
  proof (cases "n div 10 = 0")
    case True
    then show ?thesis
      using c by (intro exI [of _ "[?c]"]) (simp add: format_to_buffer.simps [of n] Let_def)
  next
    case False
    with "1.IH" [OF refl refl] obtain ds where
      ds: "format_to_buffer (n div 10) (?c # buf) = ds @ ?c # buf" "ds \<noteq> []" "list_all isDigit ds"
        "list_all (digit_ok 10) ds" "digits_value 10 0 ds = n div 10" by blast
    have "digits_value 10 0 (ds @ [?c]) = n"
      using ds(5) c(3) by (simp add: digits_value_def)
    then show ?thesis
      using False c ds
      by (intro exI [of _ "ds @ [?c]"]) (simp add: format_to_buffer.simps [of n] Let_def)
  qed
qed

lemma digits_value_zeros:
  "digits_value 10 0 (replicate k CHR ''0'' @ ds) = digits_value 10 0 ds"
  by (induction k) (simp_all add: CharVal_def)

lemma write_unsigned_digits:
  shows "write_unsigned n k \<noteq> []" "list_all isDigit (write_unsigned n k)"
    "list_all (digit_ok 10) (write_unsigned n k)" "digits_value 10 0 (write_unsigned n k) = n"
proof -
  have z: "isDigit CHR ''0''" "digit_ok 10 CHR ''0''" by code_simp+
  from format_to_buffer_digits [of n "[]"] obtain ds where ds: "format_to_buffer n [] = ds" "ds \<noteq> []"
    "list_all isDigit ds" "list_all (digit_ok 10) ds" "digits_value 10 0 ds = n" by auto
  then show "write_unsigned n k \<noteq> []" "list_all isDigit (write_unsigned n k)"
    "list_all (digit_ok 10) (write_unsigned n k)" "digits_value 10 0 (write_unsigned n k) = n"
    using z by (auto simp: write_unsigned_def Let_def digits_value_zeros list_all_iff)
qed

lemma getAsInteger_write_unsigned:
  fixes w :: "'a::len word"
  assumes "LENGTH('a) \<le> 64"
  shows "getAsInteger (write_unsigned (unat w) k) 10 = Some w"
proof -
  have "unat w < 2 ^ LENGTH('a)" by (rule unsigned_less)
  then show ?thesis
    using assms by (simp add: getAsInteger_exact_aux write_unsigned_digits)
qed

section \<open>Search facts\<close>

lemma scan_None: "scan P i s = None \<longleftrightarrow> list_all (\<lambda>c. \<not> P c) s"
  by (induction s arbitrary: i) auto

lemma scan_append: "list_all (\<lambda>c. \<not> P c) s \<Longrightarrow> scan P i (s @ t) = scan P (i + length s) t"
  by (induction s arbitrary: i) auto

lemma find_first_not_of_run:
  "list_all (\<lambda>c. c \<in> set Chars) ds \<Longrightarrow> c \<notin> set Chars \<Longrightarrow>
   find_first_not_of (pre @ ds @ c # t) Chars (length pre) = Some (length pre + length ds)"
  by (simp add: find_first_not_of_def scan_append)

lemma find_first_not_of_none:
  "list_all (\<lambda>c. c \<in> set Chars) ds \<Longrightarrow> find_first_not_of (pre @ ds) Chars (length pre) = None"
  by (simp add: find_first_not_of_def scan_None)

lemma str_slice_run: "str_slice (pre @ ds @ t) (length pre) (length pre + length ds) = ds"
  by (simp add: str_slice_def Let_def)

lemma notin_list_all: "C \<notin> set s \<Longrightarrow> list_all (\<lambda>c. c \<noteq> C) s"
  by (auto simp: list_all_iff)

lemma str_find_run: "C \<notin> set pre \<Longrightarrow> str_find (pre @ C # t) C 0 = Some (length pre)"
  by (simp add: str_find_def scan_append notin_list_all)

lemma str_find_none: "C \<notin> set s \<Longrightarrow> str_find s C 0 = None"
  by (simp add: str_find_def scan_None notin_list_all)

lemma rscan_append: "n \<le> length s \<Longrightarrow> rscan P (s @ t) n = rscan P s n"
  by (induction n) (auto simp: nth_append)

lemma rscan_skip:
  "list_all (\<lambda>c. \<not> P c) t \<Longrightarrow> rscan P (s @ t) (length s + length t) = rscan P s (length s)"
proof (induction t rule: rev_induct)
  case (snoc c t)
  have "rscan P (s @ t @ [c]) (length s + length t) = rscan P (s @ t) (length s + length t)"
    using rscan_append [of "length s + length t" "s @ t" P "[c]"] by simp
  with snoc show ?case by (simp add: nth_append)
qed (simp add: rscan_append)

lemma str_rfind_run: "C \<notin> set t \<Longrightarrow> str_rfind (pre @ C # t) C = Some (length pre)"
  using rscan_skip [OF notin_list_all, of C t "pre @ [C]"]
  by (simp add: str_rfind_def del: rscan.simps(2)) (simp add: nth_append)

lemma str_rfind_none: "C \<notin> set s \<Longrightarrow> str_rfind s C = None"
  using rscan_skip [OF notin_list_all, of C s "[]"] by (simp add: str_rfind_def)

text \<open>Trimming does nothing to text that neither begins nor ends with white space.\<close>

lemma ltrim_id: "s \<noteq> [] \<Longrightarrow> hd s \<notin> set white_space \<Longrightarrow> ltrim s = s"
  by (cases s) (simp_all add: ltrim_def find_first_not_of_def drop_front_def str_substr_npos_def)

lemma rtrim_id: "s \<noteq> [] \<Longrightarrow> last s \<notin> set white_space \<Longrightarrow> rtrim s = s"
  by (cases s rule: rev_cases)
     (simp_all add: rtrim_def find_last_not_of_def drop_back_def str_substr_def)

lemma str_trim_id:
  "s \<noteq> [] \<Longrightarrow> hd s \<notin> set white_space \<Longrightarrow> last s \<notin> set white_space \<Longrightarrow> str_trim s = s"
  by (simp add: str_trim_def ltrim_id rtrim_id)

end
