(* ===== verification/Wire.thy ===== *)
theory Wire
  imports ByteOrder
begin

text \<open>
  Reading and writing fields of a message in place. A message is a byte string and its structs are
  overlays (\<^verbatim>\<open>Interpret_cast\<close>, \<^verbatim>\<open>Big16_cast\<close>, \<^verbatim>\<open>Big32_unaligned\<close> of \<^verbatim>\<open>include/ofp/byteorder.h\<close>),
  so a field access is an access at an offset. The first theory shows that such an access on a
  \<^verbatim>\<open>Big\<close> object is the big-endian number on either host; here the number is used directly.
\<close>

definition be16 :: "u16 \<Rightarrow> bytes" where
  "be16 v = nat_be 2 (unat v)"

definition be32 :: "u32 \<Rightarrow> bytes" where
  "be32 v = nat_be 4 (unat v)"

definition be64 :: "u64 \<Rightarrow> bytes" where
  "be64 v = nat_be 8 (unat v)"

definition rd8 :: "nat \<Rightarrow> bytes \<Rightarrow> byte" where
  "rd8 pos xs = of_nat (be_nat (sub_bytes pos 1 xs))"

definition rd16 :: "nat \<Rightarrow> bytes \<Rightarrow> u16" where
  "rd16 pos xs = of_nat (be_nat (sub_bytes pos 2 xs))"

definition rd32 :: "nat \<Rightarrow> bytes \<Rightarrow> u32" where
  "rd32 pos xs = of_nat (be_nat (sub_bytes pos 4 xs))"

definition rd64 :: "nat \<Rightarrow> bytes \<Rightarrow> u64" where
  "rd64 pos xs = of_nat (be_nat (sub_bytes pos 8 xs))"

definition wr8 :: "nat \<Rightarrow> byte \<Rightarrow> bytes \<Rightarrow> bytes" where
  "wr8 pos v xs = overwrite pos [v] xs"

definition wr16 :: "nat \<Rightarrow> u16 \<Rightarrow> bytes \<Rightarrow> bytes" where
  "wr16 pos v xs = overwrite pos (be16 v) xs"

definition wr32 :: "nat \<Rightarrow> u32 \<Rightarrow> bytes \<Rightarrow> bytes" where
  "wr32 pos v xs = overwrite pos (be32 v) xs"

definition wr64 :: "nat \<Rightarrow> u64 \<Rightarrow> bytes \<Rightarrow> bytes" where
  "wr64 pos v xs = overwrite pos (be64 v) xs"

section \<open>Encoding of numbers\<close>

declare nat_be_numeral [simp del]

lemma length_be [simp]: "length (be16 v) = 2" "length (be32 w) = 4" "length (be64 x) = 8"
  by (simp_all add: be16_def be32_def be64_def)

lemma be_nat_be [simp]:
  "be_nat (be16 v) = unat v" "be_nat (be32 w) = unat w" "be_nat (be64 x) = unat x"
  by (simp_all only: be16_def be32_def be64_def swap2.unat_be swap4.unat_be swap8.unat_be)

lemma be_of_be_nat:
  "length bs = 2 \<Longrightarrow> be16 (of_nat (be_nat bs)) = bs"
  "length bs = 4 \<Longrightarrow> be32 (of_nat (be_nat bs)) = bs"
  "length bs = 8 \<Longrightarrow> be64 (of_nat (be_nat bs)) = bs"
  by (simp_all add: be16_def be32_def be64_def unat_word_of_be_nat nat_be_be_nat)

section \<open>Fields of a byte string\<close>

lemma sub_bytes_overwrite_same:
  "pos + length ys \<le> length xs \<Longrightarrow> n = length ys \<Longrightarrow> sub_bytes pos n (overwrite pos ys xs) = ys"
  by (simp add: sub_bytes_def overwrite_def)

lemma sub_bytes_overwrite_before:
  "p + n \<le> q \<Longrightarrow> q \<le> length xs \<Longrightarrow> sub_bytes p n (overwrite q ys xs) = sub_bytes p n xs"
  by (auto simp: sub_bytes_def overwrite_def drop_take min_def)

lemma sub_bytes_overwrite_after:
  "q + length ys \<le> p \<Longrightarrow> q + length ys \<le> length xs \<Longrightarrow>
   sub_bytes p n (overwrite q ys xs) = sub_bytes p n xs"
  by (simp add: sub_bytes_def overwrite_def)

lemmas sub_bytes_overwrite =
  sub_bytes_overwrite_same sub_bytes_overwrite_before sub_bytes_overwrite_after

lemmas rd_defs = rd8_def rd16_def rd32_def rd64_def
lemmas wr_defs = wr8_def wr16_def wr32_def wr64_def

lemma rd_wr_same [simp]:
  "pos + 1 \<le> length xs \<Longrightarrow> rd8 pos (wr8 pos a xs) = a"
  "pos + 2 \<le> length xs \<Longrightarrow> rd16 pos (wr16 pos v xs) = v"
  "pos + 4 \<le> length xs \<Longrightarrow> rd32 pos (wr32 pos w xs) = w"
  "pos + 8 \<le> length xs \<Longrightarrow> rd64 pos (wr64 pos x xs) = x"
  by (simp_all add: rd_defs wr_defs sub_bytes_overwrite)

lemma length_wr [simp]:
  "pos + 1 \<le> length xs \<Longrightarrow> length (wr8 pos a xs) = length xs"
  "pos + 2 \<le> length xs \<Longrightarrow> length (wr16 pos v xs) = length xs"
  "pos + 4 \<le> length xs \<Longrightarrow> length (wr32 pos w xs) = length xs"
  "pos + 8 \<le> length xs \<Longrightarrow> length (wr64 pos x xs) = length xs"
  by (simp_all add: wr_defs)

lemma rd_prefix:
  "pos + 1 \<le> length xs \<Longrightarrow> rd8 pos (xs @ ys) = rd8 pos xs"
  "pos + 2 \<le> length xs \<Longrightarrow> rd16 pos (xs @ ys) = rd16 pos xs"
  "pos + 4 \<le> length xs \<Longrightarrow> rd32 pos (xs @ ys) = rd32 pos xs"
  "pos + 8 \<le> length xs \<Longrightarrow> rd64 pos (xs @ ys) = rd64 pos xs"
  by (simp_all add: rd_defs sub_bytes_def)

lemma rd_suffix:
  "length xs \<le> pos \<Longrightarrow> rd8 pos (xs @ ys) = rd8 (pos - length xs) ys"
  "length xs \<le> pos \<Longrightarrow> rd16 pos (xs @ ys) = rd16 (pos - length xs) ys"
  "length xs \<le> pos \<Longrightarrow> rd32 pos (xs @ ys) = rd32 (pos - length xs) ys"
  "length xs \<le> pos \<Longrightarrow> rd64 pos (xs @ ys) = rd64 (pos - length xs) ys"
  by (simp_all add: rd_defs sub_bytes_def)

lemma rd8_nth: "pos < length xs \<Longrightarrow> rd8 pos xs = xs ! pos"
  using Cons_nth_drop_Suc [of pos xs, symmetric] by (simp add: rd8_def sub_bytes_def)

lemma nth_overwrite:
  "pos + length ys \<le> length xs \<Longrightarrow> i < length xs \<Longrightarrow>
   overwrite pos ys xs ! i = (if pos \<le> i \<and> i < pos + length ys then ys ! (i - pos) else xs ! i)"
  by (auto simp: overwrite_def nth_append min_def)

lemma overwrite_commute:
  "p + length ys \<le> q \<Longrightarrow> q + length zs \<le> length xs \<Longrightarrow>
   overwrite p ys (overwrite q zs xs) = overwrite q zs (overwrite p ys xs)"
  by (rule nth_equalityI) (auto simp: nth_overwrite)

lemma overwrite_overwrite:
  "length zs = length ys \<Longrightarrow> pos + length ys \<le> length xs \<Longrightarrow>
   overwrite pos zs (overwrite pos ys xs) = overwrite pos zs xs"
  by (simp add: overwrite_def)

lemma overwrite_sub_bytes: "pos + n \<le> length xs \<Longrightarrow> overwrite pos (sub_bytes pos n xs) xs = xs"
  by (rule nth_equalityI) (auto simp: nth_overwrite sub_bytes_def)

lemma wr16_rd16: "pos + 2 \<le> length xs \<Longrightarrow> wr16 pos (rd16 pos xs) xs = xs"
  by (simp add: wr16_def rd16_def be_of_be_nat overwrite_sub_bytes)

lemma rd16_wr16_other:
  "p + 2 \<le> q \<Longrightarrow> q + 2 \<le> length xs \<Longrightarrow> rd16 p (wr16 q v xs) = rd16 p xs"
  "q + 2 \<le> p \<Longrightarrow> q + 2 \<le> length xs \<Longrightarrow> rd16 p (wr16 q v xs) = rd16 p xs"
  by (simp_all add: rd16_def wr16_def sub_bytes_overwrite)

end
