(* ===== verification/Addresses.thy ===== *)
theory Addresses
  imports StringRef Wire
begin

text \<open>
  The address types: \<^verbatim>\<open>MacAddress\<close>, \<^verbatim>\<open>DatapathID\<close>, \<^verbatim>\<open>IPv4Address\<close>, \<^verbatim>\<open>IPv6Address\<close> and
  \<^verbatim>\<open>IPv6Endpoint\<close> (\<^verbatim>\<open>src/ofp/\<close> and \<^verbatim>\<open>include/ofp/\<close>). Each is an array of bytes, modelled as the list
  of its bytes. The parsers write into the array while they go, so they take the old contents and
  return the success flag with the new contents. The system functions \<^verbatim>\<open>inet_pton\<close> and \<^verbatim>\<open>inet_ntop\<close>
  (reached through asio) are arguments: \<open>pton s old\<close> is the return code and the array afterwards,
  \<open>ntop a\<close> the text, none when it fails.
\<close>

section \<open>MacAddress\<close>

type_synonym MacAddress = bytes

definition mac_parse :: "MacAddress \<Rightarrow> string \<Rightarrow> bool \<times> MacAddress" where
  "mac_parse addr s =
     (let (n, out) = HexDelimitedToRawData s 6 CHR '':''; addr = overwrite 0 out addr in
      if n = 6 then (True, addr)
      else
        let (n, out) = (if length s = 12 then HexStrictToRawData s 6 else (0, []));
            addr = overwrite 0 out addr in
        if length s = 12 \<and> n = 6 then (True, addr)
        else
          let (n, out) = HexDelimitedToRawData s 6 CHR ''-'' in
          (n = 6, overwrite 0 out addr))"

definition mac_clear :: MacAddress where
  "mac_clear = replicate 6 0"

definition mac_fromString :: "MacAddress \<Rightarrow> string \<Rightarrow> MacAddress" where
  "mac_fromString raw s = (case mac_parse raw s of (ok, addr) \<Rightarrow> if \<not> ok then mac_clear else addr)"

definition mac_valid :: "MacAddress \<Rightarrow> bool" where
  "mac_valid addr = (\<not> IsMemFilled addr 0)"

definition mac_isMulticast :: "MacAddress \<Rightarrow> bool" where
  "mac_isMulticast addr = (addr ! 0 AND 0x01 \<noteq> 0)"

definition mac_isBroadcast :: "MacAddress \<Rightarrow> bool" where
  "mac_isBroadcast addr = IsMemFilled addr 0xff"

definition mac_setAllOnes :: MacAddress where
  "mac_setAllOnes = replicate 6 0xFF"

definition mac_toString :: "MacAddress \<Rightarrow> string" where
  "mac_toString addr = RawDataToHexDelimitedLowercase addr"

section \<open>DatapathID\<close>

type_synonym DatapathID = bytes

definition dpid_make :: "u16 \<Rightarrow> MacAddress \<Rightarrow> DatapathID" where
  "dpid_make implementerDefined macAddress = be16 implementerDefined @ macAddress"

definition dpid_implementerDefined :: "DatapathID \<Rightarrow> u16" where
  "dpid_implementerDefined dpid = rd16 0 dpid"

definition dpid_macAddress :: "DatapathID \<Rightarrow> MacAddress" where
  "dpid_macAddress dpid = sub_bytes 2 6 dpid"

definition dpid_parse :: "DatapathID \<Rightarrow> string \<Rightarrow> bool \<times> DatapathID" where
  "dpid_parse dpid s =
     (let (n, out) = HexDelimitedToRawData s 8 CHR '':''; dpid = overwrite 0 out dpid in
      if n = 8 then (True, dpid)
      else (case (getAsInteger s 0 :: u64 option) of
              Some n \<Rightarrow> (True, be64 n)
            | None \<Rightarrow> (False, dpid)))"

definition dpid_toString :: "DatapathID \<Rightarrow> string" where
  "dpid_toString dpid = RawDataToHexDelimitedLowercase dpid"

section \<open>IPv4Address\<close>

type_synonym IPv4Address = bytes

definition ipv4_mask :: "nat \<Rightarrow> IPv4Address" where
  "ipv4_mask prefix =
     (let d = min 4 (prefix div 8); r = prefix mod 8;
          addr = replicate d 0xFF @ replicate (4 - d) 0 in
      if d < 4 then addr[d := ucast (push_bit (8 - r) (0xFF :: u32))] else addr)"

text \<open>The inner loop of \<^verbatim>\<open>prefix()\<close>; the value is masked with \<^verbatim>\<open>0xFF\<close>, so a byte holds it.\<close>

lemma shift_out_top_bit:
  fixes v :: byte
  assumes "bit v 7"
  shows "card {i. bit (push_bit 1 v) i} < card {i. bit v i}"
proof -
  have fin: "finite {i. bit v i}"
    by (rule finite_subset [of _ "{..<8}"]) (auto dest: bit_imp_le_length)
  have "{i. bit (push_bit 1 v) i} \<subseteq> Suc ` ({i. bit v i} - {7})"
  proof
    fix i assume "i \<in> {i. bit (push_bit 1 v) i}"
    then have b: "bit (push_bit 1 v) i" by blast
    from bit_imp_le_length [OF b] have "i < 8" by simp
    moreover from b have "1 \<le> i" "bit v (i - 1)" unfolding bit_push_bit_iff by blast+
    ultimately show "i \<in> Suc ` ({i. bit v i} - {7})"
      by (intro image_eqI [of _ _ "i - 1"]) auto
  qed
  then have "card {i. bit (push_bit 1 v) i} \<le> card ({i. bit v i} - {7})"
    using fin by (meson card_image_le card_mono finite_Diff finite_imageI le_trans)
  also have "\<dots> < card {i. bit v i}"
    using assms fin by (intro card_Diff1_less) auto
  finally show ?thesis .
qed

function prefix_bits :: "byte \<Rightarrow> nat \<Rightarrow> nat" where
  "prefix_bits v result =
     (if v AND 0x80 \<noteq> 0 then prefix_bits (push_bit 1 v) (result + 1) else result)"
  by auto
termination
proof (relation "measure (\<lambda>(v, _). card {i. bit v i})")
  fix v :: byte and result :: nat
  assume "v AND 0x80 \<noteq> 0"
  moreover have "(0x80 :: byte) = push_bit 7 1" by (simp add: push_bit_eq_mult)
  ultimately have "bit v 7"
    by (metis and_exp_eq_0_iff_not_bit push_bit_of_1)
  then show "((push_bit 1 v, result + 1), (v, result)) \<in> measure (\<lambda>(v, _). card {i. bit v i})"
    using shift_out_top_bit [of v] by simp
qed simp

declare prefix_bits.simps [simp del]

fun ipv4_prefix_loop :: "bytes \<Rightarrow> nat \<Rightarrow> nat" where
  "ipv4_prefix_loop [] result = result"
| "ipv4_prefix_loop (b # bs) result =
     (if b \<noteq> 0xFF then prefix_bits b result else ipv4_prefix_loop bs (result + 8))"

definition ipv4_prefix :: "IPv4Address \<Rightarrow> nat" where
  "ipv4_prefix addr = ipv4_prefix_loop addr 0"

definition decimal_digits_set :: string where
  "decimal_digits_set = ''0123456789''"

text \<open>The first three numbers; the position after the last dot, or none when the parse failed.\<close>

function alternateParse_loop :: "string \<Rightarrow> nat \<Rightarrow> nat \<Rightarrow> bytes \<Rightarrow> nat option \<times> bytes" where
  "alternateParse_loop s i sp addr =
     (if i < 3 then
        (case find_first_not_of s decimal_digits_set sp of
           None \<Rightarrow> (None, addr)
         | Some ep \<Rightarrow>
             if s ! ep \<noteq> CHR ''.'' then (None, addr)
             else (case (getAsInteger (str_slice s sp ep) 10 :: byte option) of
                     None \<Rightarrow> (None, addr)
                   | Some v \<Rightarrow> alternateParse_loop s (i + 1) (ep + 1) (addr[i := v])))
      else (Some sp, addr))"
  by pat_completeness auto
termination by (relation "measure (\<lambda>(s, i, sp, addr). 3 - i)") auto

declare alternateParse_loop.simps [simp del]

definition alternateParse :: "string \<Rightarrow> bytes \<Rightarrow> bool \<times> bytes" where
  "alternateParse s addr =
     (case alternateParse_loop s 0 0 addr of
        (None, addr) \<Rightarrow> (False, addr)
      | (Some sp, addr) \<Rightarrow>
          if find_first_not_of s decimal_digits_set sp \<noteq> None then (False, addr)
          else (case (getAsInteger (str_substr_npos s sp) 10 :: byte option) of
                  None \<Rightarrow> (False, addr)
                | Some v \<Rightarrow> (True, addr[3 := v])))"

type_synonym inet_pton = "string \<Rightarrow> bytes \<Rightarrow> int \<times> bytes"
type_synonym inet_ntop = "bytes \<Rightarrow> string option"

definition c_str :: "string \<Rightarrow> string" where
  "c_str s = takeWhile (\<lambda>c. c \<noteq> CHR 0x00) s"

definition ipv4_parse :: "nat \<Rightarrow> inet_pton \<Rightarrow> IPv4Address \<Rightarrow> string \<Rightarrow> bool \<times> IPv4Address" where
  "ipv4_parse kMaxAddrStrLen pton addr s =
     (if length s > kMaxAddrStrLen then (False, addr)
      else
        (let (result, addr) = pton (c_str s) addr in
         if result = 0 then alternateParse s addr else (result > 0, addr)))"

definition ipv4_toString :: "inet_ntop \<Rightarrow> IPv4Address \<Rightarrow> string" where
  "ipv4_toString ntop addr = (case ntop addr of None \<Rightarrow> ''<inet_ntop_error4>'' | Some r \<Rightarrow> r)"

section \<open>IPv6Address\<close>

type_synonym IPv6Address = bytes

definition ipv6_fromV4 :: "IPv4Address \<Rightarrow> IPv6Address" where
  "ipv6_fromV4 addr = replicate 10 0 @ [0xFF, 0xFF] @ addr"

definition ipv6_isV4Mapped :: "IPv6Address \<Rightarrow> bool" where
  "ipv6_isV4Mapped addr = (IsMemFilled (take 10 addr) 0 \<and> addr ! 10 = 0xFF \<and> addr ! 11 = 0xFF)"

definition ipv6_isLinkLocal :: "IPv6Address \<Rightarrow> bool" where
  "ipv6_isLinkLocal addr = (addr ! 0 = 0xFE \<and> addr ! 1 AND 0xC0 = 0x80)"

definition ipv6_toV4 :: "IPv6Address \<Rightarrow> IPv4Address" where
  "ipv6_toV4 addr = sub_bytes 12 4 addr"

definition ipv6_zone :: "IPv6Address \<Rightarrow> u32" where
  "ipv6_zone addr =
     (if \<not> ipv6_isLinkLocal addr then 0
      else
        (let lo = rd16 2 addr;
             hi = rd16 4 addr;
             x = ucast hi :: u32 in
         push_bit 16 x OR ucast lo))"

definition ipv6_setZone :: "u32 \<Rightarrow> IPv6Address \<Rightarrow> IPv6Address" where
  "ipv6_setZone zone addr =
     (let lo = ucast zone :: u16; hi = ucast (drop_bit 16 zone) :: u16 in
      wr16 4 hi (wr16 2 lo addr))"

definition parseIPv6Address :: "inet_pton \<Rightarrow> IPv6Address \<Rightarrow> string \<Rightarrow> bool \<times> IPv6Address" where
  "parseIPv6Address pton6 addr s = (let (result, addr) = pton6 (c_str s) addr in (result > 0, addr))"

definition parseIPv4Address ::
  "nat \<Rightarrow> inet_pton \<Rightarrow> IPv6Address \<Rightarrow> string \<Rightarrow> bool \<times> IPv6Address" where
  "parseIPv4Address kMax pton4 addr s =
     (case ipv4_parse kMax pton4 (replicate 4 0) s of
        (ok, v4) \<Rightarrow> if ok then (True, ipv6_fromV4 v4) else (False, addr))"

definition ipv6_parse ::
  "nat \<Rightarrow> inet_pton \<Rightarrow> inet_pton \<Rightarrow> IPv6Address \<Rightarrow> string \<Rightarrow> bool \<Rightarrow> bool \<times> IPv6Address" where
  "ipv6_parse kMax pton4 pton6 addr s parseIPv4 =
     (case str_find s CHR ''%'' 0 of
        Some pct \<Rightarrow>
          (let (ok, addr) = parseIPv6Address pton6 addr (take pct s) in
           if \<not> ok then (False, addr)
           else if \<not> ipv6_isLinkLocal addr then (False, addr)
           else
             (let zoneStr = drop (pct + 1) s in
              if zoneStr = [] then (False, addr)
              else (case (getAsInteger zoneStr 10 :: u32 option) of
                      None \<Rightarrow> (False, addr)
                    | Some zone \<Rightarrow> (True, ipv6_setZone zone addr))))
      | None \<Rightarrow>
          (let (ok, addr) = parseIPv6Address pton6 addr s in
           if ok then (True, addr)
           else if \<not> parseIPv4 then (False, addr)
           else parseIPv4Address kMax pton4 addr s))"

definition ipv6_outputV6 :: "inet_ntop \<Rightarrow> IPv6Address \<Rightarrow> string" where
  "ipv6_outputV6 ntop6 addr =
     (let my_zone = ipv6_zone addr;
          temp = (if my_zone \<noteq> 0 then ipv6_setZone 0 addr else addr) in
      case ntop6 temp of
        Some result \<Rightarrow> result @ (if my_zone \<noteq> 0 then CHR ''%'' # write_unsigned (unat my_zone) 0 else [])
      | None \<Rightarrow> ''<inet_ntop_error6>'')"

definition ipv6_toString :: "inet_ntop \<Rightarrow> inet_ntop \<Rightarrow> IPv6Address \<Rightarrow> string" where
  "ipv6_toString ntop4 ntop6 addr =
     (if ipv6_isV4Mapped addr then ipv4_toString ntop4 (ipv6_toV4 addr) else ipv6_outputV6 ntop6 addr)"

section \<open>IPv6Endpoint\<close>

record IPv6Endpoint =
  ep_addr :: IPv6Address
  ep_port :: u16

definition ep_clear :: "IPv6Endpoint \<Rightarrow> IPv6Endpoint" where
  "ep_clear ep = \<lparr>ep_addr = replicate 16 0, ep_port = 0\<rparr>"

text \<open>The address and the port text of an endpoint, none when the text has neither form.\<close>

definition ep_split :: "string \<Rightarrow> (string \<times> string) option" where
  "ep_split input =
     (if input ! 0 = CHR ''['' then
        (case str_find input CHR '']'' 0 of
           None \<Rightarrow> None
         | Some endBracket \<Rightarrow>
             (let addrStr = str_trim (str_substr input 1 (endBracket - 1));
                  restStr = ltrim (str_substr_npos input (endBracket + 1)) in
              if restStr = [] then None
              else if restStr ! 0 \<noteq> CHR '':'' \<and> restStr ! 0 \<noteq> CHR ''.'' then None
              else Some (addrStr, ltrim (str_substr_npos restStr 1))))
      else
        (let lastSeparator =
               (case str_rfind input CHR '':'' of
                  None \<Rightarrow> str_rfind input CHR ''.''
                | Some colon \<Rightarrow>
                    (case str_rfind input CHR ''.'' of
                       None \<Rightarrow> Some colon
                     | Some period \<Rightarrow> if period > colon then Some period else Some colon)) in
         case lastSeparator of
           None \<Rightarrow> Some ([], input)
         | Some sep \<Rightarrow> Some (rtrim (str_substr input 0 sep), ltrim (str_substr_npos input (sep + 1)))))"

definition ep_parse ::
  "nat \<Rightarrow> inet_pton \<Rightarrow> inet_pton \<Rightarrow> IPv6Endpoint \<Rightarrow> string \<Rightarrow> bool \<times> IPv6Endpoint" where
  "ep_parse kMax pton4 pton6 ep s =
     (let input = str_trim s in
      if input = [] then (False, ep)
      else (case ep_split input of
              None \<Rightarrow> (False, ep)
            | Some (addrStr, portStr) \<Rightarrow>
                if portStr = [] then (False, ep)
                else (case (getAsInteger portStr 10 :: u16 option) of
                        None \<Rightarrow> (False, ep)
                      | Some port \<Rightarrow>
                          if port = 0 then (False, ep)
                          else if addrStr = [] then
                            (True, ep\<lparr>ep_addr := replicate 16 0, ep_port := port\<rparr>)
                          else (case ipv6_parse kMax pton4 pton6 (ep_addr ep) addrStr True of
                                  (ok, addr) \<Rightarrow>
                                    if \<not> ok then (False, ep\<lparr>ep_addr := addr\<rparr>)
                                    else (True, ep\<lparr>ep_addr := addr, ep_port := port\<rparr>)))))"

definition ep_toString :: "inet_ntop \<Rightarrow> inet_ntop \<Rightarrow> IPv6Endpoint \<Rightarrow> string" where
  "ep_toString ntop4 ntop6 ep =
     (if ipv6_isV4Mapped (ep_addr ep) then ipv6_toString ntop4 ntop6 (ep_addr ep) @ '':''
      else CHR ''['' # ipv6_toString ntop4 ntop6 (ep_addr ep) @ '']:'') @
     write_unsigned (unat (ep_port ep)) 0"

section \<open>MAC addresses and datapath ids\<close>

lemma delimited_count:
  "\<not> isxdigit d \<Longrightarrow> HexDelimitedToRawData s n d = (k, out) \<Longrightarrow> 0 < k \<Longrightarrow> length out = k"
  using delimited_sound [of d n s "[]" k out] by (auto simp: HexDelimitedToRawData_def)

lemma strict_loop_count:
  "HexStrictToRawData_loop n s out = (k, bs) \<Longrightarrow> 0 < k \<Longrightarrow> length bs = k"
  by (induction n s out rule: HexStrictToRawData_loop.induct) (auto split: if_splits)

lemma not_xdigit_delimiters [simp]: "\<not> isxdigit CHR '':''" "\<not> isxdigit CHR ''-''"
  by code_simp+

lemma overwrite_all: "length ys = length xs \<Longrightarrow> overwrite 0 ys xs = ys"
  by (simp add: overwrite_def)

text \<open>The parsers never write past the end of the output buffer.\<close>

lemma delimited_bound:
  "HexDelimitedToRawData_loop d n s out = (k, bs) \<Longrightarrow> length out \<le> n \<Longrightarrow> length bs \<le> n"
  by (induction d n s out rule: HexDelimitedToRawData_loop.induct)
     (auto simp: Let_def not_le split: if_splits list.splits)

lemma strict_bound:
  "HexStrictToRawData_loop n s out = (k, bs) \<Longrightarrow> length out \<le> n \<Longrightarrow> length bs \<le> n"
  by (induction n s out rule: HexStrictToRawData_loop.induct) (auto simp: not_le split: if_splits)

lemma mac_parse_result:
  assumes "length raw = 6" "mac_parse raw s = (True, addr)"
  shows "length addr = 6 \<and> (\<forall>raw'. length raw' = 6 \<longrightarrow> mac_parse raw' s = (True, addr))"
proof -
  obtain n1 out1 where 1: "HexDelimitedToRawData s 6 CHR '':'' = (n1, out1)" by fastforce
  obtain n2 out2 where 2: "HexStrictToRawData s 6 = (n2, out2)" by fastforce
  obtain n3 out3 where 3: "HexDelimitedToRawData s 6 CHR ''-'' = (n3, out3)" by fastforce
  have l: "n1 = 6 \<Longrightarrow> length out1 = 6" "n2 = 6 \<Longrightarrow> length out2 = 6" "n3 = 6 \<Longrightarrow> length out3 = 6"
    using delimited_count [OF _ 1] delimited_count [OF _ 3] strict_loop_count [of 6 s "[]" n2 out2] 2
    by (simp_all add: HexStrictToRawData_def)
  have "length out1 \<le> 6" "length out2 \<le> 6"
    using delimited_bound [of _ 6 s "[]" n1 out1] strict_bound [of 6 s "[]" n2 out2] 1 2
    by (simp_all add: HexDelimitedToRawData_def HexStrictToRawData_def)
  with assms 1 2 3 l show ?thesis
    by (auto simp: mac_parse_def Let_def overwrite_all split: if_splits)
qed

lemma mac_parse_printed:
  assumes "length raw = 6" "length addr = 6"
  shows "mac_parse raw (mac_toString addr) = (True, addr)"
proof -
  have "addr \<noteq> []" using assms(2) by auto
  then show ?thesis
    using delimited_lowercase [of addr 6] assms by (simp add: mac_parse_def mac_toString_def overwrite_all)
qed

lemma length_RawDataToHex_loop: "length (RawDataToHex_loop data) = 2 * length data"
  by (induction data) simp_all

lemma delimited_plain_hex:
  assumes "length data = 6"
  shows "fst (HexDelimitedToRawData (RawDataToHex_loop data) 6 CHR '':'') \<noteq> 6"
proof -
  obtain b0 b1 bs where data: "data = b0 # b1 # bs"
    using assms by (cases data; cases "tl data") auto
  have "ToHexUpperCase (drop_bit 4 b1) \<noteq> CHR '':''" "ToHexUpperCase (b0 AND 0x0F) \<noteq> CHR '':''"
    using hex_nibbles not_xdigit_delimiters by metis+
  then show ?thesis
    by (simp add: data HexDelimitedToRawData_def)
qed

lemma mac_parse_plain:
  assumes "length raw = 6" "length addr = 6"
  shows "mac_parse raw (RawDataToHex addr) = (True, addr)"
proof -
  have hex: "RawDataToHex addr = RawDataToHex_loop addr"
    using assms by (simp add: RawDataToHex_def kTwoGigabytes_def)
  obtain k out where k: "HexDelimitedToRawData (RawDataToHex_loop addr) 6 CHR '':'' = (k, out)" by fastforce
  have "k \<noteq> 6" using delimited_plain_hex [OF assms(2)] k by simp
  moreover have "length out \<le> 6"
    using delimited_bound [of _ 6 _ "[]" k out] k by (simp add: HexDelimitedToRawData_def)
  ultimately show ?thesis
    using assms k strict_loop_hex [of "[]" addr 6]
    by (simp add: mac_parse_def hex length_RawDataToHex_loop HexStrictToRawData_def overwrite_all)
qed



lemma dpid_parse_printed:
  assumes "length raw = 8" "length dpid = 8"
  shows "dpid_parse raw (dpid_toString dpid) = (True, dpid)"
proof -
  have "dpid \<noteq> []" using assms(2) by auto
  then show ?thesis
    using delimited_lowercase [of dpid 8] assms by (simp add: dpid_parse_def dpid_toString_def overwrite_all)
qed

lemma dpid_parts:
  "length mac = 6 \<Longrightarrow> dpid_implementerDefined (dpid_make imp mac) = imp \<and> dpid_macAddress (dpid_make imp mac) = mac"
  by (simp add: dpid_implementerDefined_def dpid_macAddress_def dpid_make_def rd16_def sub_bytes_def)

section \<open>IPv4 masks\<close>

lemma ipv4_masks:
  "\<forall>p\<in>set [0..<33]. ipv4_prefix (ipv4_mask p) = p"
  by code_simp

lemma ipv4_mask_bytes:
  "\<forall>p\<in>set [0..<33]. let w = push_bit (32 - p) (mask p) :: u32 in
     ipv4_mask p = [ucast (drop_bit 24 w), ucast (drop_bit 16 w), ucast (drop_bit 8 w), ucast w]"
proof -
  have r: "replicate 2 x = [x, x]" "replicate 3 x = [x, x, x]" "replicate 4 x = [x, x, x, x]" for x :: byte
    by (simp_all add: numeral_eq_Suc)
  show ?thesis
    by (simp add: upt_conv_Cons ipv4_mask_def r mask_eq_decr_exp push_bit_eq_mult drop_bit_eq_div)
qed

text \<open>C20: A subnet mask and its prefix length determine each other: for every length up to 32 the
mask is the 32-bit number with that many leading one bits, and counting the leading ones of the mask
gives the length back.\<close>

theorem ipv4_mask_prefix:
  assumes "p \<le> 32"
  shows "ipv4_prefix (ipv4_mask p) = p \<and> ipv4_mask p = be32 (push_bit (32 - p) (mask p))"
proof -
  have "p \<in> set [0..<33]" using assms by simp
  with ipv4_masks ipv4_mask_bytes show ?thesis
    unfolding be32_def nat_be_4 Let_def by blast
qed

theorem ipv4_mask_prefix_witness:
  "ipv4_prefix (ipv4_mask 20) = 20 \<and> ipv4_mask 20 = be32 0xFFFFF000"
proof -
  have w: "push_bit (32 - 20) (mask 20) = (0xFFFFF000 :: u32)" by (simp add: mask_eq_decr_exp push_bit_eq_mult)
  have "(20 :: nat) \<le> 32" by simp
  from ipv4_mask_prefix [OF this, unfolded w] show ?thesis .
qed

section \<open>Dotted decimal text\<close>

definition octet :: "string \<Rightarrow> bool" where
  "octet g = (g \<noteq> [] \<and> list_all (\<lambda>c. c \<in> set decimal_digits_set) g \<and> digits_value 10 0 g < 256)"

definition octetByte :: "string \<Rightarrow> byte" where
  "octetByte g = of_nat (digits_value 10 0 g)"

definition dotted :: "string list \<Rightarrow> string" where
  "dotted gs = concat (map (\<lambda>g. g @ ''.'') gs)"

lemma digit_ok_10: "digit_ok 10 c \<longleftrightarrow> c \<in> set decimal_digits_set"
proof
  assume "c \<in> set decimal_digits_set"
  then show "digit_ok 10 c"
    by (auto simp: decimal_digits_set_def digit_ok_def CharVal_def less_eq_char_def)
next
  assume "digit_ok 10 c"
  then have "48 \<le> (of_char c :: nat) \<and> (of_char c :: nat) \<le> 57"
    by (auto simp: digit_ok_def CharVal_def less_eq_char_def simp del: of_char_eq_iff split: if_splits)
  then have "(of_char c :: nat) \<in> set [48..<58]" by (simp only: set_upt) simp
  moreover have "\<forall>n\<in>set [48..<58]. char_of n \<in> set decimal_digits_set" by code_simp
  ultimately have "char_of (of_char c :: nat) \<in> set decimal_digits_set" by blast
  then show "c \<in> set decimal_digits_set" by simp
qed

lemma getAsInteger_octet:
  "(getAsInteger g 10 :: byte option) = (if octet g then Some (octetByte g) else None)"
  by (simp add: getAsInteger_exact_aux octet_def octetByte_def digit_ok_10 [abs_def])

lemma scan_SomeD:
  "scan P i s = Some j \<Longrightarrow> \<exists>ds c t. s = ds @ c # t \<and> j = i + length ds \<and> list_all (\<lambda>c. \<not> P c) ds \<and> P c"
proof (induction s arbitrary: i)
  case (Cons c s)
  show ?case
  proof (cases "P c")
    case True
    with Cons.prems show ?thesis by (intro exI [of _ "[]"]) simp
  next
    case False
    with Cons.prems Cons.IH [of "Suc i"] obtain ds c' t where
      "s = ds @ c' # t" "j = Suc i + length ds" "list_all (\<lambda>c. \<not> P c) ds" "P c'" by auto
    with False show ?thesis by (intro exI [of _ "c # ds"]) simp
  qed
qed simp

lemma find_first_not_of_SomeD:
  assumes "find_first_not_of s D (length pre) = Some ep" and "s = pre @ rest"
  shows "\<exists>ds c t. rest = ds @ c # t \<and> ep = length pre + length ds \<and> list_all (\<lambda>c. c \<in> set D) ds \<and> c \<notin> set D"
  using assms scan_SomeD [of "\<lambda>c. c \<notin> set D" "length pre" rest ep]
  by (auto simp: find_first_not_of_def)

lemma alternateParse_loop_end: "3 \<le> i \<Longrightarrow> alternateParse_loop s i sp addr = (Some sp, addr)"
  by (subst alternateParse_loop.simps) simp

lemma alternateParse_loop_sound:
  "alternateParse_loop s i (length pre) addr = (Some sp, addr') \<Longrightarrow> s = pre @ rest \<Longrightarrow> i \<le> 3 \<Longrightarrow>
   length addr = 4 \<Longrightarrow>
   \<exists>gs rest'. length gs = 3 - i \<and> list_all octet gs \<and> rest = dotted gs @ rest' \<and>
     sp = length pre + length (dotted gs) \<and> addr' = take i addr @ map octetByte gs @ drop 3 addr"
proof (induction "3 - i" arbitrary: i pre rest addr)
  case 0
  then have "i = 3" by simp
  with 0 show ?case by (auto simp: alternateParse_loop_end dotted_def)
next
  case (Suc k)
  then have i: "i < 3" by simp
  with Suc.prems obtain ep v where ep: "find_first_not_of s decimal_digits_set (length pre) = Some ep"
    "s ! ep = CHR ''.''" "(getAsInteger (str_slice s (length pre) ep) 10 :: byte option) = Some v"
    and loop: "alternateParse_loop s (i + 1) (ep + 1) (addr[i := v]) = (Some sp, addr')"
    by (subst (asm) alternateParse_loop.simps) (auto split: option.splits if_splits)
  from find_first_not_of_SomeD [OF ep(1) Suc.prems(2)] obtain g c t where
    g: "rest = g @ c # t" "ep = length pre + length g" by blast
  have c: "c = CHR ''.''" using ep(2) g Suc.prems(2) by (simp add: nth_append)
  have oct: "octet g" "v = octetByte g"
    using ep(3) g Suc.prems(2) str_slice_run [of pre g "c # t"]
    by (auto simp: getAsInteger_octet split: if_splits)
  let ?pre = "pre @ g @ ''.''"
  have "ep + 1 = length ?pre" "s = ?pre @ t" using g c Suc.prems(2) by simp_all
  moreover have "k = 3 - (i + 1)" using Suc.hyps(2) by simp
  ultimately obtain gs rest' where
    gs: "length gs = 3 - (i + 1)" "list_all octet gs" "t = dotted gs @ rest'"
      "sp = length ?pre + length (dotted gs)" "addr' = take (i + 1) (addr[i := v]) @ map octetByte gs @ drop 3 (addr[i := v])"
    using Suc.hyps(1) [of "i + 1" ?pre "addr[i := v]" t] loop i Suc.prems(4)
    by (metis Suc_leI add.commute length_list_update plus_1_eq_Suc)
  have "take (i + 1) (addr[i := v]) = take i addr @ [v]"
    using i Suc.prems(4) by (simp add: take_Suc_conv_app_nth)
  with gs g c oct i show ?case
    by (intro exI [of _ "g # gs"] exI [of _ rest']) (simp add: dotted_def)
qed

lemma alternateParse_loop_complete:
  "length gs = 3 - i \<Longrightarrow> list_all octet gs \<Longrightarrow> i \<le> 3 \<Longrightarrow> length addr = 4 \<Longrightarrow>
   alternateParse_loop (pre @ dotted gs @ rest) i (length pre) addr =
     (Some (length pre + length (dotted gs)), take i addr @ map octetByte gs @ drop 3 addr)"
proof (induction gs arbitrary: i pre addr)
  case Nil
  then show ?case by (auto simp: alternateParse_loop_end dotted_def)
next
  case (Cons g gs)
  let ?s = "pre @ dotted (g # gs) @ rest"
  have s: "?s = pre @ g @ CHR ''.'' # dotted gs @ rest" by (simp add: dotted_def)
  have dot: "CHR ''.'' \<notin> set decimal_digits_set" by code_simp
  have g: "octet g" "list_all (\<lambda>c. c \<in> set decimal_digits_set) g" using Cons.prems by (simp_all add: octet_def)
  have i: "i < 3" using Cons.prems by simp
  have "alternateParse_loop ?s i (length pre) addr =
      alternateParse_loop ?s (i + 1) (length pre + length g + 1) (addr[i := octetByte g])"
    unfolding s using i g dot str_slice_run [of pre g "CHR ''.'' # dotted gs @ rest"]
    by (subst alternateParse_loop.simps) (simp add: find_first_not_of_run getAsInteger_octet nth_append)
  also have "\<dots> = (Some (length (pre @ g @ ''.'') + length (dotted gs)),
      take (i + 1) (addr[i := octetByte g]) @ map octetByte gs @ drop 3 (addr[i := octetByte g]))"
    using Cons.IH [of "i + 1" "addr[i := octetByte g]" "pre @ g @ ''.''"] Cons.prems i
    by (simp add: s)
  also have "take (i + 1) (addr[i := octetByte g]) = take i addr @ [octetByte g]"
    using i Cons.prems(4) by (simp add: take_Suc_conv_app_nth)
  finally show ?case
    using i by (simp add: dotted_def)
qed

lemma alternateParse_complete:
  assumes "length addr = 4" "list_all octet [g0, g1, g2, g3]"
  shows "alternateParse (g0 @ ''.'' @ g1 @ ''.'' @ g2 @ ''.'' @ g3) addr = (True, map octetByte [g0, g1, g2, g3])"
proof -
  let ?s = "g0 @ ''.'' @ g1 @ ''.'' @ g2 @ ''.'' @ g3"
  have s: "?s = dotted [g0, g1, g2] @ g3" by (simp add: dotted_def)
  have "alternateParse_loop ?s 0 0 addr =
      (Some (length (dotted [g0, g1, g2])), map octetByte [g0, g1, g2] @ drop 3 addr)"
    unfolding s using alternateParse_loop_complete [of "[g0, g1, g2]" 0 addr "[]" g3] assms by simp
  moreover have "find_first_not_of ?s decimal_digits_set (length (dotted [g0, g1, g2])) = None"
    unfolding s using assms find_first_not_of_none [of decimal_digits_set g3] by (simp add: octet_def)
  moreover have "str_substr_npos ?s (length (dotted [g0, g1, g2])) = g3"
    unfolding s by (simp add: str_substr_npos_def)
  moreover obtain a where "drop 3 addr = [a]"
    using assms by (auto simp: length_Suc_conv numeral_eq_Suc)
  ultimately show ?thesis
    using assms by (simp add: alternateParse_def getAsInteger_octet)
qed

text \<open>C21: The fallback parser for IPv4 text accepts exactly dotted decimal text: four non-empty
numbers below 256, leading zeros allowed, separated by dots; and then it yields their values.\<close>

theorem alternateParse_dotted:
  assumes "length addr = 4"
  shows "alternateParse s addr = (True, addr') \<longleftrightarrow>
    (\<exists>g0 g1 g2 g3. s = g0 @ ''.'' @ g1 @ ''.'' @ g2 @ ''.'' @ g3 \<and> list_all octet [g0, g1, g2, g3] \<and>
       addr' = map octetByte [g0, g1, g2, g3])"
proof
  assume parse: "alternateParse s addr = (True, addr')"
  then obtain sp addr1 where loop: "alternateParse_loop s 0 0 addr = (Some sp, addr1)"
    by (auto simp: alternateParse_def split: option.splits prod.splits)
  with alternateParse_loop_sound [of s 0 "[]" addr sp addr1 s] assms obtain gs rest where
    gs: "length gs = 3" "list_all octet gs" "s = dotted gs @ rest" "sp = length (dotted gs)"
      "addr1 = map octetByte gs @ drop 3 addr" by auto
  then have "str_substr_npos s sp = rest" by (simp add: str_substr_npos_def)
  with parse loop obtain v where "octet rest" "addr' = addr1[3 := octetByte rest]"
    by (auto simp: alternateParse_def getAsInteger_octet split: option.splits if_splits)
  moreover obtain g0 g1 g2 where "gs = [g0, g1, g2]"
    using gs(1) by (auto simp: numeral_3_eq_3 length_Suc_conv)
  moreover obtain a where "drop 3 addr = [a]"
    using assms by (auto simp: length_Suc_conv numeral_eq_Suc)
  ultimately show "\<exists>g0 g1 g2 g3. s = g0 @ ''.'' @ g1 @ ''.'' @ g2 @ ''.'' @ g3 \<and>
      list_all octet [g0, g1, g2, g3] \<and> addr' = map octetByte [g0, g1, g2, g3]"
    using gs by (intro exI [of _ g0] exI [of _ g1] exI [of _ g2] exI [of _ rest]) (simp add: dotted_def)
next
  assume "\<exists>g0 g1 g2 g3. s = g0 @ ''.'' @ g1 @ ''.'' @ g2 @ ''.'' @ g3 \<and>
      list_all octet [g0, g1, g2, g3] \<and> addr' = map octetByte [g0, g1, g2, g3]"
  then show "alternateParse s addr = (True, addr')"
    using alternateParse_complete [OF assms] by blast
qed

theorem alternateParse_dotted_witness:
  "alternateParse ''127.000.000.001'' [9, 9, 9, 9] = (True, [127, 0, 0, 1])"
proof -
  have oct: "list_all octet [''127'', ''000'', ''000'', ''001'']"
    "map octetByte [''127'', ''000'', ''000'', ''001''] = [127, 0, 0, 1]"
    by code_simp+
  have joined: "''127.000.000.001'' = ''127'' @ ''.'' @ ''000'' @ ''.'' @ ''000'' @ ''.'' @ ''001''" by simp
  have "length [9, 9, 9, 9 :: byte] = 4" by simp
  from alternateParse_dotted [OF this, of "''127.000.000.001''" "[127, 0, 0, 1]"] joined oct
  show ?thesis by metis
qed

section \<open>IPv6 text\<close>

text \<open>What the code relies on of the system functions, as POSIX documents them: \<^verbatim>\<open>inet_ntop\<close> yields
the usual notation and \<^verbatim>\<open>inet_pton\<close> reads it back (return code 1); IPv6 text without a colon is
rejected (return code 0 or less).\<close>

definition v4_chars :: "char set" where
  "v4_chars = set ''0123456789.''"

definition v6_chars :: "char set" where
  "v6_chars = set ''0123456789abcdef:.''"

definition inet4_contract :: "nat \<Rightarrow> inet_pton \<Rightarrow> inet_ntop \<Rightarrow> bool" where
  "inet4_contract kMaxAddrStrLen pton ntop \<longleftrightarrow>
     16 \<le> kMaxAddrStrLen \<and>
     (\<forall>a. length a = 4 \<longrightarrow>
        (\<exists>t. ntop a = Some t \<and> t \<noteq> [] \<and> length t < 16 \<and> set t \<subseteq> v4_chars \<and>
             (\<forall>old. length old = 4 \<longrightarrow> pton t old = (1, a))))"

definition inet6_contract :: "inet_pton \<Rightarrow> inet_ntop \<Rightarrow> bool" where
  "inet6_contract pton ntop \<longleftrightarrow>
     (\<forall>a. length a = 16 \<longrightarrow>
        (\<exists>t. ntop a = Some t \<and> t \<noteq> [] \<and> set t \<subseteq> v6_chars \<and>
             (\<forall>old. length old = 16 \<longrightarrow> pton t old = (1, a)))) \<and>
     (\<forall>t old. CHR '':'' \<notin> set t \<longrightarrow> fst (pton t old) \<le> 0)"

lemma nth_wr16:
  "i < q \<Longrightarrow> q + 2 \<le> length xs \<Longrightarrow> wr16 q v xs ! i = xs ! i"
  by (simp add: wr16_def nth_overwrite)

lemma wr16_wr16: "q + 2 \<le> length xs \<Longrightarrow> wr16 q v (wr16 q u xs) = wr16 q v xs"
  by (simp add: wr16_def overwrite_overwrite)

lemma wr16_swap: "p + 2 \<le> q \<Longrightarrow> q + 2 \<le> length xs \<Longrightarrow> wr16 p u (wr16 q v xs) = wr16 q v (wr16 p u xs)"
  unfolding wr16_def by (rule overwrite_commute) simp_all

lemma zone_halves:
  fixes lo hi :: u16 and z :: u32
  shows "ucast (push_bit 16 (ucast hi :: u32) OR ucast lo) = lo"
    and "ucast (drop_bit 16 (push_bit 16 (ucast hi :: u32) OR ucast lo)) = hi"
    and "push_bit 16 (ucast (ucast (drop_bit 16 z) :: u16)) OR ucast (ucast z :: u16) = z"
  by (rule bit_word_eqI; auto simp: bit_simps dest: bit_imp_le_length; fail)+

lemma isLinkLocal_setZone [simp]:
  "length addr = 16 \<Longrightarrow> ipv6_isLinkLocal (ipv6_setZone z addr) = ipv6_isLinkLocal addr"
  by (simp add: ipv6_isLinkLocal_def ipv6_setZone_def Let_def nth_wr16)

lemma length_setZone [simp]: "length addr = 16 \<Longrightarrow> length (ipv6_setZone z addr) = 16"
  by (simp add: ipv6_setZone_def Let_def)

lemma setZone_setZone: "length addr = 16 \<Longrightarrow> ipv6_setZone z (ipv6_setZone z' addr) = ipv6_setZone z addr"
  by (simp add: ipv6_setZone_def Let_def wr16_swap [of 2 4] wr16_wr16)

lemma setZone_zone: "length addr = 16 \<Longrightarrow> ipv6_isLinkLocal addr \<Longrightarrow> ipv6_setZone (ipv6_zone addr) addr = addr"
proof -
  assume len: "length addr = 16" and "ipv6_isLinkLocal addr"
  then have z: "ipv6_zone addr = push_bit 16 (ucast (rd16 4 addr)) OR ucast (rd16 2 addr)"
    by (simp add: ipv6_zone_def)
  show ?thesis
    unfolding ipv6_setZone_def Let_def z zone_halves using len by (simp add: wr16_rd16)
qed

lemma zone_setZone:
  "length addr = 16 \<Longrightarrow> ipv6_isLinkLocal addr \<Longrightarrow> ipv6_zone (ipv6_setZone z addr) = z"
  using isLinkLocal_setZone [of addr z]
  by (simp add: ipv6_zone_def) (simp add: ipv6_setZone_def Let_def rd16_wr16_other zone_halves)

lemma fromV4_toV4: "length addr = 16 \<Longrightarrow> ipv6_isV4Mapped addr \<Longrightarrow> ipv6_fromV4 (ipv6_toV4 addr) = addr"
proof -
  assume len: "length addr = 16" and map: "ipv6_isV4Mapped addr"
  have "take 10 addr = replicate 10 0" using map len by (simp add: ipv6_isV4Mapped_def IsMemFilled_iff)
  moreover have "drop 10 addr = addr ! 10 # addr ! 11 # drop 12 addr"
    using len Cons_nth_drop_Suc [of 10 addr] Cons_nth_drop_Suc [of 11 addr] by simp
  moreover have "take 4 (drop 12 addr) = drop 12 addr" using len by simp
  ultimately show ?thesis
    using map len append_take_drop_id [of 10 addr]
    by (simp add: ipv6_fromV4_def ipv6_toV4_def ipv6_isV4Mapped_def sub_bytes_def)
qed

lemma text_chars:
  "CHR ''%'' \<notin> v4_chars" "CHR 0x00 \<notin> v4_chars" "CHR '':'' \<notin> v4_chars" "CHR ''%'' \<notin> v6_chars"
  "CHR 0x00 \<notin> v6_chars" "v4_chars \<subseteq> v6_chars" "set decimal_digits_set \<subseteq> v4_chars"
  by (simp_all add: v4_chars_def v6_chars_def decimal_digits_set_def)

lemma c_str_id: "CHR 0x00 \<notin> set s \<Longrightarrow> c_str s = s"
  by (auto simp: c_str_def takeWhile_eq_all_conv)

lemma ipv6_parse_mapped:
  assumes "inet4_contract kMax pton4 ntop4" "inet6_contract pton6 ntop6"
    and "length addr = 16" "ipv6_isV4Mapped addr"
  shows "ipv6_parse kMax pton4 pton6 old (ipv6_toString ntop4 ntop6 addr) True = (True, addr)"
proof -
  have "length (ipv6_toV4 addr) = 4" using assms(3) by (simp add: ipv6_toV4_def)
  with assms(1) obtain t where t: "ntop4 (ipv6_toV4 addr) = Some t" "length t < 16"
    "set t \<subseteq> v4_chars" "\<forall>old. length old = 4 \<longrightarrow> pton4 t old = (1, ipv6_toV4 addr)" "16 \<le> kMax"
    unfolding inet4_contract_def by blast
  have no: "CHR ''%'' \<notin> set t" "CHR 0x00 \<notin> set t" "CHR '':'' \<notin> set t"
    using t(3) text_chars by blast+
  have fail: "fst (pton6 t old) \<le> 0" using assms(2) no(3) by (auto simp: inet6_contract_def)
  have "ipv4_parse kMax pton4 (replicate 4 0) t = (True, ipv6_toV4 addr)"
    using t by (simp add: ipv4_parse_def c_str_id no)
  then show ?thesis
    using t(1) fail assms(3,4)
    by (cases "pton6 t old")
       (simp add: ipv6_toString_def ipv4_toString_def ipv6_parse_def str_find_none no parseIPv6Address_def
        c_str_id parseIPv4Address_def fromV4_toV4)
qed

lemma ipv6_parse_v6:
  assumes c: "inet6_contract pton6 ntop6" and len: "length addr = 16" "length old = 16"
    and "\<not> ipv6_isV4Mapped addr"
  shows "ipv6_parse kMax pton4 pton6 old (ipv6_toString ntop4 ntop6 addr) True = (True, addr)"
proof (cases "ipv6_zone addr = 0")
  case True
  from c len obtain t where t: "ntop6 addr = Some t" "set t \<subseteq> v6_chars"
    "pton6 t old = (1, addr)" unfolding inet6_contract_def by blast
  then have "CHR ''%'' \<notin> set t" "CHR 0x00 \<notin> set t" using text_chars by blast+
  with t True assms(4) show ?thesis
    by (simp add: ipv6_toString_def ipv6_outputV6_def ipv6_parse_def str_find_none parseIPv6Address_def c_str_id)
next
  case False
  then have ll: "ipv6_isLinkLocal addr" by (metis ipv6_zone_def)
  let ?temp = "ipv6_setZone 0 addr" and ?z = "ipv6_zone addr"
  have "length ?temp = 16" using len by simp
  with c len obtain t where t: "ntop6 ?temp = Some t" "set t \<subseteq> v6_chars"
    "pton6 t old = (1, ?temp)" unfolding inet6_contract_def by blast
  then have no: "CHR ''%'' \<notin> set t" "CHR 0x00 \<notin> set t" using text_chars by blast+
  let ?d = "write_unsigned (unat ?z) 0"
  have s: "ipv6_toString ntop4 ntop6 addr = t @ CHR ''%'' # ?d"
    using False assms(4) t(1) by (simp add: ipv6_toString_def ipv6_outputV6_def Let_def)
  have d: "?d \<noteq> []" "getAsInteger ?d 10 = Some ?z"
    by (simp_all add: write_unsigned_digits getAsInteger_write_unsigned)
  have "ipv6_setZone ?z ?temp = addr"
    using ll len by (simp add: setZone_setZone setZone_zone)
  then show ?thesis
    unfolding s using no t(3) ll len d
    by (simp add: ipv6_parse_def str_find_run parseIPv6Address_def c_str_id)
qed

lemma write_unsigned_chars: "set (write_unsigned n k) \<subseteq> v4_chars"
proof -
  have "set (write_unsigned n k) \<subseteq> set decimal_digits_set"
    using write_unsigned_digits(3) [of n k] by (auto simp: digit_ok_10 list_all_iff)
  then show ?thesis using text_chars by blast
qed

lemma ipv6_text:
  assumes "inet4_contract kMax pton4 ntop4" "inet6_contract pton6 ntop6" "length addr = 16"
  shows "ipv6_toString ntop4 ntop6 addr \<noteq> []"
    "set (ipv6_toString ntop4 ntop6 addr) \<subseteq> insert CHR ''%'' v6_chars"
    "ipv6_isV4Mapped addr \<Longrightarrow> set (ipv6_toString ntop4 ntop6 addr) \<subseteq> v4_chars"
proof -
  have "length (ipv6_toV4 addr) = 4" using assms(3) by (simp add: ipv6_toV4_def)
  with assms(1) obtain t4 where t4: "ntop4 (ipv6_toV4 addr) = Some t4" "t4 \<noteq> []" "set t4 \<subseteq> v4_chars"
    unfolding inet4_contract_def by blast
  let ?temp = "if ipv6_zone addr \<noteq> 0 then ipv6_setZone 0 addr else addr"
  have "length ?temp = 16" using assms(3) by simp
  with assms(2) obtain t6 where t6: "ntop6 ?temp = Some t6" "t6 \<noteq> []" "set t6 \<subseteq> v6_chars"
    unfolding inet6_contract_def by blast
  let ?z = "if ipv6_zone addr \<noteq> 0 then CHR ''%'' # write_unsigned (unat (ipv6_zone addr)) 0 else []"
  have six: "ipv6_outputV6 ntop6 addr = t6 @ ?z"
    using t6(1) by (simp add: ipv6_outputV6_def Let_def)
  have z: "set ?z \<subseteq> insert CHR ''%'' v6_chars"
    using write_unsigned_chars [of "unat (ipv6_zone addr)" 0] text_chars(6) by auto
  show "ipv6_toString ntop4 ntop6 addr \<noteq> []"
    using t4 t6 by (simp add: ipv6_toString_def ipv4_toString_def six)
  show "set (ipv6_toString ntop4 ntop6 addr) \<subseteq> insert CHR ''%'' v6_chars"
    unfolding ipv6_toString_def ipv4_toString_def six t4(1) option.case set_append
    using t4(3) t6(3) z text_chars(6) by (cases "ipv6_isV4Mapped addr") (simp_all only: if_True if_False set_append, blast+)
  show "ipv6_isV4Mapped addr \<Longrightarrow> set (ipv6_toString ntop4 ntop6 addr) \<subseteq> v4_chars"
    using t4 by (simp add: ipv6_toString_def ipv4_toString_def)
qed

section \<open>Endpoints\<close>

lemma rscan_less: "rscan P s n = Some i \<Longrightarrow> i < n"
  by (induction n) (auto split: if_splits)

lemma substr_front [simp]: "str_substr (t @ u) 0 (length t) = t"
  by (simp add: str_substr_def)

lemma substr_npos_after [simp]: "str_substr_npos (t @ c # u) (Suc (length t)) = u"
  by (simp add: str_substr_npos_def)

lemma ep_split_plain:
  assumes "t \<noteq> []" "hd t \<noteq> CHR ''[''" "last t \<notin> set white_space"
    and "d \<noteq> []" "hd d \<notin> set white_space" "CHR '':'' \<notin> set d" "CHR ''.'' \<notin> set d"
  shows "ep_split (t @ CHR '':'' # d) = Some (t, d)"
proof -
  let ?s = "t @ CHR '':'' # d"
  have "?s ! 0 = hd t" using assms(1) by (simp add: nth_append hd_conv_nth)
  moreover have colon: "str_rfind ?s CHR '':'' = Some (length t)"
    using assms(6) by (rule str_rfind_run)
  moreover have "str_rfind ?s CHR ''.'' = rscan (\<lambda>c. c = CHR ''.'') t (length t)"
    using rscan_skip [OF notin_list_all, of "CHR ''.''" "CHR '':'' # d" t] assms(7)
    by (simp add: str_rfind_def)
  moreover have "p < length t" if "rscan (\<lambda>c. c = CHR ''.'') t (length t) = Some p" for p
    using that by (rule rscan_less)
  ultimately show ?thesis
    using assms by (auto simp: ep_split_def rtrim_id ltrim_id split: option.splits)
qed

lemma ep_split_bracket:
  assumes "t \<noteq> []" "hd t \<notin> set white_space" "last t \<notin> set white_space" "CHR '']'' \<notin> set t"
    and "d \<noteq> []" "hd d \<notin> set white_space"
  shows "ep_split (CHR ''['' # t @ CHR '']'' # CHR '':'' # d) = Some (t, d)"
proof -
  let ?s = "CHR ''['' # t @ CHR '']'' # CHR '':'' # d"
  have "str_find ?s CHR '']'' 0 = Some (Suc (length t))"
    using str_find_run [of "CHR '']''" "CHR ''['' # t" "CHR '':'' # d"] assms(4) by simp
  moreover have "str_substr ?s 1 (length t) = t"
    by (simp add: str_substr_def)
  moreover have "str_substr_npos ?s (Suc (Suc (length t))) = CHR '':'' # d"
    using substr_npos_after [of "CHR ''['' # t" "CHR '']''" "CHR '':'' # d"] by simp
  moreover have "ltrim (CHR '':'' # d) = CHR '':'' # d"
    by (rule ltrim_id) (simp_all add: white_space_def)
  moreover have "str_substr_npos (CHR '':'' # d) 1 = d"
    using substr_npos_after [of "[]" "CHR '':''" d] by simp
  ultimately show ?thesis
    using assms by (simp add: ep_split_def str_trim_id ltrim_id)
qed

lemma address_chars:
  "c \<in> insert CHR ''%'' v6_chars \<Longrightarrow> c \<notin> set white_space \<and> c \<noteq> CHR '']'' \<and> c \<noteq> CHR ''[''"
  by (auto simp: v6_chars_def white_space_def)

text \<open>C22: Address and endpoint text round trips. With \<^verbatim>\<open>inet_pton\<close> and \<^verbatim>\<open>inet_ntop\<close> behaving as
documented, parsing the printed form of any IPv6 address (IPv4-mapped, link-local with a zone, or
other) gives the address, and parsing the printed form of any endpoint with a non-zero port gives the
endpoint, whatever the parsed-into object held before.\<close>

theorem endpoint_round_trip:
  assumes "inet4_contract kMax pton4 ntop4" and "inet6_contract pton6 ntop6"
    and "length (ep_addr ep) = 16" and "ep_port ep \<noteq> 0" and "length (ep_addr old) = 16"
  shows "ipv6_parse kMax pton4 pton6 (ep_addr old) (ipv6_toString ntop4 ntop6 (ep_addr ep)) True =
           (True, ep_addr ep) \<and>
         ep_parse kMax pton4 pton6 old (ep_toString ntop4 ntop6 ep) = (True, ep)"
proof -
  let ?t = "ipv6_toString ntop4 ntop6 (ep_addr ep)" and ?d = "write_unsigned (unat (ep_port ep)) 0"
  have addr: "ipv6_parse kMax pton4 pton6 (ep_addr old) ?t True = (True, ep_addr ep)"
    using assms ipv6_parse_mapped ipv6_parse_v6 by (cases "ipv6_isV4Mapped (ep_addr ep)") blast+
  note t = ipv6_text [OF assms(1,2,3)]
  have d: "?d \<noteq> []" "getAsInteger ?d 10 = Some (ep_port ep)"
    by (simp_all add: write_unsigned_digits getAsInteger_write_unsigned)
  have dd: "c \<in> set decimal_digits_set" if "c \<in> set ?d" for c
    using that write_unsigned_digits(3) [of "unat (ep_port ep)" 0] by (auto simp: digit_ok_10 list_all_iff)
  have ws: "c \<notin> set white_space \<and> c \<noteq> CHR '':'' \<and> c \<noteq> CHR ''.''" if "c \<in> set decimal_digits_set" for c
    using that by (auto simp: decimal_digits_set_def white_space_def)
  have ends: "hd ?t \<in> set ?t" "last ?t \<in> set ?t" "hd ?d \<in> set ?d" "last ?d \<in> set ?d"
    using t(1) d(1) by simp_all
  have tc: "c \<notin> set white_space \<and> c \<noteq> CHR '']'' \<and> c \<noteq> CHR ''[''" if "c \<in> set ?t" for c
    using that t(2) address_chars by blast
  show ?thesis
  proof (cases "ipv6_isV4Mapped (ep_addr ep)")
    case True
    have "ep_split (?t @ CHR '':'' # ?d) = Some (?t, ?d)"
      by (rule ep_split_plain) (use t(1) d(1) tc ends dd ws in blast)+
    moreover have "str_trim (?t @ CHR '':'' # ?d) = ?t @ CHR '':'' # ?d"
      by (rule str_trim_id) (use t(1) d(1) tc ends dd ws in simp_all)
    ultimately show ?thesis
      using True addr d assms(4) t(1) by (simp add: ep_toString_def ep_parse_def)
  next
    case False
    let ?s = "CHR ''['' # ?t @ CHR '']'' # CHR '':'' # ?d"
    have "ep_split ?s = Some (?t, ?d)"
      by (rule ep_split_bracket) (use t(1) d(1) tc ends dd ws in blast)+
    moreover have "str_trim ?s = ?s"
      by (rule str_trim_id) (use d(1) ends dd ws in \<open>simp_all add: white_space_def\<close>)
    ultimately show ?thesis
      using False addr d assms(4) t(1) by (simp add: ep_toString_def ep_parse_def)
  qed
qed


text \<open>Concrete system functions that satisfy the contracts: dotted decimal for IPv4, and for IPv6
the sixteen bytes in hexadecimal separated by colons.\<close>

definition sample_ntop4 :: inet_ntop where
  "sample_ntop4 a = Some (write_unsigned (unat (a ! 0)) 0 @ ''.'' @ write_unsigned (unat (a ! 1)) 0 @ ''.'' @
     write_unsigned (unat (a ! 2)) 0 @ ''.'' @ write_unsigned (unat (a ! 3)) 0)"

definition sample_pton4 :: inet_pton where
  "sample_pton4 t old = (case alternateParse t old of (ok, a) \<Rightarrow> if ok then (1, a) else (0, old))"

definition sample_ntop6 :: inet_ntop where
  "sample_ntop6 a = Some (RawDataToHexDelimitedLowercase a)"

definition sample_pton6 :: inet_pton where
  "sample_pton6 t old =
     (case HexDelimitedToRawData t 16 CHR '':'' of (n, out) \<Rightarrow> if n = 16 then (1, out) else (0, old))"

lemma length_write_byte: "n < 1000 \<Longrightarrow> length (write_unsigned n 0) \<le> 3"
  unfolding write_unsigned_def
  by (subst format_to_buffer.simps, subst format_to_buffer.simps, subst format_to_buffer.simps)
     (auto simp: Let_def)

lemma octet_write: "octet (write_unsigned (unat b) 0)" "octetByte (write_unsigned (unat b) 0) = (b :: byte)"
proof -
  have "unat b < 256" by (rule unat_byte_bound)
  moreover have "list_all (\<lambda>c. c \<in> set decimal_digits_set) (write_unsigned (unat b) 0)"
    using write_unsigned_digits(3) [of "unat b" 0] by (simp add: digit_ok_10 [abs_def])
  ultimately show "octet (write_unsigned (unat b) 0)" "octetByte (write_unsigned (unat b) 0) = b"
    by (simp_all add: octet_def octetByte_def write_unsigned_digits)
qed

lemma sample_inet4: "inet4_contract 16 sample_pton4 sample_ntop4"
  unfolding inet4_contract_def
proof (intro conjI allI impI)
  fix a :: bytes
  assume "length a = 4"
  then obtain b0 b1 b2 b3 where a: "a = [b0, b1, b2, b3]"
    by (auto simp: length_Suc_conv numeral_eq_Suc)
  let ?t = "write_unsigned (unat b0) 0 @ ''.'' @ write_unsigned (unat b1) 0 @ ''.'' @
     write_unsigned (unat b2) 0 @ ''.'' @ write_unsigned (unat b3) 0"
  have len: "length (write_unsigned (unat b) 0) \<le> 3" for b :: byte
    using length_write_byte [of "unat b"] unat_byte_bound [of b] by simp
  have "sample_pton4 ?t old = (1, a)" if "length old = 4" for old
    using alternateParse_complete [OF that] octet_write by (simp add: sample_pton4_def a)
  moreover have "length ?t < 16" using len [of b0] len [of b1] len [of b2] len [of b3] by simp
  moreover have "CHR ''.'' \<in> v4_chars" by (simp add: v4_chars_def)
  then have "set ?t \<subseteq> v4_chars" using write_unsigned_chars by simp
  ultimately show "\<exists>t. sample_ntop4 a = Some t \<and> t \<noteq> [] \<and> length t < 16 \<and> set t \<subseteq> v4_chars \<and>
      (\<forall>old. length old = 4 \<longrightarrow> sample_pton4 t old = (1, a))"
    by (intro exI [of _ ?t]) (simp add: sample_ntop4_def a)
qed simp

lemma joinGroups_delim: "2 \<le> length gs \<Longrightarrow> d \<in> set (joinGroups d gs)"
  by (cases "(d, gs)" rule: joinGroups.cases) simp_all

lemma lowercase_chars: "set (RawDataToHexDelimitedLowercase_rest data) \<subseteq> v6_chars"
proof (induction data)
  case (Cons e es)
  have len: "length HexDigitsLowerCase = 16" by (simp add: HexDigitsLowerCase_def)
  have "CHR '':'' \<in> v6_chars" "set HexDigitsLowerCase \<subseteq> v6_chars"
    by (auto simp: v6_chars_def HexDigitsLowerCase_def)
  moreover have "ToHexLowerCase (drop_bit 4 e) \<in> set HexDigitsLowerCase" "ToHexLowerCase (e AND 0x0F) \<in> set HexDigitsLowerCase"
    unfolding ToHexLowerCase_def using nibble_less [of e] len by (simp_all only: nth_mem)
  ultimately show ?case using Cons by auto
qed simp

lemma sample_inet6: "inet6_contract sample_pton6 sample_ntop6"
  unfolding inet6_contract_def
proof (intro conjI allI impI)
  fix a :: bytes
  assume len: "length a = 16"
  then have ne: "a \<noteq> []" by auto
  then have "set (RawDataToHexDelimitedLowercase a) \<subseteq> set (RawDataToHexDelimitedLowercase_rest a)"
    by (cases a) (auto simp: RawDataToHexDelimitedLowercase_def)
  then have "set (RawDataToHexDelimitedLowercase a) \<subseteq> v6_chars" using lowercase_chars by blast
  moreover have "RawDataToHexDelimitedLowercase a \<noteq> []" by (simp add: RawDataToHexDelimitedLowercase_def)
  moreover have "sample_pton6 (RawDataToHexDelimitedLowercase a) old = (1, a)" for old
    using delimited_lowercase [OF ne, of 16] len by (simp add: sample_pton6_def)
  ultimately show "\<exists>t. sample_ntop6 a = Some t \<and> t \<noteq> [] \<and> set t \<subseteq> v6_chars \<and>
      (\<forall>old. length old = 16 \<longrightarrow> sample_pton6 t old = (1, a))"
    by (simp add: sample_ntop6_def)
next
  fix t :: string and old :: bytes
  assume colon: "CHR '':'' \<notin> set t"
  obtain n out where r: "HexDelimitedToRawData t 16 CHR '':'' = (n, out)" by fastforce
  have "n \<noteq> 16"
  proof
    assume "n = 16"
    with delimited_sound [of "CHR '':''" 16 t "[]" n out] r obtain gs where
      "length gs = 16" "t = joinGroups CHR '':'' gs" by (auto simp: HexDelimitedToRawData_def)
    then show False using joinGroups_delim [of gs "CHR '':''"] colon by simp
  qed
  then show "fst (sample_pton6 t old) \<le> 0" by (simp add: sample_pton6_def r)
qed

theorem endpoint_round_trip_witness:
  "ipv6_parse 16 sample_pton4 sample_pton6 (replicate 16 0)
     (ipv6_toString sample_ntop4 sample_ntop6 (0xFE # 0x80 # replicate 13 0 @ [1])) True =
     (True, 0xFE # 0x80 # replicate 13 0 @ [1]) \<and>
   ep_parse 16 sample_pton4 sample_pton6 \<lparr>ep_addr = replicate 16 0, ep_port = 0\<rparr>
     (ep_toString sample_ntop4 sample_ntop6 \<lparr>ep_addr = 0xFE # 0x80 # replicate 13 0 @ [1], ep_port = 6633\<rparr>) =
     (True, \<lparr>ep_addr = 0xFE # 0x80 # replicate 13 0 @ [1], ep_port = 6633\<rparr>)"
  using endpoint_round_trip [OF sample_inet4 sample_inet6,
      of "\<lparr>ep_addr = 0xFE # 0x80 # replicate 13 0 @ [1], ep_port = 6633\<rparr>"
         "\<lparr>ep_addr = replicate 16 0, ep_port = 0\<rparr>"]
  by simp

end
