(* ===== verification/Validation.thy ===== *)
theory Validation
  imports Wire "HOL-Library.Code_Target_Nat"
begin

text \<open>
  Checking of received messages (\<^verbatim>\<open>include/ofp/validation.h\<close>, \<^verbatim>\<open>src/ofp/validation.cpp\<close>,
  \<^verbatim>\<open>include/ofp/byterange.h\<close>). A message is a byte string; a pointer into it is an offset, and the
  buffer starts at an aligned address, so a pointer is aligned when its offset is. A validator
  runs on an offset and the validation context. Reading outside of the message is the fault
  \<open>OutOfBounds\<close>, a failing assertion the fault \<open>AssertFailed\<close>; rejecting the message is the
  fault \<open>Invalid\<close> with the reported error.
\<close>

declare add_2_eq_Suc [simp del] add_2_eq_Suc' [simp del]

section \<open>Errors\<close>

datatype validation_error =
    MessageSizeIsInvalid
  | MessageTypeIsNotSupported
  | MessageTypeIsNotImplemented
  | MessagePreprocessTooBigError
  | MessagePreprocessFailure
  | MultipartTypeIsNotSupported
  | MultipartTypeIsNotSupportedForVersion
  | MultipartSizeHasImproperAlignment
  | LengthRemainingIsInvalid nat nat
  | RangeSizeHasImproperAlignment nat
  | RangeDataHasImproperAlignment nat nat
  | RangeElementSizeIsTooSmall nat nat
  | RangeElementSizeHasImproperAlignment nat nat nat
  | RangeElementSizeOverrunsEnd nat nat
  | RangeSizeIsNotMultipleOfElementSize nat nat
  | MatchIsInvalid string nat
  | BoolIsFalse string
  | Unreported

definition OFPBRC_BAD_TYPE :: u32 where "OFPBRC_BAD_TYPE = 0x00010001"
definition OFPBRC_BAD_MULTIPART :: u32 where "OFPBRC_BAD_MULTIPART = 0x00010002"
definition OFPBRC_BAD_LEN :: u32 where "OFPBRC_BAD_LEN = 0x00010006"
definition OFPEC_UNKNOWN_FLAG :: u32 where "OFPEC_UNKNOWN_FLAG = 0x80000000"

text \<open>The error code and the message text each report stores; the constructor has set
\<^verbatim>\<open>OFPEC_UNKNOWN_FLAG\<close> before.\<close>

fun errorCode :: "validation_error \<Rightarrow> u32" where
  "errorCode MessageTypeIsNotSupported = OFPBRC_BAD_TYPE"
| "errorCode MessageTypeIsNotImplemented = OFPBRC_BAD_TYPE"
| "errorCode MultipartTypeIsNotSupported = OFPBRC_BAD_MULTIPART"
| "errorCode MultipartTypeIsNotSupportedForVersion = OFPBRC_BAD_MULTIPART"
| "errorCode (BoolIsFalse s) = OFPEC_UNKNOWN_FLAG"
| "errorCode Unreported = OFPEC_UNKNOWN_FLAG"
| "errorCode _ = OFPBRC_BAD_LEN"

fun errorMessage :: "validation_error \<Rightarrow> string option" where
  "errorMessage MessageSizeIsInvalid = Some ''Message size is invalid''"
| "errorMessage MessageTypeIsNotSupported = Some ''Message type is not supported''"
| "errorMessage MessageTypeIsNotImplemented = Some ''Message type is not implemented''"
| "errorMessage MessagePreprocessTooBigError =
     Some ''Message is too big. See documentation for limits.''"
| "errorMessage MessagePreprocessFailure = Some ''Message parse error''"
| "errorMessage MultipartTypeIsNotSupported = Some ''Multipart type is not supported''"
| "errorMessage MultipartTypeIsNotSupportedForVersion =
     Some ''Multipart type is not supported for this protocol version''"
| "errorMessage MultipartSizeHasImproperAlignment = Some ''Multipart size has improper alignment''"
| "errorMessage (LengthRemainingIsInvalid p n) = Some ''Length remaining is invalid''"
| "errorMessage (RangeSizeHasImproperAlignment p) = Some ''Range size has improper alignment''"
| "errorMessage (RangeDataHasImproperAlignment p a) = Some ''Range data has improper alignment''"
| "errorMessage (RangeElementSizeIsTooSmall p n) = Some ''Range element size is too small''"
| "errorMessage (RangeElementSizeHasImproperAlignment p n a) =
     Some ''Range element size has improper alignment''"
| "errorMessage (RangeElementSizeOverrunsEnd p n) = Some ''Range element size overruns end''"
| "errorMessage (RangeSizeIsNotMultipleOfElementSize p n) =
     Some ''Range size is not multiple of element size''"
| "errorMessage (MatchIsInvalid s p) = Some (''Match: '' @ s)"
| "errorMessage (BoolIsFalse s) = Some s"
| "errorMessage Unreported = None"

datatype fault =
    OutOfBounds nat nat
  | AssertFailed
  | Invalid validation_error

section \<open>Reading the message\<close>

definition get8 :: "nat \<Rightarrow> bytes \<Rightarrow> fault + byte" where
  "get8 p msg = (if p + 1 \<le> length msg then Inr (rd8 p msg) else Inl (OutOfBounds p 1))"

definition get16 :: "nat \<Rightarrow> bytes \<Rightarrow> fault + u16" where
  "get16 p msg = (if p + 2 \<le> length msg then Inr (rd16 p msg) else Inl (OutOfBounds p 2))"

definition get32 :: "nat \<Rightarrow> bytes \<Rightarrow> fault + u32" where
  "get32 p msg = (if p + 4 \<le> length msg then Inr (rd32 p msg) else Inl (OutOfBounds p 4))"

definition IsPtrAligned :: "nat \<Rightarrow> nat \<Rightarrow> bool" where
  "IsPtrAligned p alignment = (p mod alignment = 0)"

text \<open>A \<^verbatim>\<open>ByteRange\<close> is the offset of its first byte and its size; the empty range
\<^verbatim>\<open>ByteRange{}\<close> has the null pointer, which is aligned as offset 0 is.\<close>

type_synonym ByteRange = "nat \<times> nat"

definition SafeByteRange :: "nat \<Rightarrow> nat \<Rightarrow> nat \<Rightarrow> ByteRange" where
  "SafeByteRange p len off = (if len \<ge> off then (p + off, len - off) else (0, 0))"

definition SafeByteRangeSize :: "nat \<Rightarrow> nat \<Rightarrow> nat \<Rightarrow> nat \<Rightarrow> ByteRange" where
  "SafeByteRangeSize p len off n = (if len \<ge> off + n then (p + off, n) else (0, 0))"

section \<open>The validation context\<close>

record Validation =
  v_version :: byte
  v_length :: nat
  v_lengthRemaining :: nat

definition setLengthRemaining :: "nat \<Rightarrow> Validation \<Rightarrow> Validation" where
  "setLengthRemaining n ctx = ctx\<lparr>v_lengthRemaining := n\<rparr>"

type_synonym validator = "nat \<Rightarrow> Validation \<Rightarrow> fault + Validation"

definition reject :: "validation_error \<Rightarrow> fault + 'a" where
  "reject e = Inl (Invalid e)"

definition assertE :: "bool \<Rightarrow> fault + unit" where
  "assertE b = (if b then Inr () else Inl AssertFailed)"

definition validateBool :: "bool \<Rightarrow> string \<Rightarrow> fault + unit" where
  "validateBool condition msg = (if \<not> condition then reject (BoolIsFalse msg) else Inr ())"

text \<open>An unreported \<^verbatim>\<open>return false\<close>.\<close>

definition require :: "bool \<Rightarrow> fault + unit" where
  "require condition = (if condition then Inr () else reject Unreported)"

definition validateAlignedLength :: "nat \<Rightarrow> nat \<Rightarrow> fault + unit" where
  "validateAlignedLength len minSize =
     validateBool (len \<ge> minSize \<and> len mod 8 = 0) ''Length too small or not aligned''"

definition validateEmpty :: "byte \<Rightarrow> validator" where
  "validateEmpty minVersion body ctx =
     (if v_version ctx < minVersion then reject MultipartTypeIsNotSupportedForVersion
      else if v_lengthRemaining ctx \<noteq> 0 then reject (LengthRemainingIsInvalid body 0)
      else Inr ctx)"

definition validate :: "validator \<Rightarrow> byte \<Rightarrow> bool \<Rightarrow> validator" where
  "validate validateInput minVersion lenMultiple8 body ctx =
     (if v_version ctx < minVersion then reject MultipartTypeIsNotSupportedForVersion
      else if lenMultiple8 \<and> v_lengthRemaining ctx mod 8 \<noteq> 0
        then reject MultipartSizeHasImproperAlignment
      else validateInput body ctx)"

lemma bindE_cong [fundef_cong]:
  "m = m' \<Longrightarrow> (\<And>x. m' = Inr x \<Longrightarrow> f x = f' x) \<Longrightarrow> bindE m f = bindE m' f'"
  by (cases m') simp_all

function validateArrayVariableSize_loop ::
  "nat \<Rightarrow> validator \<Rightarrow> bytes \<Rightarrow> nat \<Rightarrow> nat \<Rightarrow> Validation \<Rightarrow> fault + Validation" where
  "validateArrayVariableSize_loop Offset validateInput msg body len ctx =
     (if len = 0 then Inr ctx
      else if \<not> IsPtrAligned body 8 then Inl AssertFailed
      else if len < Offset + 2 then reject (RangeElementSizeIsTooSmall body (Offset + 2))
      else bindE (get16 (body + Offset) msg) (\<lambda>size.
        if unat size < Offset + 2 then reject (RangeElementSizeIsTooSmall body (Offset + 2))
        else
          let size = PadLength (unat size) in
          if size > len then reject (RangeElementSizeOverrunsEnd body size)
          else bindE (validateInput body ctx) (\<lambda>ctx.
            validateArrayVariableSize_loop Offset validateInput msg (body + size) (len - size) ctx)))"
  by pat_completeness auto
termination
proof (relation "measure (\<lambda>(_, _, _, _, len, _). len)", goal_cases)
  case (2 Offset validateInput msg body len ctx x xa xb)
  then show ?case using PadLength_ge [of "unat x"] by auto
qed simp

declare validateArrayVariableSize_loop.simps [simp del]

definition validateArrayVariableSize :: "nat \<Rightarrow> validator \<Rightarrow> bytes \<Rightarrow> byte \<Rightarrow> validator" where
  "validateArrayVariableSize Offset validateInput msg minVersion body ctx =
     (if v_version ctx < minVersion then reject MultipartTypeIsNotSupportedForVersion
      else if v_lengthRemaining ctx mod 8 \<noteq> 0 then reject (RangeSizeHasImproperAlignment body)
      else if \<not> IsPtrAligned body 8 then reject (RangeDataHasImproperAlignment body 8)
      else validateArrayVariableSize_loop Offset validateInput msg body (v_lengthRemaining ctx) ctx)"

function validateArrayFixedSize_loop ::
  "nat \<Rightarrow> validator \<Rightarrow> nat \<Rightarrow> nat \<Rightarrow> Validation \<Rightarrow> fault + Validation" where
  "validateArrayFixedSize_loop elemSize validateInput body len ctx =
     (if len = 0 then Inr ctx
      else if \<not> IsPtrAligned body 8 then Inl AssertFailed
      else if elemSize > len then reject (RangeElementSizeOverrunsEnd body elemSize)
      else if elemSize = 0 then Inl AssertFailed
      else bindE (validateInput body ctx) (\<lambda>ctx.
        validateArrayFixedSize_loop elemSize validateInput (body + elemSize) (len - elemSize) ctx))"
  by pat_completeness auto
termination by (relation "measure (\<lambda>(_, _, _, len, _). len)") auto

declare validateArrayFixedSize_loop.simps [simp del]

text \<open>The size of a fixed element is positive and a multiple of 8 (\<^verbatim>\<open>static_assert\<close>).\<close>

definition validateArrayFixedSize :: "nat \<Rightarrow> validator \<Rightarrow> byte \<Rightarrow> validator" where
  "validateArrayFixedSize elemSize validateInput minVersion body ctx =
     (if v_version ctx < minVersion then reject MultipartTypeIsNotSupportedForVersion
      else if \<not> IsPtrAligned body 8 then reject (RangeDataHasImproperAlignment body 8)
      else if v_lengthRemaining ctx mod elemSize \<noteq> 0
        then reject (RangeSizeIsNotMultipleOfElementSize body elemSize)
      else validateArrayFixedSize_loop elemSize validateInput body (v_lengthRemaining ctx) ctx)"

section \<open>Safe validation\<close>

text \<open>A validator is safe when it neither leaves the message nor fails an assertion; the predicate
also gives what holds when it accepts.\<close>

definition safely :: "('a \<Rightarrow> bool) \<Rightarrow> fault + 'a \<Rightarrow> bool" where
  "safely Q r = succeeds_or (range Invalid) Q r"

named_theorems safe_simps \<open>weakest preconditions of the primitive checks\<close>

lemma safely_simps [simp]:
  "safely Q (Inr x) \<longleftrightarrow> Q x" "safely Q (reject e)" "\<not> safely Q (Inl AssertFailed)"
  "\<not> safely Q (Inl (OutOfBounds p n))" "safely Q (Inl (Invalid e))"
  by (auto simp: safely_def reject_def)

lemma safely_bind: "safely P m \<Longrightarrow> (\<And>x. P x \<Longrightarrow> safely Q (f x)) \<Longrightarrow> safely Q (bindE m f)"
  unfolding safely_def by (rule succeeds_or_bind)

lemma safely_mono: "safely P m \<Longrightarrow> (\<And>x. P x \<Longrightarrow> Q x) \<Longrightarrow> safely Q m"
  unfolding safely_def by (rule succeeds_or_mono)

lemma safely_InrD: "safely Q m \<Longrightarrow> m = Inr x \<Longrightarrow> Q x"
  by simp

lemma safely_conj: "safely P m \<Longrightarrow> safely Q m \<Longrightarrow> safely (\<lambda>x. P x \<and> Q x) m"
  by (cases m) (auto simp: safely_def)

lemma safely_require [safe_simps]:
  "safely Q (bindE (require b) f) \<longleftrightarrow> (b \<longrightarrow> safely Q (f ()))"
  "safely R (require b) \<longleftrightarrow> (b \<longrightarrow> R ())"
  by (auto simp: require_def reject_def)

lemma safely_validateBool [safe_simps]:
  "safely Q (bindE (validateBool b s) f) \<longleftrightarrow> (b \<longrightarrow> safely Q (f ()))"
  "safely R (validateBool b s) \<longleftrightarrow> (b \<longrightarrow> R ())"
  by (auto simp: validateBool_def reject_def)

lemma safely_assertE [safe_simps]: "safely Q (bindE (assertE b) f) \<longleftrightarrow> b \<and> safely Q (f ())"
  by (auto simp: assertE_def)

lemma safely_get [safe_simps]:
  "safely Q8 (bindE (get8 p msg) f8) \<longleftrightarrow> p + 1 \<le> length msg \<and> safely Q8 (f8 (rd8 p msg))"
  "safely Q16 (bindE (get16 p msg) f16) \<longleftrightarrow> p + 2 \<le> length msg \<and> safely Q16 (f16 (rd16 p msg))"
  "safely Q32 (bindE (get32 p msg) f32) \<longleftrightarrow> p + 4 \<le> length msg \<and> safely Q32 (f32 (rd32 p msg))"
  by (auto simp: get8_def get16_def get32_def)

lemma safely_if: "(b \<Longrightarrow> safely Q x) \<Longrightarrow> (\<not> b \<Longrightarrow> safely Q y) \<Longrightarrow> safely Q (if b then x else y)"
  by simp

text \<open>The elements of an array: starting at \<open>pos\<close>, each begins where the previous one ends,
and the last one ends at \<open>e\<close>.\<close>

primrec tiles :: "(nat \<Rightarrow> nat) \<Rightarrow> nat \<Rightarrow> nat list \<Rightarrow> nat \<Rightarrow> bool" where
  "tiles j pos [] e = (pos = e)"
| "tiles j pos (p # ps) e = (p = pos \<and> 0 < j pos \<and> tiles j (pos + j pos) ps e)"

lemma tiles_le: "tiles j pos ps e \<Longrightarrow> pos \<le> e"
  by (induction ps arbitrary: pos) fastforce+

lemma tiles_bounds: "tiles j pos ps e \<Longrightarrow> p \<in> set ps \<Longrightarrow> pos \<le> p \<and> p + j p \<le> e"
proof (induction ps arbitrary: pos)
  case (Cons q ps)
  then have q: "q = pos" "tiles j (pos + j pos) ps e" by simp_all
  show ?case
  proof (cases "p = q")
    case True
    with q tiles_le [OF q(2)] show ?thesis by simp
  next
    case False
    with Cons q have "pos + j pos \<le> p \<and> p + j p \<le> e" by simp
    then show ?thesis by simp
  qed
qed simp

lemma tiles_aligned:
  "tiles j pos ps e \<Longrightarrow> pos mod a = 0 \<Longrightarrow> (\<And>q. j q mod a = 0) \<Longrightarrow> p \<in> set ps \<Longrightarrow> p mod a = 0"
proof (induction ps arbitrary: pos)
  case (Cons q ps)
  then have "(pos + j pos) mod a = 0" by (metis add_0 mod_add_eq mod_0)
  with Cons show ?case by auto
qed simp

definition array_jump :: "nat \<Rightarrow> bytes \<Rightarrow> nat \<Rightarrow> nat" where
  "array_jump Offset msg p = PadLength (unat (rd16 (p + Offset) msg))"

lemma validateArrayVariableSize_loop_safe:
  assumes "body + len \<le> length msg" and "body mod 8 = 0" and "len mod 8 = 0" and "I ctx"
    and elem: "\<And>p ctx. p mod 8 = 0 \<Longrightarrow> body \<le> p \<Longrightarrow> p + array_jump Offset msg p \<le> body + len \<Longrightarrow>
      Offset + 2 \<le> unat (rd16 (p + Offset) msg) \<Longrightarrow> I ctx \<Longrightarrow>
      safely (\<lambda>ctx. I ctx \<and> Q p) (validateInput p ctx)"
  shows "safely (\<lambda>ctx. I ctx \<and> (\<exists>ps. tiles (array_jump Offset msg) body ps (body + len) \<and> (\<forall>p\<in>set ps. Q p)))
    (validateArrayVariableSize_loop Offset validateInput msg body len ctx)"
  using assms
proof (induction len arbitrary: body ctx rule: less_induct)
  case (less len)
  let ?n = "unat (rd16 (body + Offset) msg)"
  have j: "array_jump Offset msg body = PadLength ?n" by (simp add: array_jump_def)
  note ge = PadLength_ge [of ?n]
  show ?case
  proof (cases "len = 0 \<or> len < Offset + 2 \<or> ?n < Offset + 2 \<or> PadLength ?n > len")
    case True
    with less.prems show ?thesis
      by (subst validateArrayVariableSize_loop.simps)
        (auto simp: safe_simps IsPtrAligned_def Let_def intro: exI [of _ "[]"])
  next
    case False
    then have n: "len \<noteq> 0" "\<not> len < Offset + 2" "\<not> ?n < Offset + 2" "PadLength ?n \<le> len" by simp_all
    have first: "safely (\<lambda>ctx. I ctx \<and> Q body) (validateInput body ctx)"
      using less.prems n by (intro less.prems(5)) (simp_all add: j)
    have rest: "safely (\<lambda>ctx. I ctx \<and> (\<exists>ps. tiles (array_jump Offset msg) body ps (body + len) \<and> (\<forall>p\<in>set ps. Q p)))
        (validateArrayVariableSize_loop Offset validateInput msg (body + PadLength ?n) (len - PadLength ?n) c)"
      if c: "I c \<and> Q body" for c
    proof -
      have m8: "(body + PadLength ?n) mod 8 = 0" "(len - PadLength ?n) mod 8 = 0"
        using less.prems(2,3) n(4) by (metis PadLength_mod8 add_0 mod_add_eq mod_0, metis PadLength_mod8 less.prems(3) mod_0_imp_dvd mod_eq_0_iff_dvd n(4) dvd_diff_nat)
      have "safely (\<lambda>ctx. I ctx \<and> (\<exists>ps. tiles (array_jump Offset msg) (body + PadLength ?n) ps
          (body + PadLength ?n + (len - PadLength ?n)) \<and> (\<forall>p\<in>set ps. Q p)))
        (validateArrayVariableSize_loop Offset validateInput msg (body + PadLength ?n) (len - PadLength ?n) c)"
      proof (rule less.IH)
        show "len - PadLength ?n < len" using n ge by linarith
        show "body + PadLength ?n + (len - PadLength ?n) \<le> length msg" using less.prems(1) n(4) by simp
        fix p ctx
        assume "p mod 8 = 0" "body + PadLength ?n \<le> p"
          "p + array_jump Offset msg p \<le> body + PadLength ?n + (len - PadLength ?n)"
          "Offset + 2 \<le> unat (rd16 (p + Offset) msg)" "I ctx"
        with n(4) show "safely (\<lambda>ctx. I ctx \<and> Q p) (validateInput p ctx)"
          by (intro less.prems(5)) simp_all
      qed (use m8 c in auto)
      then show ?thesis
      proof (rule safely_mono)
        fix x assume x: "I x \<and> (\<exists>ps. tiles (array_jump Offset msg) (body + PadLength ?n) ps
          (body + PadLength ?n + (len - PadLength ?n)) \<and> (\<forall>p\<in>set ps. Q p))"
        then obtain ps where "tiles (array_jump Offset msg) (body + PadLength ?n) ps (body + len)"
          "\<forall>p\<in>set ps. Q p" using n(4) by auto
        with c n ge show "I x \<and> (\<exists>ps. tiles (array_jump Offset msg) body ps (body + len) \<and> (\<forall>p\<in>set ps. Q p))"
          using x by (auto simp: j intro!: exI [of _ "body # ps"])
      qed
    qed
    show ?thesis
      using less.prems n rest
      by (subst validateArrayVariableSize_loop.simps)
        (auto simp: safe_simps IsPtrAligned_def Let_def intro: safely_bind [OF first])
  qed
qed

lemma validateArrayVariableSize_safe:
  assumes "body + v_lengthRemaining ctx \<le> length msg" and "I ctx"
    and "\<And>p ctx'. p mod 8 = 0 \<Longrightarrow> body \<le> p \<Longrightarrow> p + array_jump Offset msg p \<le> body + v_lengthRemaining ctx \<Longrightarrow>
      Offset + 2 \<le> unat (rd16 (p + Offset) msg) \<Longrightarrow> I ctx' \<Longrightarrow>
      safely (\<lambda>ctx. I ctx \<and> Q p) (validateInput p ctx')"
  shows "safely (\<lambda>ctx'. I ctx' \<and> (\<exists>ps. tiles (array_jump Offset msg) body ps (body + v_lengthRemaining ctx) \<and> (\<forall>p\<in>set ps. Q p)))
    (validateArrayVariableSize Offset validateInput msg minVersion body ctx)"
  unfolding validateArrayVariableSize_def
  using validateArrayVariableSize_loop_safe [OF assms(1), of I ctx Offset Q validateInput] assms
  by (auto simp: IsPtrAligned_def)

lemma validateArrayFixedSize_loop_safe:
  assumes "body mod 8 = 0" and "elemSize mod 8 = 0" "0 < elemSize" and "len mod elemSize = 0" and "I ctx"
    and elem: "\<And>p ctx. body \<le> p \<Longrightarrow> p + elemSize \<le> body + len \<Longrightarrow> I ctx \<Longrightarrow> safely I (validateInput p ctx)"
  shows "safely (\<lambda>ctx. I ctx \<and> (\<exists>ps. tiles (\<lambda>_. elemSize) body ps (body + len)))
    (validateArrayFixedSize_loop elemSize validateInput body len ctx)"
  using assms
proof (induction len arbitrary: body ctx rule: less_induct)
  case (less len)
  have dvd: "elemSize dvd len" using less.prems(4) by auto
  show ?case
  proof (cases "len = 0")
    case True
    with less.prems show ?thesis
      by (subst validateArrayFixedSize_loop.simps) (auto intro: exI [of _ "[]"])
  next
    case False
    with dvd have le: "elemSize \<le> len" by (auto dest: dvd_imp_le)
    have m8: "(body + elemSize) mod 8 = 0" using less.prems(1,2) by (metis add_0 mod_add_eq mod_0)
    have first: "safely I (validateInput body ctx)" using less.prems le by simp
    have rest: "safely (\<lambda>ctx. I ctx \<and> (\<exists>ps. tiles (\<lambda>_. elemSize) body ps (body + len)))
        (validateArrayFixedSize_loop elemSize validateInput (body + elemSize) (len - elemSize) c)" if c: "I c" for c
    proof -
      have "safely (\<lambda>ctx. I ctx \<and> (\<exists>ps. tiles (\<lambda>_. elemSize) (body + elemSize) ps (body + elemSize + (len - elemSize))))
        (validateArrayFixedSize_loop elemSize validateInput (body + elemSize) (len - elemSize) c)"
      proof (rule less.IH)
        show "(len - elemSize) mod elemSize = 0" using dvd le by (simp add: le_mod_geq [symmetric])
        fix p ctx assume "body + elemSize \<le> p" "p + elemSize \<le> body + elemSize + (len - elemSize)" "I ctx"
        with le show "safely I (validateInput p ctx)" by (intro less.prems(6)) simp_all
      qed (use less.prems le m8 c in auto)
      then show ?thesis
      proof (rule safely_mono)
        fix x assume "I x \<and> (\<exists>ps. tiles (\<lambda>_. elemSize) (body + elemSize) ps (body + elemSize + (len - elemSize)))"
        with le less.prems(3) show "I x \<and> (\<exists>ps. tiles (\<lambda>_. elemSize) body ps (body + len))"
          by (auto intro: exI [of _ "body # _"])
      qed
    qed
    show ?thesis
      using less.prems False le rest
      by (subst validateArrayFixedSize_loop.simps)
        (auto simp: IsPtrAligned_def intro: safely_bind [OF first])
  qed
qed

lemma validateArrayFixedSize_safe:
  assumes "elemSize mod 8 = 0" "0 < elemSize" and "I ctx"
    and "\<And>p ctx'. body \<le> p \<Longrightarrow> p + elemSize \<le> body + v_lengthRemaining ctx \<Longrightarrow> I ctx' \<Longrightarrow>
      safely I (validateInput p ctx')"
  shows "safely (\<lambda>ctx'. I ctx' \<and> (\<exists>ps. tiles (\<lambda>_. elemSize) body ps (body + v_lengthRemaining ctx)))
    (validateArrayFixedSize elemSize validateInput minVersion body ctx)"
  unfolding validateArrayFixedSize_def
  using validateArrayFixedSize_loop_safe [of body elemSize "v_lengthRemaining ctx" I ctx validateInput] assms
  by (auto simp: IsPtrAligned_def)

end
