(* ===== verification/ProtocolRange.thy ===== *)
theory ProtocolRange
  imports Validation
begin

text \<open>
  Ranges of variable-sized elements (\<^verbatim>\<open>include/ofp/protocoliterator.h\<close>,
  \<^verbatim>\<open>include/ofp/protocolrange.h\<close>, \<^verbatim>\<open>src/ofp/protocoliterator.cpp\<close>): the structural check of a
  range, the iterator that walks over it, counting and splitting. An element type is given by the
  three template arguments: the size of its C++ struct, the offset of its size field and its
  alignment.
\<close>

section \<open>Ranges and iterators\<close>

definition PROTOCOL_ITERATOR_SIZE_FIXED :: nat where "PROTOCOL_ITERATOR_SIZE_FIXED = 0xffff"
definition PROTOCOL_ITERATOR_SIZE_CONDITIONAL :: nat where
  "PROTOCOL_ITERATOR_SIZE_CONDITIONAL = 0xfffe"

definition isProtocolRangeFixedValid :: "nat \<Rightarrow> ByteRange \<Rightarrow> fault + unit" where
  "isProtocolRangeFixedValid elementSize rng =
     bindE (assertE (elementSize > 0 \<and> elementSize mod 8 = 0)) (\<lambda>_.
     if snd rng mod elementSize \<noteq> 0
     then reject (RangeSizeIsNotMultipleOfElementSize (fst rng) elementSize) else Inr ())"

text \<open>The size of the element at \<open>ptr\<close>, as the check reads it when \<open>len\<close> bytes are left.\<close>

definition range_elemSize :: "nat \<Rightarrow> bytes \<Rightarrow> nat \<Rightarrow> nat \<Rightarrow> fault + nat" where
  "range_elemSize sizeFieldOffset msg ptr len =
     (if sizeFieldOffset = PROTOCOL_ITERATOR_SIZE_CONDITIONAL
      then bindE (get16 ptr msg) (\<lambda>t. Inr (if t = 0xffff then 8 else 4))
      else if sizeFieldOffset + 2 > len then reject (RangeElementSizeOverrunsEnd ptr 0)
      else bindE (get16 (ptr + sizeFieldOffset) msg) (\<lambda>n. Inr (unat n)))"

definition range_jumpSize :: "nat \<Rightarrow> nat \<Rightarrow> nat \<Rightarrow> nat \<Rightarrow> fault + nat" where
  "range_jumpSize elementSize alignment ptr elemSize =
     (if elemSize < 4 then reject (RangeElementSizeIsTooSmall ptr 4)
      else if elemSize < elementSize \<and> alignment = 8
        then reject (RangeElementSizeIsTooSmall ptr elementSize)
      else if alignment \<noteq> 8 then
        (if elemSize mod alignment \<noteq> 0
         then reject (RangeElementSizeHasImproperAlignment ptr elemSize alignment)
         else Inr elemSize)
      else Inr (PadLength elemSize))"

lemma range_jumpSize_pos: "range_jumpSize elementSize alignment ptr n = Inr j \<Longrightarrow> 4 \<le> j"
  using PadLength_ge [of n] by (auto simp: range_jumpSize_def reject_def split: if_splits)

function IsProtocolRangeValid_loop ::
  "nat \<Rightarrow> nat \<Rightarrow> nat \<Rightarrow> bytes \<Rightarrow> nat \<Rightarrow> nat \<Rightarrow> fault + unit" where
  "IsProtocolRangeValid_loop elementSize sizeFieldOffset alignment msg ptr len =
     (if len = 0 then Inr ()
      else bindE (assertE (len \<ge> alignment)) (\<lambda>_.
        bindE (range_elemSize sizeFieldOffset msg ptr len) (\<lambda>elemSize.
        bindE (range_jumpSize elementSize alignment ptr elemSize) (\<lambda>jumpSize.
        if jumpSize > len then reject (RangeElementSizeOverrunsEnd ptr jumpSize)
        else IsProtocolRangeValid_loop elementSize sizeFieldOffset alignment msg
               (ptr + jumpSize) (len - jumpSize)))))"
  by pat_completeness auto
termination
  by (relation "measure (\<lambda>(_, _, _, _, _, len). len)") (auto dest: range_jumpSize_pos)

declare IsProtocolRangeValid_loop.simps [simp del]

definition IsProtocolRangeValid :: "nat \<Rightarrow> nat \<Rightarrow> nat \<Rightarrow> bytes \<Rightarrow> ByteRange \<Rightarrow> fault + unit" where
  "IsProtocolRangeValid elementSize sizeFieldOffset alignment msg rng =
     (if sizeFieldOffset = PROTOCOL_ITERATOR_SIZE_FIXED
      then isProtocolRangeFixedValid elementSize rng
      else bindE (assertE (elementSize \<ge> 4 \<and>
          (sizeFieldOffset < 32 \<or> sizeFieldOffset = PROTOCOL_ITERATOR_SIZE_CONDITIONAL))) (\<lambda>_.
        let (ptr, len) = rng in
        if len mod alignment \<noteq> 0 then reject (RangeSizeHasImproperAlignment ptr)
        else if \<not> IsPtrAligned ptr alignment then reject (RangeDataHasImproperAlignment ptr alignment)
        else IsProtocolRangeValid_loop elementSize sizeFieldOffset alignment msg ptr len))"

text \<open>\<^verbatim>\<open>ProtocolElement::size\<close> and the step of \<^verbatim>\<open>operator++\<close>.\<close>

definition ProtocolElement_size :: "nat \<Rightarrow> nat \<Rightarrow> bytes \<Rightarrow> nat \<Rightarrow> fault + nat" where
  "ProtocolElement_size elementSize SizeOffset msg ptr =
     (if SizeOffset = PROTOCOL_ITERATOR_SIZE_FIXED then Inr elementSize
      else if SizeOffset = PROTOCOL_ITERATOR_SIZE_CONDITIONAL
        then bindE (get16 ptr msg) (\<lambda>t. Inr (if t = 0xffff then 8 else 4))
      else bindE (get16 (ptr + SizeOffset) msg) (\<lambda>n. Inr (max (2 + SizeOffset) (unat n))))"

definition iter_jump :: "nat \<Rightarrow> nat \<Rightarrow> nat \<Rightarrow> bytes \<Rightarrow> nat \<Rightarrow> fault + nat" where
  "iter_jump elementSize SizeOffset Alignment msg pos =
     bindE (ProtocolElement_size elementSize SizeOffset msg pos) (\<lambda>n.
     Inr (if Alignment = 8 then PadLength n else n))"

text \<open>A \<^verbatim>\<open>for\<close> loop over the range: the iterator is compared with the end by \<^verbatim>\<open>!=\<close>, so it can
only stop exactly there; an element outside of the message cannot be referenced.\<close>

function for_range ::
  "nat \<Rightarrow> nat \<Rightarrow> nat \<Rightarrow> bytes \<Rightarrow> (nat \<Rightarrow> 's \<Rightarrow> fault + 's) \<Rightarrow> nat \<Rightarrow> nat \<Rightarrow> 's \<Rightarrow> fault + 's" where
  "for_range elementSize SizeOffset Alignment msg body pos e s =
     (if pos = e then Inr s
      else if pos \<ge> length msg then Inl (OutOfBounds pos 1)
      else bindE (body pos s) (\<lambda>s.
        bindE (iter_jump elementSize SizeOffset Alignment msg pos) (\<lambda>n.
        if n = 0 then Inl AssertFailed
        else for_range elementSize SizeOffset Alignment msg body (pos + n) e s)))"
  by pat_completeness auto
termination by (relation "measure (\<lambda>(_, _, _, msg, _, pos, _, _). length msg - pos)") auto

declare for_range.simps [simp del]

definition ProtocolRange_validateInput ::
  "nat \<Rightarrow> nat \<Rightarrow> nat \<Rightarrow> validator \<Rightarrow> bytes \<Rightarrow> ByteRange \<Rightarrow> Validation \<Rightarrow> fault + Validation" where
  "ProtocolRange_validateInput elementSize SizeOffset Alignment validateInput msg rng ctx =
     bindE (IsProtocolRangeValid elementSize SizeOffset Alignment msg rng) (\<lambda>_.
     for_range elementSize SizeOffset Alignment msg validateInput (fst rng) (fst rng + snd rng) ctx)"

function ProtocolRangeItemCount_loop ::
  "nat \<Rightarrow> nat \<Rightarrow> bytes \<Rightarrow> nat \<Rightarrow> nat \<Rightarrow> nat \<Rightarrow> fault + nat" where
  "ProtocolRangeItemCount_loop sizeFieldOffset alignment msg ptr len count =
     (if len = 0 then Inr count
      else bindE (assertE (len \<ge> alignment)) (\<lambda>_.
        bindE (if sizeFieldOffset = PROTOCOL_ITERATOR_SIZE_CONDITIONAL
               then bindE (assertE (alignment = 4)) (\<lambda>_.
                 bindE (get16 ptr msg) (\<lambda>t. Inr (if t = 0xffff then 8 else (4 :: nat))))
               else bindE (get16 (ptr + sizeFieldOffset) msg) (\<lambda>n. Inr (max (sizeFieldOffset + 2) (unat n))))
          (\<lambda>elemSize.
        let jumpSize = (if alignment = 8 then PadLength elemSize else elemSize) in
        if jumpSize > len then Inr count
        else ProtocolRangeItemCount_loop sizeFieldOffset alignment msg (ptr + jumpSize) (len - jumpSize)
               (count + 1))))"
  by pat_completeness auto
termination
proof (relation "measure (\<lambda>(_, _, _, _, len, _). len)", goal_cases)
  case (2 sizeFieldOffset alignment msg ptr len count x elemSize jumpSize)
  have "0 < elemSize"
    using 2(3) by (auto simp: assertE_def get16_def split: if_splits)
  then have "0 < jumpSize" using 2(4) PadLength_ge [of elemSize] by (auto split: if_splits)
  with 2 show ?case by simp
qed simp

declare ProtocolRangeItemCount_loop.simps [simp del]

definition ProtocolRangeItemCount :: "nat \<Rightarrow> nat \<Rightarrow> nat \<Rightarrow> bytes \<Rightarrow> ByteRange \<Rightarrow> fault + nat" where
  "ProtocolRangeItemCount elementSize sizeFieldOffset alignment msg rng =
     (if sizeFieldOffset = PROTOCOL_ITERATOR_SIZE_FIXED
      then bindE (assertE (elementSize > 0 \<and> elementSize mod 8 = 0)) (\<lambda>_. Inr (snd rng div elementSize))
      else bindE (assertE ((sizeFieldOffset < 32 \<or> sizeFieldOffset = PROTOCOL_ITERATOR_SIZE_CONDITIONAL) \<and>
          (alignment = 4 \<or> alignment = 8) \<and> snd rng mod alignment = 0 \<and>
          IsPtrAligned (fst rng) alignment)) (\<lambda>_.
        ProtocolRangeItemCount_loop sizeFieldOffset alignment msg (fst rng) (snd rng) 0))"

section \<open>Element types\<close>

text \<open>The element classes the library iterates over, with \<^verbatim>\<open>sizeof\<close>, the offset of the size
field (\<^verbatim>\<open>ProtocolIteratorSizeOffset\<close>) and the alignment (\<^verbatim>\<open>ProtocolIteratorAlignment\<close>).\<close>

datatype element_type =
    ActionItem | InstructionItem | PropertyItem | MeterBandItem | BucketElem | HelloElem | PortElem
  | QueueElem | QueueV1Elem | QueueDescElem | TableDescElem | ActionIDElem | InstructionIDElem
  | OXMIDElem | PacketCounterElem

fun elem_sizeof :: "element_type \<Rightarrow> nat" where
  "elem_sizeof BucketElem = 16"
| "elem_sizeof PortElem = 40"
| "elem_sizeof QueueElem = 16"
| "elem_sizeof QueueV1Elem = 8"
| "elem_sizeof QueueDescElem = 16"
| "elem_sizeof TableDescElem = 8"
| "elem_sizeof ActionIDElem = 8"
| "elem_sizeof InstructionIDElem = 8"
| "elem_sizeof OXMIDElem = 8"
| "elem_sizeof PacketCounterElem = 16"
| "elem_sizeof _ = 4"

fun elem_sizeOffset :: "element_type \<Rightarrow> nat" where
  "elem_sizeOffset BucketElem = 0"
| "elem_sizeOffset PortElem = 4"
| "elem_sizeOffset QueueElem = 8"
| "elem_sizeOffset QueueV1Elem = 4"
| "elem_sizeOffset QueueDescElem = 8"
| "elem_sizeOffset TableDescElem = 0"
| "elem_sizeOffset OXMIDElem = PROTOCOL_ITERATOR_SIZE_CONDITIONAL"
| "elem_sizeOffset PacketCounterElem = PROTOCOL_ITERATOR_SIZE_FIXED"
| "elem_sizeOffset _ = 2"

fun elem_alignment :: "element_type \<Rightarrow> nat" where
  "elem_alignment ActionIDElem = 4"
| "elem_alignment InstructionIDElem = 4"
| "elem_alignment OXMIDElem = 4"
| "elem_alignment _ = 8"

section \<open>A valid range is a sequence of elements\<close>

primrec foldE :: "(nat \<Rightarrow> 's \<Rightarrow> fault + 's) \<Rightarrow> nat list \<Rightarrow> 's \<Rightarrow> fault + 's" where
  "foldE body [] s = Inr s"
| "foldE body (p # ps) s = bindE (body p s) (foldE body ps)"

lemma foldE_safe:
  assumes "\<And>p s. p \<in> set ps \<Longrightarrow> I s \<Longrightarrow> safely (\<lambda>s. I s \<and> Q p) (body p s)" and "I s"
  shows "safely (\<lambda>s. I s \<and> (\<forall>p\<in>set ps. Q p)) (foldE body ps s)"
  using assms
proof (induction ps arbitrary: s)
  case (Cons p ps)
  have "safely (\<lambda>s. I s \<and> Q p) (body p s)" using Cons.prems by simp
  moreover have "safely (\<lambda>s. I s \<and> (\<forall>q\<in>set (p # ps). Q q)) (foldE body ps x)" if "I x \<and> Q p" for x
    using Cons that by (auto intro: safely_mono [OF Cons.IH])
  ultimately show ?case by (auto intro: safely_bind)
qed simp

lemma assertE_True [simp]: "assertE True = Inr ()"
  by (simp add: assertE_def)

lemma mod_sub_multiple: "(len :: nat) mod a = 0 \<Longrightarrow> j mod a = 0 \<Longrightarrow> j \<le> len \<Longrightarrow> (len - j) mod a = 0"
  by (metis dvd_diff_nat mod_0_imp_dvd mod_eq_0_iff_dvd)

lemma mod_add_multiple: "(p :: nat) mod a = 0 \<Longrightarrow> j mod a = 0 \<Longrightarrow> (p + j) mod a = 0"
  by (metis add_0 mod_add_eq mod_0)

lemma tiles_const: "(n :: nat) mod k = 0 \<Longrightarrow> 0 < k \<Longrightarrow> \<exists>ps. tiles (\<lambda>_. k) b ps (b + n)"
proof (induction n arbitrary: b rule: less_induct)
  case (less n)
  show ?case
  proof (cases "n = 0")
    case True
    then show ?thesis by (intro exI [of _ "[]"]) simp
  next
    case False
    with less.prems have le: "k \<le> n" by (meson dvd_imp_le mod_0_imp_dvd neq0_conv)
    with less obtain ps where "tiles (\<lambda>_. k) (b + k) ps (b + k + (n - k))"
      by (metis diff_less le_mod_geq less_le_trans)
    with le less.prems show ?thesis by (intro exI [of _ "b # ps"]) simp
  qed
qed

text \<open>The size, the distance to the next element and the well-formedness of the element at \<open>p\<close>.\<close>

definition elem_size :: "nat \<Rightarrow> nat \<Rightarrow> bytes \<Rightarrow> nat \<Rightarrow> nat" where
  "elem_size elementSize sizeOffset msg p =
     (if sizeOffset = PROTOCOL_ITERATOR_SIZE_FIXED then elementSize
      else if sizeOffset = PROTOCOL_ITERATOR_SIZE_CONDITIONAL then (if rd16 p msg = 0xffff then 8 else 4)
      else unat (rd16 (p + sizeOffset) msg))"

definition elem_jump :: "nat \<Rightarrow> nat \<Rightarrow> nat \<Rightarrow> bytes \<Rightarrow> nat \<Rightarrow> nat" where
  "elem_jump elementSize sizeOffset alignment msg p =
     (let n = elem_size elementSize sizeOffset msg p in if alignment = 8 then PadLength n else n)"

definition elem_ok :: "nat \<Rightarrow> nat \<Rightarrow> nat \<Rightarrow> bytes \<Rightarrow> nat \<Rightarrow> bool" where
  "elem_ok elementSize sizeOffset alignment msg p =
     (let n = elem_size elementSize sizeOffset msg p in
      4 \<le> n \<and> (alignment = 8 \<longrightarrow> elementSize \<le> n) \<and>
      elem_jump elementSize sizeOffset alignment msg p mod alignment = 0)"

locale protocol_element =
  fixes elementSize sizeOffset alignment :: nat
  assumes alignment: "alignment = 4 \<or> alignment = 8"
    and offset_cases: "sizeOffset < 32 \<or> sizeOffset = PROTOCOL_ITERATOR_SIZE_CONDITIONAL \<or>
      sizeOffset = PROTOCOL_ITERATOR_SIZE_FIXED"
    and min_size: "4 \<le> elementSize"
    and size_field8: "alignment = 8 \<Longrightarrow> sizeOffset < 32 \<Longrightarrow> sizeOffset + 2 \<le> elementSize"
    and size_field4: "alignment = 4 \<Longrightarrow> sizeOffset < 32 \<Longrightarrow> sizeOffset + 2 \<le> 4"
    and conditional: "sizeOffset = PROTOCOL_ITERATOR_SIZE_CONDITIONAL \<Longrightarrow> alignment = 4"
    and fixed_size: "sizeOffset = PROTOCOL_ITERATOR_SIZE_FIXED \<Longrightarrow> alignment = 8 \<and> elementSize mod 8 = 0"
begin

lemma offset_distinct: "sizeOffset < 32 \<Longrightarrow> sizeOffset \<noteq> PROTOCOL_ITERATOR_SIZE_CONDITIONAL \<and>
    sizeOffset \<noteq> PROTOCOL_ITERATOR_SIZE_FIXED"
  by (simp add: PROTOCOL_ITERATOR_SIZE_CONDITIONAL_def PROTOCOL_ITERATOR_SIZE_FIXED_def)

lemma kinds_distinct: "PROTOCOL_ITERATOR_SIZE_CONDITIONAL \<noteq> PROTOCOL_ITERATOR_SIZE_FIXED"
  by (simp add: PROTOCOL_ITERATOR_SIZE_CONDITIONAL_def PROTOCOL_ITERATOR_SIZE_FIXED_def)

lemma elem_size_le_jump: "elem_size elementSize sizeOffset msg p \<le> elem_jump elementSize sizeOffset alignment msg p"
  using PadLength_ge by (simp add: elem_jump_def Let_def)

lemma elem_ok_room:
  "elem_ok elementSize sizeOffset alignment msg p \<Longrightarrow> p + elem_jump elementSize sizeOffset alignment msg p \<le> e \<Longrightarrow> sizeOffset < 32 \<Longrightarrow> p + sizeOffset + 2 \<le> e"
  using elem_size_le_jump [of msg p] size_field8 size_field4 alignment by (auto simp: elem_ok_def Let_def)

text \<open>On an accepted element the iterator and the check agree on the size.\<close>

lemma iter_jump_ok:
  assumes "elem_ok elementSize sizeOffset alignment msg p" and "p + elem_jump elementSize sizeOffset alignment msg p \<le> length msg"
  shows "iter_jump elementSize sizeOffset alignment msg p = Inr (elem_jump elementSize sizeOffset alignment msg p)"
proof -
  note le = elem_size_le_jump [of msg p]
  consider (var) "sizeOffset < 32" | (cond) "sizeOffset = PROTOCOL_ITERATOR_SIZE_CONDITIONAL"
    | (fixed) "sizeOffset = PROTOCOL_ITERATOR_SIZE_FIXED" using offset_cases by blast
  then show ?thesis
  proof cases
    case var
    note d = offset_distinct [OF var]
    have room: "p + sizeOffset + 2 \<le> length msg" using elem_ok_room [OF assms var] .
    have "2 + sizeOffset \<le> elem_size elementSize sizeOffset msg p"
      using assms(1) size_field8 size_field4 alignment var by (auto simp: elem_ok_def Let_def)
    then have "max (2 + sizeOffset) (unat (rd16 (p + sizeOffset) msg)) = elem_size elementSize sizeOffset msg p"
      using d by (simp add: elem_size_def max_def)
    with room d show ?thesis
      by (simp add: iter_jump_def ProtocolElement_size_def get16_def elem_jump_def Let_def)
  next
    case cond
    have "p + 2 \<le> length msg" using assms le by (auto simp: elem_ok_def Let_def)
    with cond kinds_distinct show ?thesis
      by (simp add: iter_jump_def ProtocolElement_size_def get16_def elem_jump_def Let_def elem_size_def)
  next
    case fixed
    then show ?thesis
      by (simp add: iter_jump_def ProtocolElement_size_def elem_jump_def Let_def elem_size_def)
  qed
qed

end

context protocol_element
begin

lemma range_elemSize_safe:
  assumes "ptr + len \<le> length msg" and "alignment \<le> len" and "sizeOffset \<noteq> PROTOCOL_ITERATOR_SIZE_FIXED"
  shows "safely (\<lambda>n. n = elem_size elementSize sizeOffset msg ptr) (range_elemSize sizeOffset msg ptr len)"
  using assms offset_cases alignment
  by (auto simp: range_elemSize_def elem_size_def get16_def dest: offset_distinct)

lemma range_jumpSize_safe:
  assumes "n = elem_size elementSize sizeOffset msg ptr"
  shows "safely (\<lambda>j. j = elem_jump elementSize sizeOffset alignment msg ptr \<and> 4 \<le> j \<and>
      elem_ok elementSize sizeOffset alignment msg ptr) (range_jumpSize elementSize alignment ptr n)"
  using assms alignment PadLength_ge [of n]
  by (auto simp: range_jumpSize_def elem_ok_def elem_jump_def Let_def)

lemma IsProtocolRangeValid_loop_safe:
  assumes "ptr + len \<le> length msg" and "len mod alignment = 0"
    and "sizeOffset \<noteq> PROTOCOL_ITERATOR_SIZE_FIXED"
  shows "safely (\<lambda>_. \<exists>ps. tiles (elem_jump elementSize sizeOffset alignment msg) ptr ps (ptr + len) \<and>
      (\<forall>p\<in>set ps. elem_ok elementSize sizeOffset alignment msg p))
    (IsProtocolRangeValid_loop elementSize sizeOffset alignment msg ptr len)"
  using assms
proof (induction len arbitrary: ptr rule: less_induct)
  case (less len)
  let ?j = "elem_jump elementSize sizeOffset alignment msg"
  let ?G = "\<lambda>ptr len. \<exists>ps. tiles ?j ptr ps (ptr + len) \<and>
      (\<forall>p\<in>set ps. elem_ok elementSize sizeOffset alignment msg p)"
  show ?case
  proof (cases "len = 0")
    case True
    then show ?thesis by (subst IsProtocolRangeValid_loop.simps) (auto intro: exI [of _ "[]"])
  next
    case False
    then have al: "alignment \<le> len" using less.prems(2) by (meson dvd_imp_le mod_0_imp_dvd neq0_conv)
    have rest: "safely (\<lambda>_. ?G ptr len)
        (IsProtocolRangeValid_loop elementSize sizeOffset alignment msg (ptr + ?j ptr) (len - ?j ptr))"
      if ok: "elem_ok elementSize sizeOffset alignment msg ptr" "4 \<le> ?j ptr" "?j ptr \<le> len"
    proof -
      have "safely (\<lambda>_. ?G (ptr + ?j ptr) (len - ?j ptr))
          (IsProtocolRangeValid_loop elementSize sizeOffset alignment msg (ptr + ?j ptr) (len - ?j ptr))"
      proof (rule less.IH)
        show "(len - ?j ptr) mod alignment = 0"
          using less.prems(2) ok by (auto simp: elem_ok_def Let_def intro: mod_sub_multiple)
      qed (use less.prems ok in auto)
      then show ?thesis
      proof (rule safely_mono)
        assume "?G (ptr + ?j ptr) (len - ?j ptr)"
        then obtain ps where "tiles ?j (ptr + ?j ptr) ps (ptr + len)"
          "\<forall>p\<in>set ps. elem_ok elementSize sizeOffset alignment msg p" using ok(3) by auto
        with ok show "?G ptr len" by (intro exI [of _ "ptr # ps"]) auto
      qed
    qed
    show ?thesis
      using False al less.prems(1,3) rest
      by (subst IsProtocolRangeValid_loop.simps)
        (auto intro!: safely_bind [OF range_elemSize_safe] safely_bind [OF range_jumpSize_safe])
  qed
qed

lemma fixed_elem:
  assumes "sizeOffset = PROTOCOL_ITERATOR_SIZE_FIXED"
  shows "elem_jump elementSize sizeOffset alignment msg = (\<lambda>_. elementSize)"
    and "elem_ok elementSize sizeOffset alignment msg p"
proof -
  have "PadLength elementSize = elementSize" using fixed_size [OF assms] by (auto simp: PadLength_def)
  with assms show "elem_jump elementSize sizeOffset alignment msg = (\<lambda>_. elementSize)"
    by (auto simp: elem_jump_def elem_size_def fun_eq_iff)
  with assms fixed_size min_size show "elem_ok elementSize sizeOffset alignment msg p"
    by (simp add: elem_ok_def elem_size_def)
qed

lemma IsProtocolRangeValid_safe:
  assumes "b + n \<le> length msg"
  shows "safely (\<lambda>_. \<exists>ps. tiles (elem_jump elementSize sizeOffset alignment msg) b ps (b + n) \<and>
      (\<forall>p\<in>set ps. elem_ok elementSize sizeOffset alignment msg p))
    (IsProtocolRangeValid elementSize sizeOffset alignment msg (b, n))"
proof (cases "sizeOffset = PROTOCOL_ITERATOR_SIZE_FIXED")
  case True
  then show ?thesis
    using fixed_elem [OF True] fixed_size [OF True] min_size tiles_const [of n elementSize b]
    by (auto simp: IsProtocolRangeValid_def isProtocolRangeFixedValid_def safe_simps)
next
  case False
  then show ?thesis
    using IsProtocolRangeValid_loop_safe [OF assms] min_size offset_cases
    by (auto simp: IsProtocolRangeValid_def safe_simps)
qed

end

context protocol_element
begin

text \<open>Walking over a sequence of elements visits each of them once, in order.\<close>

lemma for_range_tiles:
  assumes "tiles (elem_jump elementSize sizeOffset alignment msg) b ps e" and "e \<le> length msg"
    and "\<forall>p\<in>set ps. elem_ok elementSize sizeOffset alignment msg p"
  shows "for_range elementSize sizeOffset alignment msg body b e s = foldE body ps s"
  using assms
proof (induction ps arbitrary: b s)
  case Nil
  then show ?case by (subst for_range.simps) simp
next
  case (Cons p ps)
  let ?j = "elem_jump elementSize sizeOffset alignment msg"
  from Cons.prems have p: "p = b" "0 < ?j b" and t: "tiles ?j (b + ?j b) ps e" by auto
  from tiles_le [OF t] p have le: "b + ?j b \<le> e" "b < e" by simp_all
  then have "iter_jump elementSize sizeOffset alignment msg b = Inr (?j b)"
    using Cons.prems p by (intro iter_jump_ok) auto
  then show ?case
    using le p t Cons by (subst for_range.simps) (auto cong: bindE_cong)
qed

lemma ProtocolRangeItemCount_loop_tiles:
  assumes "tiles (elem_jump elementSize sizeOffset alignment msg) b ps (b + n)" and "b + n \<le> length msg"
    and "\<forall>p\<in>set ps. elem_ok elementSize sizeOffset alignment msg p" and "n mod alignment = 0"
    and "sizeOffset \<noteq> PROTOCOL_ITERATOR_SIZE_FIXED"
  shows "ProtocolRangeItemCount_loop sizeOffset alignment msg b n c = Inr (c + length ps)"
  using assms
proof (induction ps arbitrary: b n c)
  case Nil
  then show ?case by (subst ProtocolRangeItemCount_loop.simps) simp
next
  case (Cons p ps)
  let ?j = "elem_jump elementSize sizeOffset alignment msg"
  from Cons.prems have p: "p = b" "0 < ?j b" and t: "tiles ?j (b + ?j b) ps (b + n)"
    and ok: "elem_ok elementSize sizeOffset alignment msg b" by auto
  from tiles_le [OF t] p have le: "?j b \<le> n" "n \<noteq> 0" by simp_all
  have al: "alignment \<le> n" using Cons.prems(4) le(2) by (meson dvd_imp_le mod_0_imp_dvd neq0_conv)
  have jump: "iter_jump elementSize sizeOffset alignment msg b = Inr (?j b)"
    using Cons.prems(2) le ok by (intro iter_jump_ok) auto
  have "ProtocolRangeItemCount_loop sizeOffset alignment msg (b + ?j b) (n - ?j b) (c + 1)
      = Inr (c + 1 + length ps)"
  proof (rule Cons.IH)
    show "(n - ?j b) mod alignment = 0"
      using Cons.prems(4) ok le by (auto simp: elem_ok_def Let_def intro: mod_sub_multiple)
  qed (use Cons.prems t le in auto)
  with jump le al conditional Cons.prems(5) show ?case
    by (subst ProtocolRangeItemCount_loop.simps)
      (auto simp: iter_jump_def ProtocolElement_size_def get16_def Let_def add.commute [of 2]
        split: if_splits)
qed

lemma tiles_const_length: "tiles (\<lambda>_. k) b ps (b + n) \<Longrightarrow> n = k * length ps"
proof (induction ps arbitrary: b n)
  case (Cons p ps)
  then have t: "tiles (\<lambda>_. k) (b + k) ps (b + n)" by simp
  from tiles_le [OF t] have "k \<le> n" by simp
  with t have "tiles (\<lambda>_. k) (b + k) ps ((b + k) + (n - k))" by simp
  from Cons.IH [OF this] \<open>k \<le> n\<close> show ?case by simp
qed simp

lemma ProtocolRangeItemCount_tiles:
  assumes "tiles (elem_jump elementSize sizeOffset alignment msg) b ps (b + n)" and "b + n \<le> length msg"
    and "\<forall>p\<in>set ps. elem_ok elementSize sizeOffset alignment msg p"
    and "n mod alignment = 0" and "b mod alignment = 0"
  shows "ProtocolRangeItemCount elementSize sizeOffset alignment msg (b, n) = Inr (length ps)"
proof (cases "sizeOffset = PROTOCOL_ITERATOR_SIZE_FIXED")
  case True
  then show ?thesis
    using assms(1) fixed_elem(1) [OF True] fixed_size [OF True] min_size tiles_const_length [of elementSize b ps n]
    by (auto simp: ProtocolRangeItemCount_def)
next
  case False
  then show ?thesis
    using assms ProtocolRangeItemCount_loop_tiles [of msg b ps n 0] offset_cases alignment
    by (auto simp: ProtocolRangeItemCount_def IsPtrAligned_def)
qed

lemma IsProtocolRangeValid_loop_complete:
  assumes "tiles (elem_jump elementSize sizeOffset alignment msg) b ps (b + n)" and "b + n \<le> length msg"
    and "\<forall>p\<in>set ps. elem_ok elementSize sizeOffset alignment msg p" and "n mod alignment = 0"
    and "sizeOffset \<noteq> PROTOCOL_ITERATOR_SIZE_FIXED"
  shows "IsProtocolRangeValid_loop elementSize sizeOffset alignment msg b n = Inr ()"
  using assms
proof (induction ps arbitrary: b n)
  case Nil
  then show ?case by (subst IsProtocolRangeValid_loop.simps) simp
next
  case (Cons p ps)
  let ?j = "elem_jump elementSize sizeOffset alignment msg"
  from Cons.prems have p: "p = b" "0 < ?j b" and t: "tiles ?j (b + ?j b) ps (b + n)"
    and ok: "elem_ok elementSize sizeOffset alignment msg b" by auto
  from tiles_le [OF t] p have le: "?j b \<le> n" "n \<noteq> 0" by simp_all
  have al: "alignment \<le> n" using Cons.prems(4) le(2) by (meson dvd_imp_le mod_0_imp_dvd neq0_conv)
  have m: "(n - ?j b) mod alignment = 0"
    using Cons.prems(4) ok le by (auto simp: elem_ok_def Let_def intro: mod_sub_multiple)
  have 1: "range_elemSize sizeOffset msg b n = Inr (elem_size elementSize sizeOffset msg b)"
    using Cons.prems(2,5) al alignment elem_ok_room [OF ok, of "b + n"] le offset_cases
    by (auto simp: range_elemSize_def elem_size_def get16_def dest: offset_distinct)
  have 2: "range_jumpSize elementSize alignment b (elem_size elementSize sizeOffset msg b) = Inr (?j b)"
    using ok alignment by (auto simp: range_jumpSize_def elem_ok_def elem_jump_def Let_def)
  have "IsProtocolRangeValid_loop elementSize sizeOffset alignment msg (b + ?j b) (n - ?j b) = Inr ()"
    using Cons.prems t le m by (intro Cons.IH) auto
  with 1 2 le al show ?case by (subst IsProtocolRangeValid_loop.simps) simp
qed

end

context protocol_element
begin

lemma IsProtocolRangeValid_iff:
  assumes "b + n \<le> length msg"
  shows "IsProtocolRangeValid elementSize sizeOffset alignment msg (b, n) = Inr () \<longleftrightarrow>
    (sizeOffset \<noteq> PROTOCOL_ITERATOR_SIZE_FIXED \<longrightarrow> n mod alignment = 0 \<and> b mod alignment = 0) \<and>
    (\<exists>ps. tiles (elem_jump elementSize sizeOffset alignment msg) b ps (b + n) \<and>
      (\<forall>p\<in>set ps. elem_ok elementSize sizeOffset alignment msg p))" (is "?valid \<longleftrightarrow> ?al \<and> ?tiles")
proof
  assume valid: ?valid
  with IsProtocolRangeValid_safe [OF assms] have ?tiles by simp
  moreover have ?al
    using valid by (auto simp: IsProtocolRangeValid_def assertE_def reject_def IsPtrAligned_def split: if_splits)
  ultimately show "?al \<and> ?tiles" by blast
next
  assume spec: "?al \<and> ?tiles"
  then obtain ps where ps: "tiles (elem_jump elementSize sizeOffset alignment msg) b ps (b + n)"
    "\<forall>p\<in>set ps. elem_ok elementSize sizeOffset alignment msg p" by blast
  show ?valid
  proof (cases "sizeOffset = PROTOCOL_ITERATOR_SIZE_FIXED")
    case True
    with ps(1) have "n mod elementSize = 0"
      using fixed_elem(1) [OF True] tiles_const_length [of elementSize b ps n] by auto
    with True fixed_size [OF True] min_size show ?thesis
      by (auto simp: IsProtocolRangeValid_def isProtocolRangeFixedValid_def)
  next
    case False
    with spec ps assms show ?thesis
      using IsProtocolRangeValid_loop_complete [OF ps(1) assms ps(2)] min_size offset_cases
      by (auto simp: IsProtocolRangeValid_def IsPtrAligned_def)
  qed
qed

text \<open>What a range check of a whole range gives: the check of each element runs on a
well-formed element that lies inside the range.\<close>

lemma validateInput_safe:
  assumes "b + n \<le> length msg" and "I ctx"
    and elem: "\<And>p ctx. b \<le> p \<Longrightarrow> p + elem_jump elementSize sizeOffset alignment msg p \<le> b + n \<Longrightarrow>
      elem_ok elementSize sizeOffset alignment msg p \<Longrightarrow> I ctx \<Longrightarrow>
      safely (\<lambda>ctx. I ctx \<and> Q p) (validateInput p ctx)"
  shows "safely (\<lambda>ctx. I ctx \<and>
      (\<exists>ps. tiles (elem_jump elementSize sizeOffset alignment msg) b ps (b + n) \<and>
        (\<forall>p\<in>set ps. elem_ok elementSize sizeOffset alignment msg p \<and> Q p)))
    (ProtocolRange_validateInput elementSize sizeOffset alignment validateInput msg (b, n) ctx)"
  unfolding ProtocolRange_validateInput_def
proof (rule safely_bind [OF IsProtocolRangeValid_safe [OF assms(1)]])
  assume "\<exists>ps. tiles (elem_jump elementSize sizeOffset alignment msg) b ps (b + n) \<and>
      (\<forall>p\<in>set ps. elem_ok elementSize sizeOffset alignment msg p)"
  then obtain ps where t: "tiles (elem_jump elementSize sizeOffset alignment msg) b ps (b + n)"
    and ok: "\<forall>p\<in>set ps. elem_ok elementSize sizeOffset alignment msg p" by blast
  have "safely (\<lambda>s. I s \<and> (\<forall>p\<in>set ps. Q p)) (foldE validateInput ps ctx)"
    using t ok assms tiles_bounds [OF t] by (intro foldE_safe) auto
  with t ok assms(1) for_range_tiles [OF t _ ok, of validateInput ctx]
  show "safely (\<lambda>ctx. I ctx \<and> (\<exists>ps. tiles (elem_jump elementSize sizeOffset alignment msg) b ps (b + n) \<and>
        (\<forall>p\<in>set ps. elem_ok elementSize sizeOffset alignment msg p \<and> Q p)))
    (for_range elementSize sizeOffset alignment msg validateInput (fst (b, n)) (fst (b, n) + snd (b, n)) ctx)"
    by (auto elim!: safely_mono)
qed

end

interpretation elem: protocol_element "elem_sizeof t" "elem_sizeOffset t" "elem_alignment t" for t
proof (unfold_locales, goal_cases)
  case 1
  show ?case by (cases t) simp_all
qed (cases t; simp add: PROTOCOL_ITERATOR_SIZE_CONDITIONAL_def PROTOCOL_ITERATOR_SIZE_FIXED_def)+

section \<open>The range check is exact\<close>


definition sample_actions :: bytes where
  "sample_actions = be16 0 @ be16 16 @ replicate 12 0 @ be16 11 @ be16 8 @ replicate 4 0"

lemma sample_actions_valid:
  "IsProtocolRangeValid (elem_sizeof ActionItem) (elem_sizeOffset ActionItem) (elem_alignment ActionItem)
     sample_actions (0, 24) = Inr ()"
  by code_simp


text \<open>C23: Walking over an accepted range visits every element exactly once and in order, and the
item count is the number of elements visited.\<close>

theorem range_iteration:
  assumes "b + n \<le> length msg" and "b mod elem_alignment t = 0" and "n mod elem_alignment t = 0"
    and "IsProtocolRangeValid (elem_sizeof t) (elem_sizeOffset t) (elem_alignment t) msg (b, n) = Inr ()"
  shows "\<exists>ps. tiles (elem_jump (elem_sizeof t) (elem_sizeOffset t) (elem_alignment t) msg) b ps (b + n) \<and>
    for_range (elem_sizeof t) (elem_sizeOffset t) (elem_alignment t) msg (\<lambda>p vs. Inr (vs @ [p])) b (b + n) [] = Inr ps \<and>
    ProtocolRangeItemCount (elem_sizeof t) (elem_sizeOffset t) (elem_alignment t) msg (b, n) = Inr (length ps)"
proof -
  from elem.IsProtocolRangeValid_iff [OF assms(1), of t] assms(4) obtain ps where
    t: "tiles (elem_jump (elem_sizeof t) (elem_sizeOffset t) (elem_alignment t) msg) b ps (b + n)"
    and ok: "\<forall>p\<in>set ps. elem_ok (elem_sizeof t) (elem_sizeOffset t) (elem_alignment t) msg p" by blast
  have "foldE (\<lambda>p vs. Inr (vs @ [p])) qs vs = Inr (vs @ qs)" for qs vs
    by (induction qs arbitrary: vs) simp_all
  from this [of ps "[]"] show ?thesis
    using t elem.for_range_tiles [OF t assms(1) ok, of "\<lambda>p vs. Inr (vs @ [p])" "[]"]
      elem.ProtocolRangeItemCount_tiles [OF t assms(1) ok assms(3,2)]
    by (intro exI [of _ ps]) simp
qed

theorem range_iteration_witness:
  "ProtocolRangeItemCount 4 2 8 sample_actions (0, 24) = Inr 2 \<and>
   (\<exists>ps. tiles (elem_jump 4 2 8 sample_actions) 0 ps 24 \<and> length ps = 2)"
proof -
  have "(0 :: nat) + 24 \<le> length sample_actions" by (simp add: sample_actions_def)
  then have "\<exists>ps. tiles (elem_jump 4 2 8 sample_actions) 0 ps 24 \<and>
      ProtocolRangeItemCount 4 2 8 sample_actions (0, 24) = Inr (length ps)"
    using range_iteration [of 0 24 sample_actions ActionItem] sample_actions_valid by auto
  moreover have "ProtocolRangeItemCount 4 2 8 sample_actions (0, 24) = Inr 2" by code_simp
  ultimately show ?thesis by auto
qed

end
