(* ===== verification/OXM.thy ===== *)
theory OXM
  imports ProtocolRange HexCodec "HOL-Library.Signed_Division"
begin

text \<open>
  Match fields (\<^verbatim>\<open>include/ofp/oxmtype.h\<close>, \<^verbatim>\<open>include/ofp/oxmiterator.h\<close>,
  \<^verbatim>\<open>include/ofp/oxmrange.h\<close>). A field is a four byte type (class, field number, mask bit, length)
  followed by as many bytes as the length says. The type is its 32 bit number; the source keeps it
  in network order and converts on access.
\<close>

section \<open>OXMType\<close>

type_synonym OXMType = u32

definition OXMType_make :: "u16 \<Rightarrow> byte \<Rightarrow> u16 \<Rightarrow> bool \<Rightarrow> OXMType" where
  "OXMType_make oxmClass oxmField oxmSize oxmMask =
     push_bit 16 (ucast oxmClass) OR push_bit 9 (ucast (oxmField AND 0x7F)) OR
     (if oxmMask then 0x0100 else 0) OR ucast oxmSize"

definition oxm_class :: "OXMType \<Rightarrow> u16" where
  "oxm_class t = ucast (drop_bit 16 t)"

definition oxm_field :: "OXMType \<Rightarrow> byte" where
  "oxm_field t = ucast (drop_bit 9 t AND 0x7F)"

definition oxm_size :: "OXMType \<Rightarrow> byte" where
  "oxm_size t = ucast (t AND 0xFF)"

definition oxm_length :: "OXMType \<Rightarrow> nat" where
  "oxm_length t = unat (t AND 0xFF)"

definition oxm_hasMask :: "OXMType \<Rightarrow> bool" where
  "oxm_hasMask t = (t AND 0x0100 \<noteq> 0)"

definition oxm_isIllegal :: "OXMType \<Rightarrow> bool" where
  "oxm_isIllegal t = (oxm_hasMask t \<and> oxm_length t = 0)"

definition oxm_isExperimenter :: "OXMType \<Rightarrow> bool" where
  "oxm_isExperimenter t = (oxm_class t = 0xffff)"

definition oxm_expSize :: "OXMType \<Rightarrow> int" where
  "oxm_expSize t = (if oxm_isExperimenter t then 4 else 0)"

text \<open>The sizes are computed as \<^verbatim>\<open>int\<close> and converted to the 16 bit parameter of \<^verbatim>\<open>make\<close>.\<close>

definition oxm_withMask :: "OXMType \<Rightarrow> OXMType" where
  "oxm_withMask t =
     (if oxm_hasMask t then t
      else OXMType_make (oxm_class t) (oxm_field t)
        (word_of_int ((uint (oxm_size t) - oxm_expSize t) * 2 + oxm_expSize t)) True)"

definition oxm_withoutMask :: "OXMType \<Rightarrow> OXMType" where
  "oxm_withoutMask t =
     (if \<not> oxm_hasMask t then t
      else OXMType_make (oxm_class t) (oxm_field t)
        (word_of_int ((uint (oxm_size t) - oxm_expSize t) sdiv 2 + oxm_expSize t)) False)"

definition oxm_zeroLength :: "OXMType \<Rightarrow> OXMType" where
  "oxm_zeroLength t = t AND NOT 0xFF"

section \<open>OXMRange\<close>

function OXMRange_validateInput_loop :: "bytes \<Rightarrow> nat \<Rightarrow> nat \<Rightarrow> fault + bool" where
  "OXMRange_validateInput_loop msg pos left =
     (if left = 0 then Inr True
      else if left < 4 then Inr False
      else bindE (get8 (pos + 3) msg) (\<lambda>n.
        let len = 4 + unat n in
        if left < len then Inr False
        else OXMRange_validateInput_loop msg (pos + len) (left - len)))"
  by pat_completeness auto
termination by (relation "measure (\<lambda>(_, _, left). left)") auto

declare OXMRange_validateInput_loop.simps [simp del]

definition OXMRange_validateInput :: "bytes \<Rightarrow> ByteRange \<Rightarrow> fault + bool" where
  "OXMRange_validateInput msg rng = OXMRange_validateInput_loop msg (fst rng) (snd rng)"

definition OXMRange_validateInput_paddedField :: "bytes \<Rightarrow> ByteRange \<Rightarrow> fault + bool" where
  "OXMRange_validateInput_paddedField msg rng =
     (let (pos, left) = rng in
      if left < 4 then Inr False
      else bindE (get8 (pos + 3) msg) (\<lambda>n.
        let len = 4 + unat n in
        if left < len then Inr False
        else if left - len \<le> 7 \<and> pos + left > length msg then Inl (OutOfBounds (pos + len) (left - len))
        else Inr (left - len \<le> 7 \<and> IsMemFilled (sub_bytes (pos + len) (left - len) msg) 0)))"

text \<open>\<^verbatim>\<open>OXMIterator\<close>: an item is found by its offset; the loop stops at or after the end.\<close>

definition oxm_type_at :: "bytes \<Rightarrow> nat \<Rightarrow> fault + OXMType" where
  "oxm_type_at msg pos = get32 pos msg"

function OXMRange_find :: "bytes \<Rightarrow> OXMType \<Rightarrow> nat \<Rightarrow> nat \<Rightarrow> fault + nat option" where
  "OXMRange_find msg t pos e =
     (if \<not> pos < e then Inr None
      else bindE (oxm_type_at msg pos) (\<lambda>u.
        if u = t then Inr (Some pos)
        else bindE (get8 (pos + 3) msg) (\<lambda>n. OXMRange_find msg t (pos + (4 + unat n)) e)))"
  by pat_completeness auto
termination by (relation "measure (\<lambda>(_, _, pos, e). e - pos)") auto

declare OXMRange_find.simps [simp del]

definition OXMRange_exists :: "bytes \<Rightarrow> OXMType \<Rightarrow> ByteRange \<Rightarrow> fault + bool" where
  "OXMRange_exists msg t rng =
     bindE (OXMRange_find msg t (fst rng) (fst rng + snd rng)) (\<lambda>r. Inr (r \<noteq> None))"

section \<open>Types with and without mask\<close>

lemma bit_constants:
  "bit (0x7F :: int) n \<longleftrightarrow> n < 7" "bit (0xFF :: int) n \<longleftrightarrow> n < 8" "bit (0x0100 :: int) n \<longleftrightarrow> n = 8"
proof -
  have m: "(0x7F :: int) = mask 7" "(0xFF :: int) = mask 8" "(0x0100 :: int) = push_bit 8 1"
    by (simp_all add: mask_eq_exp_minus_1 push_bit_eq_mult)
  show "bit (0x7F :: int) n \<longleftrightarrow> n < 7" unfolding m(1) bit_mask_iff by simp
  show "bit (0xFF :: int) n \<longleftrightarrow> n < 8" unfolding m(2) bit_mask_iff by simp
  show "bit (0x0100 :: int) n \<longleftrightarrow> n = 8" unfolding m(3) bit_push_bit_iff by (auto simp: bit_1_iff)
qed

lemma hasMask_bit: "oxm_hasMask t \<longleftrightarrow> bit t 8"
proof -
  have "t AND 0x0100 = (if bit t 8 then 0x0100 else 0)"
    by (rule bit_word_eqI) (auto simp: bit_and_iff bit_constants)
  then show ?thesis by (simp add: oxm_hasMask_def)
qed

lemma small_word_bit: "unat (s :: u16) < 256 \<Longrightarrow> bit s n \<Longrightarrow> n < 8"
proof (rule ccontr)
  assume s: "unat s < 256" and n: "bit s n" and "\<not> n < 8"
  then have "(2 :: nat) ^ 8 \<le> 2 ^ n" by (intro power_increasing) simp_all
  with s have "unat s div 2 ^ n = 0" by simp
  moreover have "bit (unat s) n" using n by (simp add: bit_unsigned_iff)
  ultimately show False by (simp add: bit_iff_odd)
qed

lemma OXMType_parts:
  "OXMType_make (oxm_class t) (oxm_field t) (ucast (oxm_size t)) (oxm_hasMask t) = t"
proof (rule bit_word_eqI)
  fix n assume "n < LENGTH(32)"
  then show "bit (OXMType_make (oxm_class t) (oxm_field t) (ucast (oxm_size t)) (oxm_hasMask t)) n = bit t n"
    by (cases "n < 8 \<or> n = 8 \<or> 8 < n \<and> n < 16")
      (auto simp: OXMType_make_def oxm_class_def oxm_field_def oxm_size_def hasMask_bit
        bit_or_iff bit_and_iff bit_push_bit_iff bit_drop_bit_eq bit_unsigned_iff bit_constants)
qed

text \<open>A type is determined by its parts, and each part can be read back.\<close>

lemma OXMType_make_parts:
  assumes "unat s < 256"
  shows "oxm_class (OXMType_make c f s m) = c" and "oxm_field (OXMType_make c f s m) = f AND 0x7F"
    and "oxm_size (OXMType_make c f s m) = ucast s" and "oxm_hasMask (OXMType_make c f s m) = m"
proof -
  note small = small_word_bit [OF assms]
  note simps = OXMType_make_def oxm_class_def oxm_field_def oxm_size_def bit_or_iff bit_and_iff
    bit_push_bit_iff bit_drop_bit_eq bit_unsigned_iff bit_constants
  show "oxm_class (OXMType_make c f s m) = c"
    by (rule bit_word_eqI) (auto simp: simps dest: small)
  show "oxm_field (OXMType_make c f s m) = f AND 0x7F"
    by (rule bit_word_eqI) (auto simp: simps dest: small)
  show "oxm_size (OXMType_make c f s m) = ucast s"
    by (rule bit_word_eqI) (auto simp: simps dest: small)
  show "oxm_hasMask (OXMType_make c f s m) = m"
    by (auto simp: hasMask_bit simps dest: small)
qed

lemma oxm_field_mask [simp]: "oxm_field t AND 0x7F = oxm_field t"
  by (rule bit_word_eqI) (auto simp: oxm_field_def bit_and_iff bit_unsigned_iff bit_constants)

lemma oxm_length_size: "oxm_length t = unat (oxm_size t)"
proof -
  have "t AND 0xFF = take_bit 8 t"
    by (rule bit_word_eqI) (auto simp: bit_and_iff bit_take_bit_iff bit_constants)
  then have "unat (t AND 0xFF) = take_bit 8 (unat t)" by (simp add: unsigned_take_bit_eq)
  then have "unat (t AND 0xFF) < 256" by (simp add: take_bit_eq_mod)
  then show ?thesis by (simp add: oxm_length_def oxm_size_def unat_ucast_mod)
qed

definition oxm_expBytes :: "OXMType \<Rightarrow> nat" where
  "oxm_expBytes t = (if oxm_isExperimenter t then 4 else 0)"

lemma oxm_expSize_nat: "oxm_expSize t = int (oxm_expBytes t)"
  by (simp add: oxm_expSize_def oxm_expBytes_def)

text \<open>C25: Adding a mask to the type of an unmasked field sets the mask bit and doubles the length
of the value, leaving class, field number and the experimenter part alone, and removing the mask
again gives the original type, as long as the doubled length fits the length byte and an
experimenter field has room for the experimenter identifier.\<close>

theorem oxm_mask_round_trip:
  assumes "\<not> oxm_hasMask t" and "oxm_expBytes t \<le> oxm_length t"
    and "2 * (oxm_length t - oxm_expBytes t) + oxm_expBytes t < 256"
  shows "oxm_hasMask (oxm_withMask t) \<and>
    oxm_length (oxm_withMask t) = 2 * (oxm_length t - oxm_expBytes t) + oxm_expBytes t \<and>
    oxm_class (oxm_withMask t) = oxm_class t \<and> oxm_field (oxm_withMask t) = oxm_field t \<and>
    oxm_withoutMask (oxm_withMask t) = t"
proof -
  define n where "n = 2 * (oxm_length t - oxm_expBytes t) + oxm_expBytes t"
  have n: "n < 256" using assms(3) by (simp add: n_def)
  have i: "(uint (oxm_size t) - oxm_expSize t) * 2 + oxm_expSize t = int n"
    using assms(2) by (simp add: n_def oxm_expSize_nat oxm_length_size)
  have w: "oxm_withMask t = OXMType_make (oxm_class t) (oxm_field t) (of_nat n) True"
    using assms(1) i by (simp add: oxm_withMask_def)
  have s: "unat (of_nat n :: u16) < 256" using n by (simp add: unat_of_nat)
  note parts = OXMType_make_parts [OF s, of "oxm_class t" "oxm_field t" True, folded w]
  have len: "oxm_length (oxm_withMask t) = n"
    using n by (simp add: oxm_length_size parts(3) unat_ucast_mod unat_of_nat)
  have exp: "oxm_expSize (oxm_withMask t) = oxm_expSize t"
    by (simp add: oxm_expSize_def oxm_isExperimenter_def parts(1))
  have "uint (oxm_size (oxm_withMask t)) = int n"
    using len by (auto simp: oxm_length_size)
  then have "uint (oxm_size (oxm_withMask t)) - oxm_expSize t = 2 * int (oxm_length t - oxm_expBytes t)"
    by (simp add: n_def oxm_expSize_nat)
  moreover have "(2 * int k) sdiv 2 = int k" for k by (simp add: signed_divide_int_def sgn_if)
  ultimately have "(uint (oxm_size (oxm_withMask t)) - oxm_expSize t) sdiv 2 = int (oxm_length t - oxm_expBytes t)"
    by simp
  then have "(uint (oxm_size (oxm_withMask t)) - oxm_expSize (oxm_withMask t)) sdiv 2 +
      oxm_expSize (oxm_withMask t) = uint (oxm_size t)"
    using assms(2) unfolding exp by (simp add: oxm_expSize_nat oxm_length_size)
  then have "oxm_withoutMask (oxm_withMask t) =
      OXMType_make (oxm_class t) (oxm_field t) (ucast (oxm_size t)) (oxm_hasMask t)"
    using assms(1) by (simp add: oxm_withoutMask_def parts)
  then have "oxm_withoutMask (oxm_withMask t) = t" by (simp only: OXMType_parts)
  with parts len show ?thesis by (simp add: n_def)
qed

theorem oxm_mask_round_trip_witness:
  "oxm_withMask 0x80000C02 = 0x80000D04 \<and> oxm_withoutMask (oxm_withMask 0x80000C02) = 0x80000C02"
proof -
  have "\<not> oxm_hasMask 0x80000C02" "oxm_expBytes 0x80000C02 \<le> oxm_length 0x80000C02"
    "2 * (oxm_length 0x80000C02 - oxm_expBytes 0x80000C02) + oxm_expBytes 0x80000C02 < 256"
    by code_simp+
  from oxm_mask_round_trip [OF this] have "oxm_withoutMask (oxm_withMask 0x80000C02) = 0x80000C02" by blast
  moreover have "oxm_withMask 0x80000C02 = 0x80000D04" by code_simp
  ultimately show ?thesis by blast
qed

section \<open>Ranges of fields\<close>

definition oxm_jump :: "bytes \<Rightarrow> nat \<Rightarrow> nat" where
  "oxm_jump msg p = 4 + unat (rd8 (p + 3) msg)"

lemma OXMRange_validateInput_loop_iff:
  assumes "pos + left \<le> length msg"
  shows "\<exists>r. OXMRange_validateInput_loop msg pos left = Inr r \<and>
    (r \<longleftrightarrow> (\<exists>ps. tiles (oxm_jump msg) pos ps (pos + left)))"
  using assms
proof (induction left arbitrary: pos rule: less_induct)
  case (less left)
  let ?j = "oxm_jump msg pos"
  show ?case
  proof (cases "left = 0 \<or> left < ?j")
    case True
    have "(\<exists>ps. tiles (oxm_jump msg) pos ps (pos + left)) \<longleftrightarrow> left = 0"
    proof
      assume "\<exists>ps. tiles (oxm_jump msg) pos ps (pos + left)"
      then obtain ps where t: "tiles (oxm_jump msg) pos ps (pos + left)" by blast
      show "left = 0"
      proof (cases ps)
        case (Cons p qs)
        with t have "tiles (oxm_jump msg) (pos + ?j) qs (pos + left)" by simp
        from tiles_le [OF this] True show ?thesis by (simp add: oxm_jump_def)
      qed (use t in simp)
    qed (auto intro: exI [of _ "[]"])
    with True less.prems show ?thesis
      by (subst OXMRange_validateInput_loop.simps) (auto simp: get8_def oxm_jump_def Let_def)
  next
    case False
    then have le: "?j \<le> left" "4 \<le> left" by (simp_all add: oxm_jump_def)
    have "left - ?j < left" using le by (simp add: oxm_jump_def)
    with less.IH [of "left - ?j" "pos + ?j"] less.prems le obtain r where
      r: "OXMRange_validateInput_loop msg (pos + ?j) (left - ?j) = Inr r"
      "r \<longleftrightarrow> (\<exists>ps. tiles (oxm_jump msg) (pos + ?j) ps (pos + left))"
      by auto
    have "(\<exists>ps. tiles (oxm_jump msg) pos ps (pos + left)) \<longleftrightarrow> r"
    proof
      assume "\<exists>ps. tiles (oxm_jump msg) pos ps (pos + left)"
      then obtain ps where t: "tiles (oxm_jump msg) pos ps (pos + left)" by blast
      with False show r unfolding r(2) by (cases ps) auto
    next
      assume r
      then obtain ps where "tiles (oxm_jump msg) (pos + ?j) ps (pos + left)" using r(2) by blast
      then show "\<exists>ps. tiles (oxm_jump msg) pos ps (pos + left)"
        by (intro exI [of _ "pos # ps"]) (simp add: oxm_jump_def)
    qed
    with r(1) le less.prems show ?thesis
      by (subst OXMRange_validateInput_loop.simps) (auto simp: get8_def oxm_jump_def Let_def)
  qed
qed

lemma OXMRange_validateInput_safe:
  assumes "fst rng + snd rng \<le> length msg"
  shows "safely (\<lambda>r. r \<longleftrightarrow> (\<exists>ps. tiles (oxm_jump msg) (fst rng) ps (fst rng + snd rng)))
    (OXMRange_validateInput msg rng)"
  using OXMRange_validateInput_loop_iff [OF assms] by (auto simp: OXMRange_validateInput_def)

lemma OXMRange_find_tiles:
  assumes "tiles (oxm_jump msg) pos ps e" and "e \<le> length msg"
  shows "OXMRange_find msg t pos e = Inr (find (\<lambda>p. rd32 p msg = t) ps)"
  using assms
proof (induction ps arbitrary: pos)
  case Nil
  then show ?case by (subst OXMRange_find.simps) simp
next
  case (Cons p ps)
  then have p: "p = pos" and t: "tiles (oxm_jump msg) (pos + oxm_jump msg pos) ps e" by auto
  from tiles_le [OF t] Cons.prems have "pos + 4 \<le> length msg" "pos < e"
    by (simp_all add: oxm_jump_def)
  with p t Cons show ?case
    by (subst OXMRange_find.simps) (auto simp: oxm_type_at_def get32_def get8_def oxm_jump_def)
qed

text \<open>C24: Checking a list of match fields that lies inside the message always returns without
leaving the message, and accepts exactly when the bytes split into whole fields; searching an
accepted list then returns the first field of the given type, and none when there is none.\<close>

theorem oxm_range_exact:
  assumes "b + n \<le> length msg"
  shows "\<exists>r. OXMRange_validateInput msg (b, n) = Inr r \<and>
    (r \<longleftrightarrow> (\<exists>ps. tiles (oxm_jump msg) b ps (b + n))) \<and>
    (\<forall>ps t. tiles (oxm_jump msg) b ps (b + n) \<longrightarrow>
      OXMRange_find msg t b (b + n) = Inr (find (\<lambda>p. rd32 p msg = t) ps) \<and>
      OXMRange_exists msg t (b, n) = Inr (\<exists>p\<in>set ps. rd32 p msg = t))"
proof -
  have found: "find P xs \<noteq> None \<longleftrightarrow> (\<exists>x\<in>set xs. P x)" for P and xs :: "nat list"
    by (auto simp: find_None_iff)
  obtain r where r: "OXMRange_validateInput msg (b, n) = Inr r"
    "r \<longleftrightarrow> (\<exists>ps. tiles (oxm_jump msg) b ps (b + n))"
    using OXMRange_validateInput_loop_iff [OF assms] by (auto simp: OXMRange_validateInput_def)
  then show ?thesis
    using OXMRange_find_tiles [OF _ assms]
    by (intro exI [of _ r]) (simp add: OXMRange_exists_def found del: not_None_eq)
qed

definition sample_oxm :: bytes where
  "sample_oxm = [0x80, 0, 0, 4, 0, 0, 0, 1, 0x80, 0, 0x0A, 2, 8, 0]"

theorem oxm_range_exact_witness:
  "OXMRange_validateInput sample_oxm (0, 14) = Inr True \<and>
   OXMRange_find sample_oxm 0x80000A02 0 14 = Inr (Some 8)"
proof -
  have "(0 :: nat) + 14 \<le> length sample_oxm" by (simp add: sample_oxm_def)
  from oxm_range_exact [OF this] obtain r where r: "OXMRange_validateInput sample_oxm (0, 14) = Inr r"
    "r \<longleftrightarrow> (\<exists>ps. tiles (oxm_jump sample_oxm) 0 ps (0 + 14))"
    "\<forall>ps t. tiles (oxm_jump sample_oxm) 0 ps (0 + 14) \<longrightarrow>
      OXMRange_find sample_oxm t 0 (0 + 14) = Inr (find (\<lambda>p. rd32 p sample_oxm = t) ps)" by blast
  have t: "tiles (oxm_jump sample_oxm) 0 [0, 8] (0 + 14)" by code_simp
  then have "r = True" using r(2) by blast
  with r(1) r(3) [rule_format, OF t, of "0x80000A02"]
  have "OXMRange_validateInput sample_oxm (0, 14) = Inr True \<and>
      OXMRange_find sample_oxm 0x80000A02 0 (0 + 14) = Inr (find (\<lambda>p. rd32 p sample_oxm = 0x80000A02) [0, 8])"
    by simp
  moreover have "find (\<lambda>p. rd32 p sample_oxm = 0x80000A02) [0, 8] = Some 8" by code_simp
  ultimately show ?thesis by simp
qed

end
