(* ===== verification/MessageParts.thy ===== *)
theory MessageParts
  imports OXM
begin

text \<open>
  The parts messages are made of: match and stat headers (\<^verbatim>\<open>src/ofp/matchheader.cpp\<close>,
  \<^verbatim>\<open>statheader.cpp\<close>), actions (\<^verbatim>\<open>actionrange.cpp\<close>), instructions (\<^verbatim>\<open>instructionrange.cpp\<close>),
  properties, buckets, ports, queues and tables, each with its \<^verbatim>\<open>validateInput\<close>. Every validator
  is the whole method of the source; \<open>p\<close> is the offset of \<^verbatim>\<open>this\<close>.
\<close>

section \<open>Match and stat headers\<close>

definition OFPMT_STANDARD :: u16 where "OFPMT_STANDARD = 0"
definition OFPMT_OXM :: u16 where "OFPMT_OXM = 1"
definition OFPMT_STANDARD_LENGTH :: nat where "OFPMT_STANDARD_LENGTH = 88"

definition MatchHeader_validateInput :: "bytes \<Rightarrow> nat \<Rightarrow> validator" where
  "MatchHeader_validateInput msg lengthRemaining p ctx =
     (if lengthRemaining < 4 then reject (MatchIsInvalid ''Insufficient bytes'' p)
      else if \<not> IsPtrAligned p 8 then reject (MatchIsInvalid ''Not aligned'' p)
      else
        bindE (get16 p msg) (\<lambda>matchType.
        bindE (get16 (p + 2) msg) (\<lambda>len.
        let matchLength = unat len in
        if v_version ctx < 4 \<and> matchType = OFPMT_STANDARD then
          (if matchLength \<noteq> OFPMT_STANDARD_LENGTH
           then reject (MatchIsInvalid ''Invalid match length'' p) else Inr ctx)
        else if matchType \<noteq> OFPMT_OXM then reject (MatchIsInvalid ''Invalid match type'' p)
        else if matchLength < 4 then reject (MatchIsInvalid ''Invalid match length'' p)
        else if PadLength matchLength > lengthRemaining
          then reject (MatchIsInvalid ''Invalid remaining length'' p)
        else bindE (OXMRange_validateInput msg (p + 4, matchLength - 4)) (\<lambda>ok.
          if \<not> ok then reject (MatchIsInvalid ''Invalid oxm range'' p) else Inr ctx))))"

definition MatchHeader_paddedLength :: "bytes \<Rightarrow> nat \<Rightarrow> fault + nat" where
  "MatchHeader_paddedLength msg p = bindE (get16 (p + 2) msg) (\<lambda>len. Inr (PadLength (unat len)))"

definition StatHeader_validateInput :: "bytes \<Rightarrow> nat \<Rightarrow> validator" where
  "StatHeader_validateInput msg lengthRemaining p ctx =
     (if lengthRemaining < 4 then reject (MatchIsInvalid ''Insufficient bytes'' p)
      else if \<not> IsPtrAligned p 8 then reject (MatchIsInvalid ''Not aligned'' p)
      else
        bindE (get16 p msg) (\<lambda>reserved.
        if reserved \<noteq> 0 then reject (MatchIsInvalid ''Invalid reserved type'' p)
        else bindE (get16 (p + 2) msg) (\<lambda>len.
          let statLength = unat len in
          if statLength < 4 then reject (MatchIsInvalid ''Invalid stat length'' p)
          else if PadLength statLength > lengthRemaining
            then reject (MatchIsInvalid ''Invalid remaining length'' p)
          else bindE (OXMRange_validateInput msg (p + 4, statLength - 4)) (\<lambda>ok.
            if \<not> ok then reject (MatchIsInvalid ''Invalid oxm range'' p) else Inr ctx))))"

section \<open>Actions\<close>

definition OFPAT_SET_FIELD :: u16 where "OFPAT_SET_FIELD = 25"
definition OFPAT_EXPERIMENTER :: u16 where "OFPAT_EXPERIMENTER = 0xFFFF"
definition NICIRA :: u32 where "NICIRA = 0x00002320"
definition NXAST_REG_MOVE :: u16 where "NXAST_REG_MOVE = 6"
definition NXAST_REG_LOAD :: u16 where "NXAST_REG_LOAD = 7"

definition accept :: validator where
  "accept = (\<lambda>p ctx. Inr ctx)"

abbreviation elems_validateInput ::
  "element_type \<Rightarrow> validator \<Rightarrow> bytes \<Rightarrow> ByteRange \<Rightarrow> Validation \<Rightarrow> fault + Validation" where
  "elems_validateInput t \<equiv> ProtocolRange_validateInput (elem_sizeof t) (elem_sizeOffset t) (elem_alignment t)"

abbreviation for_elems ::
  "element_type \<Rightarrow> bytes \<Rightarrow> validator \<Rightarrow> nat \<Rightarrow> nat \<Rightarrow> Validation \<Rightarrow> fault + Validation" where
  "for_elems t \<equiv> for_range (elem_sizeof t) (elem_sizeOffset t) (elem_alignment t)"

definition validateInput_SetField :: "bytes \<Rightarrow> validator" where
  "validateInput_SetField msg p ctx =
     bindE (get16 (p + 2) msg) (\<lambda>len.
     if unat len < 16 then reject Unreported
     else bindE (OXMRange_validateInput_paddedField msg (p + 4, unat len - 4)) (\<lambda>ok.
       if \<not> ok then reject Unreported else Inr ctx))"

definition AT_EXPERIMENTER_validateInput :: "bytes \<Rightarrow> validator" where
  "AT_EXPERIMENTER_validateInput msg p ctx =
     bindE (get16 (p + 2) msg) (\<lambda>len.
     bindE (validateBool (unat len \<ge> 8) ''Invalid EXPERIMENTER action'') (\<lambda>_. Inr ctx))"

definition AT_REGMOVE_validateInput :: "bytes \<Rightarrow> validator" where
  "AT_REGMOVE_validateInput msg p ctx =
     bindE (get16 (p + 2) msg) (\<lambda>len.
     bindE (validateBool (unat len = 24) ''Invalid AT_NX_REGMOVE action'') (\<lambda>_. Inr ctx))"

definition AT_REGLOAD_validateInput :: "bytes \<Rightarrow> validator" where
  "AT_REGLOAD_validateInput msg p ctx =
     bindE (get16 (p + 2) msg) (\<lambda>len.
     bindE (validateBool (unat len = 24) ''Invalid AT_NX_REGLOAD action'') (\<lambda>_. Inr ctx))"

definition validateInput_NICIRA :: "bytes \<Rightarrow> validator" where
  "validateInput_NICIRA msg p ctx =
     bindE (get32 (p + 4) msg) (\<lambda>experimenterid.
     bindE (assertE (experimenterid = NICIRA)) (\<lambda>_.
     bindE (get16 (p + 2) msg) (\<lambda>len.
     if unat len < 10 then bindE (validateBool False ''Invalid Nicira action size'') (\<lambda>_. Inr ctx)
     else bindE (get16 (p + 8) msg) (\<lambda>subtype.
       if subtype = NXAST_REG_MOVE then AT_REGMOVE_validateInput msg p ctx
       else if subtype = NXAST_REG_LOAD then AT_REGLOAD_validateInput msg p ctx
       else Inr ctx))))"

definition Action_validateInput :: "bytes \<Rightarrow> validator" where
  "Action_validateInput msg p ctx =
     bindE (get16 p msg) (\<lambda>t.
     if t = OFPAT_SET_FIELD then validateInput_SetField msg p ctx
     else if t = OFPAT_EXPERIMENTER then
       bindE (AT_EXPERIMENTER_validateInput msg p ctx) (\<lambda>ctx.
       bindE (get32 (p + 4) msg) (\<lambda>experimenterid.
       if experimenterid = NICIRA then validateInput_NICIRA msg p ctx else Inr ctx))
     else Inr ctx)"

definition ActionRange_validateInput :: "bytes \<Rightarrow> ByteRange \<Rightarrow> Validation \<Rightarrow> fault + Validation" where
  "ActionRange_validateInput msg rng ctx =
     bindE (elems_validateInput ActionItem accept msg rng ctx) (\<lambda>ctx.
     for_elems ActionItem msg (Action_validateInput msg) (fst rng) (fst rng + snd rng) ctx)"

section \<open>Instructions\<close>

definition OFPIT_WRITE_ACTIONS :: u16 where "OFPIT_WRITE_ACTIONS = 3"
definition OFPIT_APPLY_ACTIONS :: u16 where "OFPIT_APPLY_ACTIONS = 4"
definition OFPIT_EXPERIMENTER :: u16 where "OFPIT_EXPERIMENTER = 0xFFFF"

definition IT_WithActions_validateInput :: "bytes \<Rightarrow> validator" where
  "IT_WithActions_validateInput msg p ctx =
     bindE (get16 (p + 2) msg) (\<lambda>len.
     bindE (validateBool (unat len \<ge> 8) ''Invalid Instruction length'') (\<lambda>_.
     ActionRange_validateInput msg (SafeByteRange p (unat len) 8) ctx))"

definition IT_EXPERIMENTER_validateInput :: "bytes \<Rightarrow> validator" where
  "IT_EXPERIMENTER_validateInput msg p ctx =
     bindE (get16 (p + 2) msg) (\<lambda>len.
     bindE (validateBool (unat len \<ge> 8) ''Invalid Experimenter instruction'') (\<lambda>_. Inr ctx))"

definition Instruction_validateInput :: "bytes \<Rightarrow> validator" where
  "Instruction_validateInput msg p ctx =
     bindE (get16 p msg) (\<lambda>t.
     if t = OFPIT_WRITE_ACTIONS \<or> t = OFPIT_APPLY_ACTIONS then IT_WithActions_validateInput msg p ctx
     else if t = OFPIT_EXPERIMENTER then IT_EXPERIMENTER_validateInput msg p ctx
     else Inr ctx)"

definition InstructionRange_validateInput :: "bytes \<Rightarrow> ByteRange \<Rightarrow> Validation \<Rightarrow> fault + Validation" where
  "InstructionRange_validateInput msg rng ctx =
     bindE (elems_validateInput InstructionItem accept msg rng ctx) (\<lambda>ctx.
     for_elems InstructionItem msg (Instruction_validateInput msg) (fst rng) (fst rng + snd rng) ctx)"

section \<open>Properties\<close>

definition PropertyRange_validateInput :: "bytes \<Rightarrow> ByteRange \<Rightarrow> Validation \<Rightarrow> fault + Validation" where
  "PropertyRange_validateInput msg rng ctx = elems_validateInput PropertyItem accept msg rng ctx"

definition ExperimenterProperty_validateInput :: "bytes \<Rightarrow> validator" where
  "ExperimenterProperty_validateInput msg p ctx =
     bindE (get16 (p + 2) msg) (\<lambda>len.
     bindE (validateBool (unat len \<ge> 12) ''Invalid Experimenter property'') (\<lambda>_. Inr ctx))"

definition QueuePropertyExperimenter_validateInput :: "bytes \<Rightarrow> validator" where
  "QueuePropertyExperimenter_validateInput msg p ctx =
     bindE (get16 (p + 2) msg) (\<lambda>len. bindE (require (unat len \<ge> 16)) (\<lambda>_. Inr ctx))"

definition OFPQT_EXPERIMENTER :: u16 where "OFPQT_EXPERIMENTER = 0xffff"

definition QueuePropertyValidator_validateInput ::
  "bytes \<Rightarrow> ByteRange \<Rightarrow> Validation \<Rightarrow> fault + Validation" where
  "QueuePropertyValidator_validateInput msg rng ctx =
     for_elems PropertyItem msg (\<lambda>p ctx. bindE (get16 p msg) (\<lambda>t.
       if t = OFPQT_EXPERIMENTER then QueuePropertyExperimenter_validateInput msg p ctx else Inr ctx))
       (fst rng) (fst rng + snd rng) ctx"

definition OFPTMPT_EVICTION :: u16 where "OFPTMPT_EVICTION = 2"
definition OFPTMPT_VACANCY :: u16 where "OFPTMPT_VACANCY = 3"
definition OFPTMPT_EXPERIMENTER :: u16 where "OFPTMPT_EXPERIMENTER = 0xFFFF"

definition TableModProperty8_validateInput :: "bytes \<Rightarrow> validator" where
  "TableModProperty8_validateInput msg p ctx =
     bindE (get16 (p + 2) msg) (\<lambda>len. bindE (require (unat len = 8)) (\<lambda>_. Inr ctx))"

definition TableModPropertyValidator_validateInput ::
  "bytes \<Rightarrow> ByteRange \<Rightarrow> Validation \<Rightarrow> fault + Validation" where
  "TableModPropertyValidator_validateInput msg rng ctx =
     for_elems PropertyItem msg (\<lambda>p ctx. bindE (get16 p msg) (\<lambda>t.
       if t = OFPTMPT_EVICTION then TableModProperty8_validateInput msg p ctx
       else if t = OFPTMPT_VACANCY then TableModProperty8_validateInput msg p ctx
       else if t = OFPTMPT_EXPERIMENTER then ExperimenterProperty_validateInput msg p ctx
       else Inr ctx)) (fst rng) (fst rng + snd rng) ctx"

definition ActionID_validateInput :: "bytes \<Rightarrow> validator" where
  "ActionID_validateInput msg p ctx =
     bindE (get16 (p + 2) msg) (\<lambda>len.
     bindE (validateBool (unat len = 4 \<or> unat len = 8) ''Invalid ActionID'') (\<lambda>_. Inr ctx))"

text \<open>\<^verbatim>\<open>TableFeatureProperty::value\<close> and its check, for the four element types.\<close>

definition TableFeatureProperty_validateInput ::
  "(ByteRange \<Rightarrow> Validation \<Rightarrow> fault + Validation) \<Rightarrow> bytes \<Rightarrow> validator" where
  "TableFeatureProperty_validateInput range_validateInput msg p ctx =
     bindE (get16 (p + 2) msg) (\<lambda>len. range_validateInput (SafeByteRange p (unat len) 4) ctx)"

definition TableFeaturePropertyValidator_validateInput ::
  "bytes \<Rightarrow> ByteRange \<Rightarrow> Validation \<Rightarrow> fault + Validation" where
  "TableFeaturePropertyValidator_validateInput msg rng ctx =
     for_elems PropertyItem msg (\<lambda>p ctx. bindE (get16 p msg) (\<lambda>t.
       if t = 0 \<or> t = 1 then
         TableFeatureProperty_validateInput (elems_validateInput InstructionIDElem accept msg) msg p ctx
       else if t = 2 \<or> t = 3 then TableFeatureProperty_validateInput (\<lambda>rng ctx. Inr ctx) msg p ctx
       else if t = 4 \<or> t = 5 \<or> t = 6 \<or> t = 7 then
         TableFeatureProperty_validateInput
           (elems_validateInput ActionIDElem (ActionID_validateInput msg) msg) msg p ctx
       else if t = 8 \<or> t = 10 \<or> t = 12 \<or> t = 13 \<or> t = 14 \<or> t = 15 then
         TableFeatureProperty_validateInput (elems_validateInput OXMIDElem accept msg) msg p ctx
       else Inr ctx)) (fst rng) (fst rng + snd rng) ctx"

section \<open>Buckets, ports, queues and tables\<close>

definition Bucket_validateInput :: "bytes \<Rightarrow> validator" where
  "Bucket_validateInput msg p ctx =
     bindE (get16 p msg) (\<lambda>len.
     if unat len < 16 then reject Unreported
     else ActionRange_validateInput msg (SafeByteRange p (unat len) 16) ctx)"

definition Port_validateInput :: "bytes \<Rightarrow> validator" where
  "Port_validateInput msg p ctx =
     bindE (validateBool (v_lengthRemaining ctx \<ge> 40) ''Length remaining too short for Port'') (\<lambda>_.
     bindE (get16 (p + 4) msg) (\<lambda>len.
     bindE (validateBool (unat len \<le> v_lengthRemaining ctx \<and> unat len \<ge> 40) ''Invalid length for Port'') (\<lambda>_.
     PropertyRange_validateInput msg (SafeByteRange p (unat len) 40) ctx)))"

definition Queue_validateInput :: "bytes \<Rightarrow> validator" where
  "Queue_validateInput msg p ctx =
     bindE (get16 (p + 8) msg) (\<lambda>len.
     if unat len < 16 then reject Unreported
     else
       let props = SafeByteRange p (PadLength (unat len)) 16 in
       bindE (PropertyRange_validateInput msg props ctx) (\<lambda>ctx.
       QueuePropertyValidator_validateInput msg props ctx))"

definition QueueV1_validateInput :: "bytes \<Rightarrow> validator" where
  "QueueV1_validateInput msg p ctx =
     bindE (get16 (p + 4) msg) (\<lambda>len. bindE (require (unat len \<ge> 8)) (\<lambda>_. Inr ctx))"

definition QueueDesc_validateInput :: "bytes \<Rightarrow> validator" where
  "QueueDesc_validateInput msg p ctx =
     bindE (get16 (p + 8) msg) (\<lambda>len.
     bindE (validateBool (unat len \<ge> 16) ''QueueDesc too short'') (\<lambda>_.
     PropertyRange_validateInput msg (SafeByteRange p (unat len) 16) ctx))"

definition TableDesc_validateInput :: "bytes \<Rightarrow> validator" where
  "TableDesc_validateInput msg p ctx =
     (if v_lengthRemaining ctx < 8 then reject Unreported
      else bindE (get16 p msg) (\<lambda>len.
        if unat len < 8 \<or> unat len > v_lengthRemaining ctx then reject Unreported
        else PropertyRange_validateInput msg (SafeByteRange p (unat len) 8) ctx))"

section \<open>The parts are checked safely\<close>

lemmas elem_params = elem_sizeof.simps elem_sizeOffset.simps elem_alignment.simps

declare elem_params [simp del]

definition elems_ok :: "element_type \<Rightarrow> bytes \<Rightarrow> ByteRange \<Rightarrow> bool" where
  "elems_ok t msg rng =
     (\<exists>ps. tiles (elem_jump (elem_sizeof t) (elem_sizeOffset t) (elem_alignment t) msg)
        (fst rng) ps (fst rng + snd rng) \<and>
      (\<forall>p\<in>set ps. elem_ok (elem_sizeof t) (elem_sizeOffset t) (elem_alignment t) msg p))"

abbreviation elem_at :: "element_type \<Rightarrow> bytes \<Rightarrow> nat \<Rightarrow> nat \<Rightarrow> nat \<Rightarrow> bool" where
  "elem_at t msg b e p \<equiv> b \<le> p \<and>
     p + elem_jump (elem_sizeof t) (elem_sizeOffset t) (elem_alignment t) msg p \<le> e \<and>
     elem_ok (elem_sizeof t) (elem_sizeOffset t) (elem_alignment t) msg p"

lemma elems_validateInput_safe:
  assumes "fst rng + snd rng \<le> length msg"
    and "\<And>p. elem_at t msg (fst rng) (fst rng + snd rng) p \<Longrightarrow> safely (\<lambda>c. c = ctx) (f p ctx)"
  shows "safely (\<lambda>c. c = ctx \<and> elems_ok t msg rng) (elems_validateInput t f msg rng ctx)"
proof -
  obtain b n where rng: "rng = (b, n)" by (cases rng)
  have "safely (\<lambda>c. c = ctx \<and> (\<exists>ps. tiles (elem_jump (elem_sizeof t) (elem_sizeOffset t) (elem_alignment t) msg)
        b ps (b + n) \<and> (\<forall>p\<in>set ps. elem_ok (elem_sizeof t) (elem_sizeOffset t) (elem_alignment t) msg p \<and> True)))
      (elems_validateInput t f msg (b, n) ctx)"
    using assms rng by (intro elem.validateInput_safe) auto
  with rng show ?thesis by (simp add: elems_ok_def)
qed

lemma for_elems_safe:
  assumes "fst rng + snd rng \<le> length msg" and "elems_ok t msg rng"
    and "\<And>p. elem_at t msg (fst rng) (fst rng + snd rng) p \<Longrightarrow> safely (\<lambda>c. c = ctx) (f p ctx)"
  shows "safely (\<lambda>c. c = ctx) (for_elems t msg f (fst rng) (fst rng + snd rng) ctx)"
proof -
  from assms(2) obtain ps where
    t: "tiles (elem_jump (elem_sizeof t) (elem_sizeOffset t) (elem_alignment t) msg) (fst rng) ps (fst rng + snd rng)"
    and ok: "\<forall>p\<in>set ps. elem_ok (elem_sizeof t) (elem_sizeOffset t) (elem_alignment t) msg p"
    by (auto simp: elems_ok_def)
  have "safely (\<lambda>c. c = ctx \<and> (\<forall>p\<in>set ps. True)) (foldE f ps ctx)"
    using ok tiles_bounds [OF t] assms(3) by (intro foldE_safe) auto
  with elem.for_range_tiles [OF t assms(1) ok, of f ctx] show ?thesis by simp
qed

lemma range_loop_safe:
  assumes "fst rng + snd rng \<le> length msg"
    and "\<And>p. elem_at t msg (fst rng) (fst rng + snd rng) p \<Longrightarrow> safely (\<lambda>c. c = ctx) (f p ctx)"
  shows "safely (\<lambda>c. c = ctx \<and> elems_ok t msg rng)
    (bindE (elems_validateInput t (\<lambda>p c. Inr c) msg rng ctx)
      (\<lambda>c. for_elems t msg f (fst rng) (fst rng + snd rng) c))"
proof (rule safely_bind [OF elems_validateInput_safe [OF assms(1)]])
  fix c assume c: "c = ctx \<and> elems_ok t msg rng"
  then have "safely (\<lambda>c. c = ctx) (for_elems t msg f (fst rng) (fst rng + snd rng) ctx)"
    using for_elems_safe [OF assms(1)] assms(2) by blast
  with c show "safely (\<lambda>c. c = ctx \<and> elems_ok t msg rng) (for_elems t msg f (fst rng) (fst rng + snd rng) c)"
    by (auto elim: safely_mono)
qed simp

text \<open>An element whose size field is at offset 2 lies inside its range.\<close>

lemma item_room:
  assumes "elem_at t msg b e p" and "t = ActionItem \<or> t = InstructionItem \<or> t = PropertyItem"
  shows "4 \<le> unat (rd16 (p + 2) msg)" and "p + unat (rd16 (p + 2) msg) \<le> e"
proof -
  have "elem_size (elem_sizeof t) (elem_sizeOffset t) msg p = unat (rd16 (p + 2) msg)"
    using assms(2) by (auto simp: elem_params elem_size_def PROTOCOL_ITERATOR_SIZE_CONDITIONAL_def PROTOCOL_ITERATOR_SIZE_FIXED_def)
  with assms elem.elem_size_le_jump [of t msg p]
  show "4 \<le> unat (rd16 (p + 2) msg)" "p + unat (rd16 (p + 2) msg) \<le> e"
    by (auto simp: elem_ok_def Let_def)
qed

lemma accept_safe [simp]: "safely Q (accept p ctx) \<longleftrightarrow> Q ctx"
  by (simp add: accept_def)

lemma OXMRange_paddedField_safe:
  "fst rng + snd rng \<le> length msg \<Longrightarrow> safely (\<lambda>_. True) (OXMRange_validateInput_paddedField msg rng)"
  by (cases rng) (auto simp: OXMRange_validateInput_paddedField_def get8_def Let_def)

lemma SafeByteRange_room:
  "p + len \<le> e \<Longrightarrow> fst (SafeByteRange p len off) + snd (SafeByteRange p len off) \<le> e"
  by (auto simp: SafeByteRange_def)

lemma Action_validateInput_safe:
  assumes "elem_at ActionItem msg b e p" and "e \<le> length msg"
  shows "safely (\<lambda>c. c = ctx) (Action_validateInput msg p ctx)"
proof -
  let ?n = "unat (rd16 (p + 2) msg)"
  have n: "4 \<le> ?n" "p + ?n \<le> length msg" using item_room [OF assms(1)] assms(2) by auto
  have set_field: "safely (\<lambda>c. c = ctx) (validateInput_SetField msg p ctx)"
    using n by (auto simp: validateInput_SetField_def safe_simps intro!: safely_bind [OF OXMRange_paddedField_safe])
  show ?thesis
    using n set_field
    by (auto simp: Action_validateInput_def AT_EXPERIMENTER_validateInput_def validateInput_NICIRA_def
        AT_REGMOVE_validateInput_def AT_REGLOAD_validateInput_def bindE_assoc safe_simps)
qed

lemma ActionRange_validateInput_safe:
  assumes "fst rng + snd rng \<le> length msg"
  shows "safely (\<lambda>c. c = ctx \<and> elems_ok ActionItem msg rng) (ActionRange_validateInput msg rng ctx)"
  unfolding ActionRange_validateInput_def accept_def
  using range_loop_safe [OF assms, of ActionItem ctx "Action_validateInput msg"] Action_validateInput_safe [OF _ assms]
  by blast

lemma Instruction_validateInput_safe:
  assumes "elem_at InstructionItem msg b e p" and "e \<le> length msg"
  shows "safely (\<lambda>c. c = ctx) (Instruction_validateInput msg p ctx)"
proof -
  let ?n = "unat (rd16 (p + 2) msg)"
  have n: "4 \<le> ?n" "p + ?n \<le> length msg" using item_room [OF assms(1)] assms(2) by auto
  have "safely (\<lambda>c. c = ctx) (ActionRange_validateInput msg (SafeByteRange p ?n 8) ctx)"
    using n by (auto intro!: safely_mono [OF ActionRange_validateInput_safe] SafeByteRange_room)
  with n show ?thesis
    by (auto simp: Instruction_validateInput_def IT_WithActions_validateInput_def
        IT_EXPERIMENTER_validateInput_def safe_simps)
qed

lemma InstructionRange_validateInput_safe:
  assumes "fst rng + snd rng \<le> length msg"
  shows "safely (\<lambda>c. c = ctx \<and> elems_ok InstructionItem msg rng) (InstructionRange_validateInput msg rng ctx)"
  unfolding InstructionRange_validateInput_def accept_def
  using range_loop_safe [OF assms, of InstructionItem ctx "Instruction_validateInput msg"] Instruction_validateInput_safe [OF _ assms]
  by blast

lemma PropertyRange_validateInput_safe:
  assumes "fst rng + snd rng \<le> length msg"
  shows "safely (\<lambda>c. c = ctx \<and> elems_ok PropertyItem msg rng) (PropertyRange_validateInput msg rng ctx)"
  unfolding PropertyRange_validateInput_def by (rule elems_validateInput_safe [OF assms]) simp

text \<open>What an accepted match is: its fields lie inside the bytes given to it, except that a
standard match (before version 4) is only known to state its fixed length.\<close>

definition oxm_match_ok :: "bytes \<Rightarrow> nat \<Rightarrow> nat \<Rightarrow> bool" where
  "oxm_match_ok msg lengthRemaining p =
     (let len = unat (rd16 (p + 2) msg) in
      4 \<le> len \<and> PadLength len \<le> lengthRemaining \<and> (\<exists>ps. tiles (oxm_jump msg) (p + 4) ps (p + len)))"

definition std_match :: "byte \<Rightarrow> bytes \<Rightarrow> nat \<Rightarrow> bool" where
  "std_match version msg p =
     (version < 4 \<and> rd16 p msg = OFPMT_STANDARD \<and> unat (rd16 (p + 2) msg) = OFPMT_STANDARD_LENGTH)"

lemma oxm_check_safe:
  assumes "p + lengthRemaining \<le> length msg" and "4 \<le> len" and "PadLength len \<le> lengthRemaining"
  shows "safely (\<lambda>r. r \<longleftrightarrow> (\<exists>ps. tiles (oxm_jump msg) (p + 4) ps (p + len)))
    (OXMRange_validateInput msg (p + 4, len - 4))"
  using OXMRange_validateInput_safe [of "(p + 4, len - 4)" msg] assms PadLength_ge [of len] by simp

lemma oxm_tail_safe:
  assumes "p + lengthRemaining \<le> length msg" and "len = unat (rd16 (p + 2) msg)"
    and "4 \<le> len" and "PadLength len \<le> lengthRemaining"
  shows "safely (\<lambda>c. c = ctx \<and> oxm_match_ok msg lengthRemaining p)
    (bindE (OXMRange_validateInput msg (p + 4, len - 4)) (\<lambda>ok. if \<not> ok then reject err else Inr ctx))"
proof (rule safely_bind [OF oxm_check_safe [OF assms(1,3,4)]])
  fix r assume "r \<longleftrightarrow> (\<exists>ps. tiles (oxm_jump msg) (p + 4) ps (p + len))"
  with assms show "safely (\<lambda>c. c = ctx \<and> oxm_match_ok msg lengthRemaining p) (if \<not> r then reject err else Inr ctx)"
    by (simp add: oxm_match_ok_def)
qed

lemma MatchHeader_validateInput_safe:
  assumes "p + lengthRemaining \<le> length msg"
  shows "safely (\<lambda>c. c = ctx \<and> 4 \<le> lengthRemaining \<and>
      (std_match (v_version ctx) msg p \<or> rd16 p msg = OFPMT_OXM \<and> oxm_match_ok msg lengthRemaining p))
    (MatchHeader_validateInput msg lengthRemaining p ctx)"
  using assms
  by (auto simp: MatchHeader_validateInput_def std_match_def safe_simps Let_def not_less
      intro!: safely_mono [OF oxm_tail_safe [OF assms]])

lemma StatHeader_validateInput_safe:
  assumes "p + lengthRemaining \<le> length msg"
  shows "safely (\<lambda>c. c = ctx \<and> 4 \<le> lengthRemaining \<and> oxm_match_ok msg lengthRemaining p)
    (StatHeader_validateInput msg lengthRemaining p ctx)"
  using assms
  by (auto simp: StatHeader_validateInput_def safe_simps Let_def not_less
      intro!: safely_mono [OF oxm_tail_safe [OF assms]])

lemma QueuePropertyValidator_safe:
  assumes "fst rng + snd rng \<le> length msg" and "elems_ok PropertyItem msg rng"
  shows "safely (\<lambda>c. c = ctx) (QueuePropertyValidator_validateInput msg rng ctx)"
  unfolding QueuePropertyValidator_validateInput_def
proof (rule for_elems_safe [OF assms])
  fix p assume "elem_at PropertyItem msg (fst rng) (fst rng + snd rng) p"
  from item_room [OF this] assms(1)
  show "safely (\<lambda>c. c = ctx) (bindE (get16 p msg) (\<lambda>t.
      if t = OFPQT_EXPERIMENTER then QueuePropertyExperimenter_validateInput msg p ctx else Inr ctx))"
    by (simp add: QueuePropertyExperimenter_validateInput_def safe_simps)
qed

lemma TableModPropertyValidator_safe:
  assumes "fst rng + snd rng \<le> length msg" and "elems_ok PropertyItem msg rng"
  shows "safely (\<lambda>c. c = ctx) (TableModPropertyValidator_validateInput msg rng ctx)"
  unfolding TableModPropertyValidator_validateInput_def
proof (rule for_elems_safe [OF assms])
  fix p assume "elem_at PropertyItem msg (fst rng) (fst rng + snd rng) p"
  from item_room [OF this] assms(1)
  show "safely (\<lambda>c. c = ctx) (bindE (get16 p msg) (\<lambda>t.
       if t = OFPTMPT_EVICTION then TableModProperty8_validateInput msg p ctx
       else if t = OFPTMPT_VACANCY then TableModProperty8_validateInput msg p ctx
       else if t = OFPTMPT_EXPERIMENTER then ExperimenterProperty_validateInput msg p ctx
       else Inr ctx))"
    by (simp add: TableModProperty8_validateInput_def ExperimenterProperty_validateInput_def safe_simps)
qed

lemma ActionIDs_safe:
  assumes "fst rng + snd rng \<le> length msg"
  shows "safely (\<lambda>c. c = ctx) (elems_validateInput ActionIDElem (ActionID_validateInput msg) msg rng ctx)"
proof (rule safely_mono [OF elems_validateInput_safe [OF assms]])
  fix p assume p: "elem_at ActionIDElem msg (fst rng) (fst rng + snd rng) p"
  have "p + elem_sizeOffset ActionIDElem + 2 \<le> fst rng + snd rng"
    using p by (intro elem.elem_ok_room) (auto simp: elem_params)
  with assms show "safely (\<lambda>c. c = ctx) (ActionID_validateInput msg p ctx)"
    by (simp add: ActionID_validateInput_def safe_simps elem_params)
qed simp

lemma TableFeaturePropertyValidator_safe:
  assumes "fst rng + snd rng \<le> length msg" and "elems_ok PropertyItem msg rng"
  shows "safely (\<lambda>c. c = ctx) (TableFeaturePropertyValidator_validateInput msg rng ctx)"
  unfolding TableFeaturePropertyValidator_validateInput_def
proof (rule for_elems_safe [OF assms])
  fix p assume "elem_at PropertyItem msg (fst rng) (fst rng + snd rng) p"
  from item_room [OF this] have n: "4 \<le> unat (rd16 (p + 2) msg)" "p + unat (rd16 (p + 2) msg) \<le> fst rng + snd rng"
    by simp_all
  let ?r = "SafeByteRange p (unat (rd16 (p + 2) msg)) 4"
  have room: "fst ?r + snd ?r \<le> length msg" using n assms(1) by (intro SafeByteRange_room) simp
  have ids: "safely (\<lambda>c. c = ctx) (elems_validateInput t accept msg ?r ctx)" for t
    using safely_mono [OF elems_validateInput_safe [OF room]] by (auto simp: accept_def)
  show "safely (\<lambda>c. c = ctx) (bindE (get16 p msg) (\<lambda>t.
       if t = 0 \<or> t = 1 then
         TableFeatureProperty_validateInput (elems_validateInput InstructionIDElem accept msg) msg p ctx
       else if t = 2 \<or> t = 3 then TableFeatureProperty_validateInput (\<lambda>rng ctx. Inr ctx) msg p ctx
       else if t = 4 \<or> t = 5 \<or> t = 6 \<or> t = 7 then
         TableFeatureProperty_validateInput
           (elems_validateInput ActionIDElem (ActionID_validateInput msg) msg) msg p ctx
       else if t = 8 \<or> t = 10 \<or> t = 12 \<or> t = 13 \<or> t = 14 \<or> t = 15 then
         TableFeatureProperty_validateInput (elems_validateInput OXMIDElem accept msg) msg p ctx
       else Inr ctx))"
    using n assms(1) ids ActionIDs_safe [OF room]
    by (simp add: TableFeatureProperty_validateInput_def safe_simps)
qed

lemma Bucket_validateInput_safe:
  assumes "p + 2 \<le> length msg" and "p + unat (rd16 p msg) \<le> length msg"
  shows "safely (\<lambda>c. c = ctx \<and> 16 \<le> unat (rd16 p msg) \<and>
      elems_ok ActionItem msg (SafeByteRange p (unat (rd16 p msg)) 16)) (Bucket_validateInput msg p ctx)"
  using assms
  by (auto simp: Bucket_validateInput_def safe_simps not_less
      intro!: safely_mono [OF ActionRange_validateInput_safe] SafeByteRange_room)

lemma Port_validateInput_safe:
  assumes "p + 6 \<le> length msg" and "p + min (unat (rd16 (p + 4) msg)) (v_lengthRemaining ctx) \<le> length msg"
  shows "safely (\<lambda>c. c = ctx \<and> 40 \<le> unat (rd16 (p + 4) msg) \<and>
      unat (rd16 (p + 4) msg) \<le> v_lengthRemaining ctx \<and>
      elems_ok PropertyItem msg (SafeByteRange p (unat (rd16 (p + 4) msg)) 40)) (Port_validateInput msg p ctx)"
  using assms
  by (auto simp: Port_validateInput_def safe_simps
      intro!: safely_mono [OF PropertyRange_validateInput_safe] SafeByteRange_room)

lemma Queue_validateInput_safe:
  assumes "p + 10 \<le> length msg" and "p + PadLength (unat (rd16 (p + 8) msg)) \<le> length msg"
  shows "safely (\<lambda>c. c = ctx \<and> 16 \<le> unat (rd16 (p + 8) msg) \<and>
      elems_ok PropertyItem msg (SafeByteRange p (PadLength (unat (rd16 (p + 8) msg))) 16))
    (Queue_validateInput msg p ctx)"
proof -
  let ?r = "SafeByteRange p (PadLength (unat (rd16 (p + 8) msg))) 16"
  have room: "fst ?r + snd ?r \<le> length msg" using assms by (intro SafeByteRange_room)
  have "safely (\<lambda>c. c = ctx \<and> elems_ok PropertyItem msg ?r)
      (bindE (PropertyRange_validateInput msg ?r ctx) (QueuePropertyValidator_validateInput msg ?r))"
    by (rule safely_bind [OF PropertyRange_validateInput_safe [OF room]])
      (auto intro: safely_mono [OF QueuePropertyValidator_safe [OF room]])
  with assms show ?thesis
    by (auto simp: Queue_validateInput_def safe_simps Let_def not_less elim!: safely_mono)
qed

lemma QueueDesc_validateInput_safe:
  assumes "p + 10 \<le> length msg" and "p + unat (rd16 (p + 8) msg) \<le> length msg"
  shows "safely (\<lambda>c. c = ctx \<and> 16 \<le> unat (rd16 (p + 8) msg) \<and>
      elems_ok PropertyItem msg (SafeByteRange p (unat (rd16 (p + 8) msg)) 16)) (QueueDesc_validateInput msg p ctx)"
  using assms
  by (auto simp: QueueDesc_validateInput_def safe_simps
      intro!: safely_mono [OF PropertyRange_validateInput_safe] SafeByteRange_room)

lemma TableDesc_validateInput_safe:
  assumes "p + 2 \<le> length msg" and "p + min (unat (rd16 p msg)) (v_lengthRemaining ctx) \<le> length msg"
  shows "safely (\<lambda>c. c = ctx \<and> 8 \<le> unat (rd16 p msg) \<and> unat (rd16 p msg) \<le> v_lengthRemaining ctx \<and>
      elems_ok PropertyItem msg (SafeByteRange p (unat (rd16 p msg)) 8)) (TableDesc_validateInput msg p ctx)"
  using assms
  by (auto simp: TableDesc_validateInput_def safe_simps not_less
      intro!: safely_mono [OF PropertyRange_validateInput_safe] SafeByteRange_room)

end
