(* ===== verification/Legacy.thy ===== *)
theory Legacy
  imports MessageParts Addresses
begin

text \<open>
  The structures of the older protocol versions and their conversion to the current ones: port
  numbers and port feature flags (\<^verbatim>\<open>include/ofp/portnumber.h\<close>, \<^verbatim>\<open>src/ofp/constants.cpp\<close>), ports
  (\<^verbatim>\<open>include/ofp/port.h\<close>, \<^verbatim>\<open>src/ofp/port.cpp\<close>), queues (\<^verbatim>\<open>src/ofp/queue.cpp\<close>) and the fixed matches
  (\<^verbatim>\<open>include/ofp/originalmatch.h\<close>, \<^verbatim>\<open>include/ofp/standardmatch.h\<close>). A structure is a record; the
  functions \<open>_at\<close> and \<open>_bytes\<close> are the overlay of the structure on a byte string.
\<close>

section \<open>Port numbers and feature flags\<close>

definition PortNumber_fromV1 :: "u16 \<Rightarrow> u32" where
  "PortNumber_fromV1 port = (if port > 0xFF00 then ucast port OR 0xFFFF0000 else ucast port)"

definition PortNumber_toV1 :: "u32 \<Rightarrow> u16" where
  "PortNumber_toV1 port = ucast port"

definition OFPPortFeaturesFlagsConvertToV1 :: "u32 \<Rightarrow> u32" where
  "OFPPortFeaturesFlagsConvertToV1 features =
     (features AND NOT 0x0FF80) OR drop_bit 4 (features AND 0xF800)"

definition OFPPortFeaturesFlagsConvertFromV1 :: "u32 \<Rightarrow> u32" where
  "OFPPortFeaturesFlagsConvertFromV1 features =
     (features AND NOT 0x0FF80) OR push_bit 4 (features AND 0x00F80)"

section \<open>Ports\<close>

record PortV1 =
  p1_portNo :: u16
  p1_hwAddr :: bytes
  p1_name :: bytes
  p1_config :: u32
  p1_state :: u32
  p1_curr :: u32
  p1_advertised :: u32
  p1_supported :: u32
  p1_peer :: u32

record PortV2 =
  p2_portNo :: u32
  p2_hwAddr :: bytes
  p2_name :: bytes
  p2_config :: u32
  p2_state :: u32
  p2_curr :: u32
  p2_advertised :: u32
  p2_supported :: u32
  p2_peer :: u32
  p2_currSpeed :: u32
  p2_maxSpeed :: u32

record PortPropertyEthernet =
  eth_curr :: u32
  eth_advertised :: u32
  eth_supported :: u32
  eth_peer :: u32
  eth_currSpeed :: u32
  eth_maxSpeed :: u32

record Port =
  port_portNo :: u32
  port_length :: u16
  port_hwAddr :: bytes
  port_name :: bytes
  port_config :: u32
  port_state :: u32

record PortBuilder =
  pb_msg :: Port
  pb_properties :: bytes

definition PortV1_at :: "nat \<Rightarrow> bytes \<Rightarrow> PortV1" where
  "PortV1_at p msg =
     \<lparr>p1_portNo = rd16 p msg, p1_hwAddr = sub_bytes (p + 2) 6 msg, p1_name = sub_bytes (p + 8) 16 msg,
      p1_config = rd32 (p + 24) msg, p1_state = rd32 (p + 28) msg, p1_curr = rd32 (p + 32) msg,
      p1_advertised = rd32 (p + 36) msg, p1_supported = rd32 (p + 40) msg, p1_peer = rd32 (p + 44) msg\<rparr>"

definition PortV2_at :: "nat \<Rightarrow> bytes \<Rightarrow> PortV2" where
  "PortV2_at p msg =
     \<lparr>p2_portNo = rd32 p msg, p2_hwAddr = sub_bytes (p + 8) 6 msg, p2_name = sub_bytes (p + 16) 16 msg,
      p2_config = rd32 (p + 32) msg, p2_state = rd32 (p + 36) msg, p2_curr = rd32 (p + 40) msg,
      p2_advertised = rd32 (p + 44) msg, p2_supported = rd32 (p + 48) msg, p2_peer = rd32 (p + 52) msg,
      p2_currSpeed = rd32 (p + 56) msg, p2_maxSpeed = rd32 (p + 60) msg\<rparr>"

definition PortPropertyEthernet_at :: "nat \<Rightarrow> bytes \<Rightarrow> PortPropertyEthernet" where
  "PortPropertyEthernet_at p msg =
     \<lparr>eth_curr = rd32 (p + 8) msg, eth_advertised = rd32 (p + 12) msg, eth_supported = rd32 (p + 16) msg,
      eth_peer = rd32 (p + 20) msg, eth_currSpeed = rd32 (p + 24) msg, eth_maxSpeed = rd32 (p + 28) msg\<rparr>"

definition PortPropertyEthernet_bytes :: "PortPropertyEthernet \<Rightarrow> bytes" where
  "PortPropertyEthernet_bytes e =
     be16 0 @ be16 32 @ replicate 4 0 @ be32 (eth_curr e) @ be32 (eth_advertised e) @ be32 (eth_supported e) @
     be32 (eth_peer e) @ be32 (eth_currSpeed e) @ be32 (eth_maxSpeed e)"

definition Port_bytes :: "Port \<Rightarrow> bytes" where
  "Port_bytes m =
     be32 (port_portNo m) @ be16 (port_length m) @ replicate 2 0 @ port_hwAddr m @ replicate 2 0 @
     port_name m @ be32 (port_config m) @ be32 (port_state m)"

definition updateLen :: "PortBuilder \<Rightarrow> PortBuilder" where
  "updateLen b = b\<lparr>pb_msg := (pb_msg b)\<lparr>port_length := of_nat (40 + length (pb_properties b))\<rparr>\<rparr>"

definition PortBuilder_fromV1 :: "PortV1 \<Rightarrow> PortBuilder" where
  "PortBuilder_fromV1 port =
     updateLen
       \<lparr>pb_msg = \<lparr>port_portNo = PortNumber_fromV1 (p1_portNo port), port_length = 40,
          port_hwAddr = p1_hwAddr port, port_name = p1_name port, port_config = p1_config port,
          port_state = p1_state port\<rparr>,
        pb_properties = PortPropertyEthernet_bytes
          \<lparr>eth_curr = OFPPortFeaturesFlagsConvertFromV1 (p1_curr port),
           eth_advertised = OFPPortFeaturesFlagsConvertFromV1 (p1_advertised port),
           eth_supported = OFPPortFeaturesFlagsConvertFromV1 (p1_supported port),
           eth_peer = OFPPortFeaturesFlagsConvertFromV1 (p1_peer port),
           eth_currSpeed = 0, eth_maxSpeed = 0\<rparr>\<rparr>"

definition PortBuilder_fromV2 :: "PortV2 \<Rightarrow> PortBuilder" where
  "PortBuilder_fromV2 port =
     updateLen
       \<lparr>pb_msg = \<lparr>port_portNo = p2_portNo port, port_length = 40, port_hwAddr = p2_hwAddr port,
          port_name = p2_name port, port_config = p2_config port, port_state = p2_state port\<rparr>,
        pb_properties = PortPropertyEthernet_bytes
          \<lparr>eth_curr = p2_curr port, eth_advertised = p2_advertised port, eth_supported = p2_supported port,
           eth_peer = p2_peer port, eth_currSpeed = p2_currSpeed port, eth_maxSpeed = p2_maxSpeed port\<rparr>\<rparr>"

text \<open>\<^verbatim>\<open>PortBuilder::copyTo\<close>, and the bytes \<^verbatim>\<open>PortList::add\<close> appends.\<close>

definition PortBuilder_bytes :: "PortBuilder \<Rightarrow> bytes" where
  "PortBuilder_bytes b = Port_bytes (pb_msg b) @ pb_properties b"

definition PortList_add :: "PortBuilder \<Rightarrow> bytes \<Rightarrow> fault + bytes" where
  "PortList_add port buf =
     bindE (assertE (unat (port_length (pb_msg port)) = 40 + length (pb_properties port))) (\<lambda>_.
     Inr (buf @ PortBuilder_bytes port))"

function findProperty_loop :: "u16 \<Rightarrow> bytes \<Rightarrow> nat \<Rightarrow> nat \<Rightarrow> fault + nat option" where
  "findProperty_loop type msg pos e =
     (if pos < e then
        bindE (get16 pos msg) (\<lambda>t.
        if t = type then Inr (Some pos)
        else bindE (iter_jump 4 2 8 msg pos) (\<lambda>n.
          if n = 0 then Inl AssertFailed else findProperty_loop type msg (pos + n) e))
      else Inr None)"
  by pat_completeness auto
termination by (relation "measure (\<lambda>(_, _, pos, e). e - pos)") auto

declare findProperty_loop.simps [simp del]

definition findProperty :: "u16 \<Rightarrow> bytes \<Rightarrow> ByteRange \<Rightarrow> fault + nat option" where
  "findProperty type msg rng = findProperty_loop type msg (fst rng) (fst rng + snd rng)"

definition PortV1_make :: "Port \<Rightarrow> PortPropertyEthernet option \<Rightarrow> PortV1" where
  "PortV1_make port eth =
     (let flags = (\<lambda>f. OFPPortFeaturesFlagsConvertToV1 (case eth of Some e \<Rightarrow> f e | None \<Rightarrow> 0)) in
      \<lparr>p1_portNo = ucast (port_portNo port), p1_hwAddr = port_hwAddr port, p1_name = port_name port,
       p1_config = port_config port, p1_state = port_state port, p1_curr = flags eth_curr,
       p1_advertised = flags eth_advertised, p1_supported = flags eth_supported, p1_peer = flags eth_peer\<rparr>)"

definition PortV2_make :: "Port \<Rightarrow> PortPropertyEthernet option \<Rightarrow> PortV2" where
  "PortV2_make port eth =
     (let field = (\<lambda>f. case eth of Some e \<Rightarrow> f e | None \<Rightarrow> 0) in
      \<lparr>p2_portNo = port_portNo port, p2_hwAddr = port_hwAddr port, p2_name = port_name port,
       p2_config = port_config port, p2_state = port_state port, p2_curr = field eth_curr,
       p2_advertised = field eth_advertised, p2_supported = field eth_supported, p2_peer = field eth_peer,
       p2_currSpeed = field eth_currSpeed, p2_maxSpeed = field eth_maxSpeed\<rparr>)"

text \<open>The Ethernet property is read through its structure of 32 bytes.\<close>

definition find_ethernet :: "bytes \<Rightarrow> fault + PortPropertyEthernet option" where
  "find_ethernet props =
     bindE (findProperty 0 props (0, length props)) (\<lambda>iter.
     case iter of
       None \<Rightarrow> Inr None
     | Some p \<Rightarrow> if p + 32 \<le> length props then Inr (Some (PortPropertyEthernet_at p props))
         else Inl (OutOfBounds p 32))"

definition PortV1_fromBuilder :: "PortBuilder \<Rightarrow> fault + PortV1" where
  "PortV1_fromBuilder b = bindE (find_ethernet (pb_properties b)) (\<lambda>eth. Inr (PortV1_make (pb_msg b) eth))"

definition PortV2_fromBuilder :: "PortBuilder \<Rightarrow> fault + PortV2" where
  "PortV2_fromBuilder b = bindE (find_ethernet (pb_properties b)) (\<lambda>eth. Inr (PortV2_make (pb_msg b) eth))"

section \<open>Queues\<close>

text \<open>A version 1 queue at \<open>p\<close> of length \<open>len\<close> becomes a queue with port 0 and the same properties;
the length field is 16 bit.\<close>

definition QueueBuilder_fromV1 :: "nat \<Rightarrow> bytes \<Rightarrow> bytes" where
  "QueueBuilder_fromV1 p msg =
     (let rng = SafeByteRange p (unat (rd16 (p + 4) msg)) 8; props = sub_bytes (fst rng) (snd rng) msg in
      be32 (rd32 p msg) @ be32 0 @ be16 (of_nat (16 + length props)) @ replicate 6 0 @ props)"

section \<open>Fixed matches\<close>

record OriginalMatch =
  om_wildcards :: u32
  om_in_port :: u16
  om_dl_src :: bytes
  om_dl_dst :: bytes
  om_dl_vlan :: u16
  om_dl_vlan_pcp :: byte
  om_dl_type :: u16
  om_nw_tos :: byte
  om_nw_proto :: byte
  om_nw_src :: bytes
  om_nw_dst :: bytes
  om_tp_src :: u16
  om_tp_dst :: u16

record StandardMatch =
  sm_in_port :: u32
  sm_wildcards :: u32
  sm_dl_src :: bytes
  sm_dl_src_mask :: bytes
  sm_dl_dst :: bytes
  sm_dl_dst_mask :: bytes
  sm_dl_vlan :: u16
  sm_dl_vlan_pcp :: byte
  sm_dl_type :: u16
  sm_nw_tos :: byte
  sm_nw_proto :: byte
  sm_nw_src :: bytes
  sm_nw_src_mask :: bytes
  sm_nw_dst :: bytes
  sm_nw_dst_mask :: bytes
  sm_tp_src :: u16
  sm_tp_dst :: u16
  sm_mpls_label :: u32
  sm_mpls_tc :: byte
  sm_metadata :: u64
  sm_metadata_mask :: u64

definition OriginalMatch_at :: "nat \<Rightarrow> bytes \<Rightarrow> OriginalMatch" where
  "OriginalMatch_at p msg =
     \<lparr>om_wildcards = rd32 p msg, om_in_port = rd16 (p + 4) msg, om_dl_src = sub_bytes (p + 6) 6 msg,
      om_dl_dst = sub_bytes (p + 12) 6 msg, om_dl_vlan = rd16 (p + 18) msg, om_dl_vlan_pcp = rd8 (p + 20) msg,
      om_dl_type = rd16 (p + 22) msg, om_nw_tos = rd8 (p + 24) msg, om_nw_proto = rd8 (p + 25) msg,
      om_nw_src = sub_bytes (p + 28) 4 msg, om_nw_dst = sub_bytes (p + 32) 4 msg,
      om_tp_src = rd16 (p + 36) msg, om_tp_dst = rd16 (p + 38) msg\<rparr>"

definition StandardMatch_bytes :: "StandardMatch \<Rightarrow> bytes" where
  "StandardMatch_bytes m =
     be16 OFPMT_STANDARD @ be16 (of_nat OFPMT_STANDARD_LENGTH) @ be32 (sm_in_port m) @ be32 (sm_wildcards m) @
     sm_dl_src m @ sm_dl_src_mask m @ sm_dl_dst m @ sm_dl_dst_mask m @ be16 (sm_dl_vlan m) @
     [sm_dl_vlan_pcp m] @ [0] @ be16 (sm_dl_type m) @ [sm_nw_tos m] @ [sm_nw_proto m] @ sm_nw_src m @
     sm_nw_src_mask m @ sm_nw_dst m @ sm_nw_dst_mask m @ be16 (sm_tp_src m) @ be16 (sm_tp_dst m) @
     be32 (sm_mpls_label m) @ [sm_mpls_tc m] @ replicate 3 0 @ be64 (sm_metadata m) @ be64 (sm_metadata_mask m)"

definition WildcardMap :: "(u32 \<times> u32) list" where
  "WildcardMap =
     [(0x000001, 0x01), (0x000002, 0x02), (0x000010, 0x08), (0x000020, 0x20), (0x000040, 0x40),
      (0x000080, 0x80), (0x100000, 0x04), (0x200000, 0x10)]"

definition standardWildcards :: "OriginalMatch \<Rightarrow> u32" where
  "standardWildcards m =
     fold (\<lambda>(original, standard) result. if om_wildcards m AND original \<noteq> 0 then result OR standard else result)
       WildcardMap 0 OR (0x200 OR 0x100)"

definition nw_mask :: "u32 \<Rightarrow> nat \<Rightarrow> bytes" where
  "nw_mask wildcards shift =
     (let bits = unat (drop_bit shift (wildcards AND push_bit shift 0x3F)) in
      ipv4_mask (32 - (if bits > 32 then 32 else bits)))"

definition nw_src_mask :: "OriginalMatch \<Rightarrow> bytes" where
  "nw_src_mask m = nw_mask (om_wildcards m) 8"

definition nw_dst_mask :: "OriginalMatch \<Rightarrow> bytes" where
  "nw_dst_mask m = nw_mask (om_wildcards m) 14"

definition StandardMatch_fromOriginal :: "OriginalMatch \<Rightarrow> StandardMatch" where
  "StandardMatch_fromOriginal match =
     \<lparr>sm_in_port = ucast (om_in_port match), sm_wildcards = standardWildcards match,
      sm_dl_src = om_dl_src match,
      sm_dl_src_mask = (if om_wildcards match AND 0x4 = 0 then replicate 6 0xFF else replicate 6 0),
      sm_dl_dst = om_dl_dst match,
      sm_dl_dst_mask = (if om_wildcards match AND 0x8 = 0 then replicate 6 0xFF else replicate 6 0),
      sm_dl_vlan = om_dl_vlan match, sm_dl_vlan_pcp = om_dl_vlan_pcp match, sm_dl_type = om_dl_type match,
      sm_nw_tos = om_nw_tos match, sm_nw_proto = om_nw_proto match, sm_nw_src = om_nw_src match,
      sm_nw_src_mask = nw_src_mask match, sm_nw_dst = om_nw_dst match, sm_nw_dst_mask = nw_dst_mask match,
      sm_tp_src = om_tp_src match, sm_tp_dst = om_tp_dst match, sm_mpls_label = 0, sm_mpls_tc = 0,
      sm_metadata = 0, sm_metadata_mask = 0\<rparr>"

section \<open>Properties of the conversions\<close>

lemma feature_masks:
  "(0x0FF80 :: u32) = push_bit 7 (mask 9)" "(0xF800 :: u32) = push_bit 11 (mask 5)"
  "(0x00F80 :: u32) = push_bit 7 (mask 5)" "(0xF000 :: u32) = push_bit 12 (mask 4)"
  by (simp_all add: mask_eq_exp_minus_1 push_bit_eq_mult)

lemma features_round_trip:
  assumes "f AND 0xF000 = 0"
  shows "OFPPortFeaturesFlagsConvertToV1 (OFPPortFeaturesFlagsConvertFromV1 f) = f"
proof (rule bit_word_eqI)
  fix n assume n: "n < LENGTH(32)"
  have "\<not> (bit f n \<and> 12 \<le> n \<and> n < 16)"
    using arg_cong [OF assms, of "\<lambda>w. bit w n"] unfolding feature_masks by (auto simp: bit_simps)
  then show "bit (OFPPortFeaturesFlagsConvertToV1 (OFPPortFeaturesFlagsConvertFromV1 f)) n = bit f n"
    unfolding OFPPortFeaturesFlagsConvertToV1_def OFPPortFeaturesFlagsConvertFromV1_def feature_masks
    using n by (auto simp: bit_simps)
qed

lemma features_round_trip_v2:
  assumes "f AND 0x0780 = 0"
  shows "OFPPortFeaturesFlagsConvertFromV1 (OFPPortFeaturesFlagsConvertToV1 f) = f"
proof (rule bit_word_eqI)
  fix n assume n: "n < LENGTH(32)"
  have m: "(0x0780 :: u32) = push_bit 7 (mask 4)" by (simp add: mask_eq_exp_minus_1 push_bit_eq_mult)
  have "\<not> (bit f n \<and> 7 \<le> n \<and> n < 11)"
    using arg_cong [OF assms, of "\<lambda>w. bit w n"] unfolding m by (auto simp: bit_simps)
  then show "bit (OFPPortFeaturesFlagsConvertFromV1 (OFPPortFeaturesFlagsConvertToV1 f)) n = bit f n"
    unfolding OFPPortFeaturesFlagsConvertToV1_def OFPPortFeaturesFlagsConvertFromV1_def feature_masks
    using n by (auto simp: bit_simps)
qed

lemma port_number_round_trip: "PortNumber_toV1 (PortNumber_fromV1 p) = p"
proof (rule bit_word_eqI)
  fix n assume n: "n < LENGTH(16)"
  have m: "(0xFFFF0000 :: u32) = push_bit 16 (mask 16)"
    by (simp add: mask_eq_exp_minus_1 push_bit_eq_mult)
  from n show "bit (PortNumber_toV1 (PortNumber_fromV1 p)) n = bit p n"
    unfolding PortNumber_toV1_def PortNumber_fromV1_def m by (auto simp: bit_simps)
qed

lemma length_PortPropertyEthernet_bytes [simp]: "length (PortPropertyEthernet_bytes e) = 32"
  by (simp add: PortPropertyEthernet_bytes_def)

lemma PortPropertyEthernet_at_bytes [simp]: "PortPropertyEthernet_at 0 (PortPropertyEthernet_bytes e) = e"
  by (simp add: PortPropertyEthernet_at_def PortPropertyEthernet_bytes_def rd32_def sub_bytes_def)

lemma rd16_PortPropertyEthernet_bytes [simp]: "rd16 0 (PortPropertyEthernet_bytes e) = 0"
  by (simp add: rd16_def sub_bytes_def PortPropertyEthernet_bytes_def)

lemma find_ethernet_bytes: "find_ethernet (PortPropertyEthernet_bytes e) = Inr (Some e)"
  unfolding find_ethernet_def findProperty_def by (subst findProperty_loop.simps) (simp add: get16_def)

definition legacy_features :: "u32 \<Rightarrow> bool" where
  "legacy_features f = (f AND 0xF000 = 0)"

definition sample_port_v1 :: PortV1 where
  "sample_port_v1 =
     \<lparr>p1_portNo = 0xFFFE, p1_hwAddr = [1, 2, 3, 4, 5, 6], p1_name = replicate 16 65, p1_config = 1, p1_state = 2,
      p1_curr = 0x0FFF, p1_advertised = 0x0080, p1_supported = 0, p1_peer = 3\<rparr>"

text \<open>C29: Converting a port description of version 1 or 2 to the current structure and back gives the
same port: the port number is sign extended and narrowed, and the moved feature bits return to
their places, as long as no feature flag uses the bits that version 1 does not define.\<close>

theorem port_round_trip:
  assumes "legacy_features (p1_curr p)" "legacy_features (p1_advertised p)"
    "legacy_features (p1_supported p)" "legacy_features (p1_peer p)"
  shows "PortV1_fromBuilder (PortBuilder_fromV1 p) = Inr p \<and> PortV2_fromBuilder (PortBuilder_fromV2 q) = Inr q"
  using assms port_number_round_trip [of "p1_portNo p"]
  by (simp add: PortV1_fromBuilder_def PortBuilder_fromV1_def PortV2_fromBuilder_def PortBuilder_fromV2_def
      updateLen_def find_ethernet_bytes PortV1_make_def PortV2_make_def features_round_trip legacy_features_def
      PortNumber_toV1_def)

theorem port_round_trip_witness:
  "PortV1_fromBuilder (PortBuilder_fromV1 sample_port_v1) = Inr sample_port_v1 \<and>
   PortNumber_fromV1 0xFFFE = 0xFFFFFFFE \<and>
   PortV2_fromBuilder (PortBuilder_fromV2 (PortV2_at 0 (replicate 64 7))) = Inr (PortV2_at 0 (replicate 64 7))"
proof -
  have "legacy_features (p1_curr sample_port_v1)" "legacy_features (p1_advertised sample_port_v1)"
    "legacy_features (p1_supported sample_port_v1)" "legacy_features (p1_peer sample_port_v1)"
    by code_simp+
  moreover have "PortNumber_fromV1 0xFFFE = 0xFFFFFFFE" by code_simp
  ultimately show ?thesis using port_round_trip [of sample_port_v1] by blast
qed

lemma length_Port_bytes:
  "length (port_hwAddr m) = 6 \<Longrightarrow> length (port_name m) = 16 \<Longrightarrow> length (Port_bytes m) = 40"
  by (simp add: Port_bytes_def)

lemma length_PortBuilder_bytes [simp]:
  "p + 48 \<le> length msg \<Longrightarrow> length (PortBuilder_bytes (PortBuilder_fromV1 (PortV1_at p msg))) = 72"
  "p + 64 \<le> length msg \<Longrightarrow> length (PortBuilder_bytes (PortBuilder_fromV2 (PortV2_at p msg))) = 72"
  by (simp_all add: PortBuilder_bytes_def PortBuilder_fromV1_def PortBuilder_fromV2_def updateLen_def
      Port_bytes_def PortV1_at_def PortV2_at_def sub_bytes_def)

lemma PortList_add_built [simp]:
  "PortList_add (PortBuilder_fromV1 q) buf = Inr (buf @ PortBuilder_bytes (PortBuilder_fromV1 q))"
  "PortList_add (PortBuilder_fromV2 r) buf = Inr (buf @ PortBuilder_bytes (PortBuilder_fromV2 r))"
  by (simp_all add: PortList_add_def PortBuilder_fromV1_def PortBuilder_fromV2_def updateLen_def assertE_def)

lemma length_ipv4_mask [simp]: "length (ipv4_mask p) = 4"
  by (simp add: ipv4_mask_def Let_def)

lemma length_nw_mask [simp]: "length (nw_mask w s) = 4"
  by (simp add: nw_mask_def Let_def)

lemma length_StandardMatch_bytes:
  "p + 40 \<le> length msg \<Longrightarrow> length (StandardMatch_bytes (StandardMatch_fromOriginal (OriginalMatch_at p msg))) = 88"
  by (simp add: StandardMatch_bytes_def StandardMatch_fromOriginal_def OriginalMatch_at_def
      nw_src_mask_def nw_dst_mask_def sub_bytes_def)

lemma length_QueueBuilder_fromV1:
  "8 \<le> unat (rd16 (p + 4) msg) \<Longrightarrow> p + unat (rd16 (p + 4) msg) \<le> length msg \<Longrightarrow>
   length (QueueBuilder_fromV1 p msg) = 8 + unat (rd16 (p + 4) msg)"
  by (simp add: QueueBuilder_fromV1_def Let_def SafeByteRange_def sub_bytes_def)

section \<open>The converted match\<close>

definition wildcard_table :: "(nat \<times> nat) list" where
  "wildcard_table = [(0, 0), (1, 1), (4, 3), (5, 5), (6, 6), (7, 7), (20, 2), (21, 4)]"

lemma WildcardMap_table: "WildcardMap = map (\<lambda>(i, j). (2 ^ i, 2 ^ j)) wildcard_table"
  by (simp add: WildcardMap_def wildcard_table_def)

lemma wildcards_fold:
  assumes "\<forall>(i, j)\<in>set xs. i < 32 \<and> j < 32" and "n < 32"
  shows "bit (fold (\<lambda>(original, standard) result. if w AND original \<noteq> 0 then result OR standard else result)
      (map (\<lambda>(i, j). (2 ^ i, 2 ^ j)) xs) (r :: u32)) n \<longleftrightarrow>
    bit r n \<or> (\<exists>i. (i, n) \<in> set xs \<and> bit (w :: u32) i)"
  using assms
proof (induction xs arbitrary: r)
  case (Cons x xs)
  obtain i j where x: "x = (i, j)" by (cases x)
  have "w AND 2 ^ i \<noteq> 0 \<longleftrightarrow> bit w i" by (simp add: and_exp_eq_0_iff_not_bit)
  with Cons x show ?case by (auto simp: bit_or_iff bit_exp_iff)
qed simp

lemma standardWildcards_bit:
  assumes "n < 32"
  shows "bit (standardWildcards m) n \<longleftrightarrow>
    n = 8 \<or> n = 9 \<or> (\<exists>i. (i, n) \<in> set wildcard_table \<and> bit (om_wildcards m) i)"
proof -
  have c: "(0x200 :: u32) = 2 ^ 9" "(0x100 :: u32) = 2 ^ 8" by simp_all
  have "\<forall>(i, j)\<in>set wildcard_table. i < 32 \<and> j < 32" by (simp add: wildcard_table_def)
  from wildcards_fold [OF this assms] show ?thesis
    unfolding standardWildcards_def WildcardMap_table c bit_or_iff bit_exp_iff by auto
qed

lemma nw_mask_prefix: "ipv4_prefix (nw_mask w s) = 32 - min 32 (unat (drop_bit s (w AND push_bit s 0x3F)))"
proof -
  have "ipv4_prefix (ipv4_mask p) = p" if "p \<le> 32" for p using ipv4_masks that by simp
  then show ?thesis by (auto simp: nw_mask_def Let_def min_def)
qed

lemma PortNumber_sign: "ucast p = PortNumber_fromV1 p \<longleftrightarrow> p \<le> 0xFF00"
proof (cases "p \<le> 0xFF00")
  case False
  have "bit (PortNumber_fromV1 p) 31"
    using False by (simp add: PortNumber_fromV1_def bit_or_iff not_le)
  moreover have "\<not> bit (ucast p :: u32) 31" using bit_imp_le_length [of p 31] by (auto simp: bit_simps)
  ultimately show ?thesis using False by metis
qed (auto simp: PortNumber_fromV1_def dest: leD)

definition sample_original :: OriginalMatch where
  "sample_original = OriginalMatch_at 0 ([0x00, 0x38, 0x18, 0xEE, 0xFF, 0xFE] @ replicate 34 0)"

text \<open>C30: Converting the fixed match of version 1 to that of version 2 keeps its meaning: each
wildcard flag moves to its new position and the two MPLS fields become wildcards, the address masks
get the prefix length that the shifted bit counts state, and the Ethernet masks are all ones exactly
when the field is not a wildcard. The input port is not sign extended as port numbers are elsewhere:
it equals the converted port number exactly for the ports that are not reserved.\<close>

theorem standard_match_conversion:
  assumes "n < 32"
  shows "(bit (sm_wildcards (StandardMatch_fromOriginal m)) n \<longleftrightarrow>
      n = 8 \<or> n = 9 \<or> (\<exists>i. (i, n) \<in> set wildcard_table \<and> bit (om_wildcards m) i)) \<and>
    ipv4_prefix (sm_nw_src_mask (StandardMatch_fromOriginal m)) =
      32 - min 32 (unat (drop_bit 8 (om_wildcards m AND push_bit 8 0x3F))) \<and>
    ipv4_prefix (sm_nw_dst_mask (StandardMatch_fromOriginal m)) =
      32 - min 32 (unat (drop_bit 14 (om_wildcards m AND push_bit 14 0x3F))) \<and>
    (mac_isBroadcast (sm_dl_src_mask (StandardMatch_fromOriginal m)) \<longleftrightarrow> \<not> bit (om_wildcards m) 2) \<and>
    (mac_isBroadcast (sm_dl_dst_mask (StandardMatch_fromOriginal m)) \<longleftrightarrow> \<not> bit (om_wildcards m) 3) \<and>
    (sm_in_port (StandardMatch_fromOriginal m) = PortNumber_fromV1 (om_in_port m) \<longleftrightarrow> om_in_port m \<le> 0xFF00)"
proof -
  have c: "(0x4 :: u32) = 2 ^ 2" "(0x8 :: u32) = 2 ^ 3" by simp_all
  have f: "mac_isBroadcast (replicate 6 0xFF)" "\<not> mac_isBroadcast (replicate 6 0)" by code_simp+
  have "(mac_isBroadcast (if om_wildcards m AND 0x4 = 0 then replicate 6 0xFF else replicate 6 0) \<longleftrightarrow> \<not> bit (om_wildcards m) 2)"
    "(mac_isBroadcast (if om_wildcards m AND 0x8 = 0 then replicate 6 0xFF else replicate 6 0) \<longleftrightarrow> \<not> bit (om_wildcards m) 3)"
    unfolding c and_exp_eq_0_iff_not_bit using f by simp_all
  then show ?thesis
    using standardWildcards_bit [OF assms] nw_mask_prefix PortNumber_sign [of "om_in_port m"]
    by (simp add: StandardMatch_fromOriginal_def nw_src_mask_def nw_dst_mask_def)
qed

theorem standard_match_conversion_witness:
  "sm_in_port (StandardMatch_fromOriginal sample_original) = 0xFFFE \<and>
   ipv4_prefix (sm_nw_src_mask (StandardMatch_fromOriginal sample_original)) = 8 \<and>
   (bit (sm_wildcards (StandardMatch_fromOriginal sample_original)) 2 \<longleftrightarrow>
      (2::nat) = 8 \<or> (2::nat) = 9 \<or> (\<exists>i. (i, 2) \<in> set wildcard_table \<and> bit (om_wildcards sample_original) i)) \<and>
   sm_in_port (StandardMatch_fromOriginal sample_original) \<noteq> PortNumber_fromV1 (om_in_port sample_original)"
proof -
  have "sm_in_port (StandardMatch_fromOriginal sample_original) = 0xFFFE"
    "ipv4_prefix (sm_nw_src_mask (StandardMatch_fromOriginal sample_original)) = 8"
    "\<not> om_in_port sample_original \<le> 0xFF00" by code_simp+
  moreover have "2 < (32 :: nat)" by simp
  ultimately show ?thesis using standard_match_conversion [of 2 sample_original] by blast
qed

end
