(* ===== verification/Messages.thy ===== *)
theory Messages
  imports MessageParts
begin

text \<open>
  The messages: the \<^verbatim>\<open>validateInput\<close> of every message class under \<^verbatim>\<open>src/ofp\<close>, the multipart
  requests and replies, the length rules of \<^verbatim>\<open>ProtocolMsg\<close> (\<^verbatim>\<open>include/ofp/protocolmsg.h\<close>), the cast
  \<^verbatim>\<open>Message::castMessage\<close> (\<^verbatim>\<open>include/ofp/message.h\<close>) that runs them and the dispatch on the
  message type (\<^verbatim>\<open>src/ofp/yaml/decoder.cpp\<close>). A message is its byte string, with the header at
  offset 0.
\<close>

section \<open>Multipart bodies\<close>

definition exact_length :: "nat \<Rightarrow> validator" where
  "exact_length n p ctx =
     (if v_lengthRemaining ctx \<noteq> n then reject (LengthRemainingIsInvalid p n) else Inr ctx)"

definition MPDesc_validateInput :: validator where
  "MPDesc_validateInput p ctx = exact_length 1056 p ctx"

definition MPMeterFeatures_validateInput :: validator where
  "MPMeterFeatures_validateInput p ctx = exact_length 16 p ctx"

definition MPGroupFeatures_validateInput :: validator where
  "MPGroupFeatures_validateInput p ctx = exact_length 40 p ctx"

definition MPAggregateStatsReply_validateInput :: validator where
  "MPAggregateStatsReply_validateInput p ctx = exact_length 24 p ctx"

text \<open>The request classes below return false without reporting an error.\<close>

definition exact_length_quiet :: "nat \<Rightarrow> validator" where
  "exact_length_quiet n p ctx = bindE (require (v_lengthRemaining ctx = n)) (\<lambda>_. Inr ctx)"

definition MPQueueStatsRequest_validateInput :: validator where
  "MPQueueStatsRequest_validateInput p ctx = exact_length_quiet 8 p ctx"

definition MPQueueDescRequest_validateInput :: validator where
  "MPQueueDescRequest_validateInput p ctx = exact_length_quiet 8 p ctx"

definition MPPortStatsRequest_validateInput :: validator where
  "MPPortStatsRequest_validateInput p ctx = exact_length_quiet 8 p ctx"

definition MPMeterConfigRequest_validateInput :: validator where
  "MPMeterConfigRequest_validateInput p ctx = exact_length_quiet 8 p ctx"

definition MPGroupStatsRequest_validateInput :: validator where
  "MPGroupStatsRequest_validateInput p ctx = exact_length_quiet 8 p ctx"

definition MPExperimenter_validateInput :: validator where
  "MPExperimenter_validateInput p ctx =
     (if v_lengthRemaining ctx < 8 then reject (LengthRemainingIsInvalid p 8) else Inr ctx)"

definition MPGroupDesc_validateInput :: "bytes \<Rightarrow> validator" where
  "MPGroupDesc_validateInput msg p ctx =
     bindE (get16 p msg) (\<lambda>len.
     bindE (validateAlignedLength (unat len) 8) (\<lambda>_.
     elems_validateInput BucketElem (Bucket_validateInput msg) msg (SafeByteRange p (unat len) 8) ctx))"

definition MPGroupStats_validateInput :: "bytes \<Rightarrow> validator" where
  "MPGroupStats_validateInput msg p ctx =
     bindE (get16 p msg) (\<lambda>len.
     bindE (validateAlignedLength (unat len) 40) (\<lambda>_.
     elems_validateInput PacketCounterElem accept msg (SafeByteRange p (unat len) 40) ctx))"

definition MPMeterConfig_validateInput :: "bytes \<Rightarrow> validator" where
  "MPMeterConfig_validateInput msg p ctx =
     bindE (get16 p msg) (\<lambda>len.
     bindE (validateAlignedLength (unat len) 8) (\<lambda>_.
     elems_validateInput MeterBandItem accept msg (SafeByteRange p (unat len) 8) ctx))"

definition MPMeterStats_validateInput :: "bytes \<Rightarrow> validator" where
  "MPMeterStats_validateInput msg p ctx =
     bindE (get16 (p + 4) msg) (\<lambda>len.
     bindE (validateAlignedLength (unat len) 40) (\<lambda>_.
     elems_validateInput PacketCounterElem accept msg (SafeByteRange p (unat len) 40) ctx))"

definition MPPortStats_validateInput :: "bytes \<Rightarrow> validator" where
  "MPPortStats_validateInput msg p ctx =
     (if v_lengthRemaining ctx < 80 then reject Unreported
      else bindE (get16 p msg) (\<lambda>len.
        PropertyRange_validateInput msg (SafeByteRange p (unat len) 80) ctx))"

definition MPTableFeatures_validateInput :: "bytes \<Rightarrow> validator" where
  "MPTableFeatures_validateInput msg p ctx =
     (if v_lengthRemaining ctx < 64 then reject Unreported
      else bindE (get16 p msg) (\<lambda>len.
        if unat len < 64 then reject Unreported
        else
          let padded = (if unat len mod 8 \<noteq> 0 then PadLength (unat len) else unat len) in
          if padded > v_lengthRemaining ctx then reject Unreported
          else
            let props = SafeByteRange p (PadLength (unat len)) 64 in
            bindE (PropertyRange_validateInput msg props ctx) (\<lambda>ctx.
            TableFeaturePropertyValidator_validateInput msg props ctx)))"

definition MPFlowStatsRequest_validateInput :: "bytes \<Rightarrow> validator" where
  "MPFlowStatsRequest_validateInput msg p ctx =
     (let len = v_lengthRemaining ctx in
      if len < 32 then reject Unreported
      else bindE (MatchHeader_validateInput msg (len - 32) (p + 32) ctx) (\<lambda>ctx.
        bindE (MatchHeader_paddedLength msg (p + 32)) (\<lambda>padded.
        if len \<noteq> 32 + padded then reject Unreported else Inr ctx)))"

definition MPFlowMonitorRequest_validateInput :: "bytes \<Rightarrow> validator" where
  "MPFlowMonitorRequest_validateInput msg p ctx =
     (let len = v_lengthRemaining ctx in
      if len < 16 then reject Unreported
      else bindE (MatchHeader_validateInput msg (len - 16) (p + 16) ctx) (\<lambda>ctx.
        bindE (MatchHeader_paddedLength msg (p + 16)) (\<lambda>padded.
        if len \<noteq> 16 + padded then reject Unreported else Inr ctx)))"

definition OFPFME_ABBREV :: nat where "OFPFME_ABBREV = 4"

definition MPFlowMonitorReply_validateInput :: "bytes \<Rightarrow> validator" where
  "MPFlowMonitorReply_validateInput msg p ctx =
     (if v_lengthRemaining ctx < OFPFME_ABBREV then reject Unreported
      else bindE (get16 (p + 2) msg) (\<lambda>event.
        bindE (get16 p msg) (\<lambda>len.
        if unat event \<ge> OFPFME_ABBREV then bindE (require (unat len = 8)) (\<lambda>_. Inr ctx)
        else if unat len > v_lengthRemaining ctx then reject Unreported
        else if unat len < 24 then reject Unreported
        else bindE (MatchHeader_validateInput msg (unat len - 24) (p + 24) ctx) (\<lambda>ctx.
          bindE (MatchHeader_paddedLength msg (p + 24)) (\<lambda>padded.
          if unat len < 24 + padded then reject Unreported else Inr ctx)))))"

text \<open>The instructions of a flow description start after the match; the accessor asserts that the
length covers the match.\<close>

definition MPFlowStatsReply_instructions :: "bytes \<Rightarrow> nat \<Rightarrow> fault + ByteRange" where
  "MPFlowStatsReply_instructions msg p =
     bindE (MatchHeader_paddedLength msg (p + 48)) (\<lambda>padded.
     bindE (get16 p msg) (\<lambda>len.
     bindE (assertE (unat len \<ge> 48 + padded)) (\<lambda>_. Inr (SafeByteRange p (unat len) (48 + padded)))))"

text \<open>The remaining length is a 64 bit \<^verbatim>\<open>size_t\<close>; it wraps when the match is longer than the
reply.\<close>

definition MPFlowStatsReply_validateInput :: "bytes \<Rightarrow> validator" where
  "MPFlowStatsReply_validateInput msg p ctx =
     bindE (get16 p msg) (\<lambda>len.
     bindE (validateAlignedLength (unat len) 52) (\<lambda>_.
     bindE (MatchHeader_validateInput msg (unat len - 48) (p + 48) ctx) (\<lambda>ctx.
     bindE (get16 (p + 50) msg) (\<lambda>matchLength.
     let ctx = setLengthRemaining ((unat len + 2 ^ 64 - 48 - unat matchLength) mod 2 ^ 64) ctx in
     bindE (MPFlowStatsReply_instructions msg p) (\<lambda>rng.
     InstructionRange_validateInput msg rng ctx)))))"

text \<open>The check is given the length of the whole message, not the length of the body.\<close>

definition MPAggregateStatsReplyV6_validateInput :: "bytes \<Rightarrow> validator" where
  "MPAggregateStatsReplyV6_validateInput msg p ctx =
     (let len = v_length ctx in
      if len < 4 then reject Unreported else StatHeader_validateInput msg len p ctx)"

section \<open>Multipart messages\<close>

definition MultipartRequest_validateInput :: "bytes \<Rightarrow> Validation \<Rightarrow> fault + Validation" where
  "MultipartRequest_validateInput msg ctx =
     bindE (get16 2 msg) (\<lambda>len.
     bindE (get16 8 msg) (\<lambda>requestType.
     let ctx = setLengthRemaining (unat len - 16) ctx; body = 16 in
     if requestType = 0 then validateEmpty 1 body ctx
     else if requestType = 1 then validate (MPFlowStatsRequest_validateInput msg) 1 True body ctx
     else if requestType = 2 then validate (MPFlowStatsRequest_validateInput msg) 1 True body ctx
     else if requestType = 3 then validateEmpty 1 body ctx
     else if requestType = 4 then validate MPPortStatsRequest_validateInput 1 True body ctx
     else if requestType = 5 then validate MPQueueStatsRequest_validateInput 1 True body ctx
     else if requestType = 6 then validate MPGroupStatsRequest_validateInput 2 True body ctx
     else if requestType = 7 then validateEmpty 2 body ctx
     else if requestType = 8 then validateEmpty 3 body ctx
     else if requestType = 9 then validate MPMeterConfigRequest_validateInput 4 True body ctx
     else if requestType = 10 then validate MPMeterConfigRequest_validateInput 4 True body ctx
     else if requestType = 11 then validateEmpty 4 body ctx
     else if requestType = 12 then
       validateArrayVariableSize 0 (MPTableFeatures_validateInput msg) msg 4 body ctx
     else if requestType = 13 then validateEmpty 1 body ctx
     else if requestType = 14 then validateEmpty 5 body ctx
     else if requestType = 15 then validate MPQueueDescRequest_validateInput 5 True body ctx
     else if requestType = 16 then validate (MPFlowMonitorRequest_validateInput msg) 5 True body ctx
     else if requestType = 0xffff then validate MPExperimenter_validateInput 1 False body ctx
     else reject MultipartTypeIsNotSupported))"

definition MultipartReply_validateInput :: "bytes \<Rightarrow> Validation \<Rightarrow> fault + Validation" where
  "MultipartReply_validateInput msg ctx =
     bindE (get16 2 msg) (\<lambda>len.
     bindE (get8 0 msg) (\<lambda>vers.
     bindE (get16 8 msg) (\<lambda>replyType.
     let ctx = setLengthRemaining (unat len - 16) ctx; body = 16 in
     if replyType = 0 then validate MPDesc_validateInput 1 True body ctx
     else if replyType = 1 then
       validateArrayVariableSize 0 (MPFlowStatsReply_validateInput msg) msg 1 body ctx
     else if replyType = 2 then
       (if vers \<ge> 6 then validate (MPAggregateStatsReplyV6_validateInput msg) 6 True body ctx
        else validate MPAggregateStatsReply_validateInput 1 True body ctx)
     else if replyType = 3 then
       (if vers = 2 \<or> vers = 3 then reject MultipartTypeIsNotSupportedForVersion
        else validateArrayFixedSize 64 accept 1 body ctx)
     else if replyType = 4 then
       validateArrayVariableSize 0 (MPPortStats_validateInput msg) msg 1 body ctx
     else if replyType = 5 then validateArrayFixedSize 40 accept 1 body ctx
     else if replyType = 6 then
       validateArrayVariableSize 0 (MPGroupStats_validateInput msg) msg 2 body ctx
     else if replyType = 7 then
       validateArrayVariableSize 0 (MPGroupDesc_validateInput msg) msg 2 body ctx
     else if replyType = 8 then validate MPGroupFeatures_validateInput 3 True body ctx
     else if replyType = 9 then
       validateArrayVariableSize 4 (MPMeterStats_validateInput msg) msg 4 body ctx
     else if replyType = 10 then
       validateArrayVariableSize 0 (MPMeterConfig_validateInput msg) msg 4 body ctx
     else if replyType = 11 then validate MPMeterFeatures_validateInput 4 True body ctx
     else if replyType = 12 then
       validateArrayVariableSize 0 (MPTableFeatures_validateInput msg) msg 4 body ctx
     else if replyType = 13 then validateArrayVariableSize 4 (Port_validateInput msg) msg 1 body ctx
     else if replyType = 14 then
       validateArrayVariableSize 0 (TableDesc_validateInput msg) msg 5 body ctx
     else if replyType = 15 then
       validateArrayVariableSize 8 (QueueDesc_validateInput msg) msg 5 body ctx
     else if replyType = 16 then
       validateArrayVariableSize 0 (MPFlowMonitorReply_validateInput msg) msg 5 body ctx
     else if replyType = 0xffff then validate MPExperimenter_validateInput 1 False body ctx
     else reject MultipartTypeIsNotSupported)))"

section \<open>Other messages\<close>

text \<open>\<^verbatim>\<open>SafeByteRange(this, header_.length(), offset)\<close>.\<close>

definition msg_tail :: "bytes \<Rightarrow> nat \<Rightarrow> fault + ByteRange" where
  "msg_tail msg off = bindE (get16 2 msg) (\<lambda>len. Inr (SafeByteRange 0 (unat len) off))"

definition msg_properties_validateInput :: "nat \<Rightarrow> bytes \<Rightarrow> Validation \<Rightarrow> fault + Validation" where
  "msg_properties_validateInput off msg ctx =
     bindE (msg_tail msg off) (\<lambda>props. PropertyRange_validateInput msg props ctx)"

definition PortMod_validateInput :: "bytes \<Rightarrow> Validation \<Rightarrow> fault + Validation" where
  "PortMod_validateInput msg ctx = msg_properties_validateInput 32 msg ctx"

definition SetAsync_validateInput :: "bytes \<Rightarrow> Validation \<Rightarrow> fault + Validation" where
  "SetAsync_validateInput msg ctx = msg_properties_validateInput 8 msg ctx"

definition GetAsyncReply_validateInput :: "bytes \<Rightarrow> Validation \<Rightarrow> fault + Validation" where
  "GetAsyncReply_validateInput msg ctx = msg_properties_validateInput 8 msg ctx"

definition BundleControl_validateInput :: "bytes \<Rightarrow> Validation \<Rightarrow> fault + Validation" where
  "BundleControl_validateInput msg ctx = msg_properties_validateInput 16 msg ctx"

definition RoleStatus_validateInput :: "bytes \<Rightarrow> Validation \<Rightarrow> fault + Validation" where
  "RoleStatus_validateInput msg ctx = msg_properties_validateInput 24 msg ctx"

definition FlowMod_validateInput :: "bytes \<Rightarrow> Validation \<Rightarrow> fault + Validation" where
  "FlowMod_validateInput msg ctx =
     bindE (get16 2 msg) (\<lambda>len.
     if unat len < 52 then reject Unreported
     else bindE (MatchHeader_validateInput msg (unat len - 48) 48 ctx) (\<lambda>ctx.
       bindE (MatchHeader_paddedLength msg 48) (\<lambda>padded.
       InstructionRange_validateInput msg (SafeByteRange 0 (unat len) (48 + padded)) ctx)))"

definition FlowRemoved_validateInput :: "bytes \<Rightarrow> Validation \<Rightarrow> fault + Validation" where
  "FlowRemoved_validateInput msg ctx =
     bindE (MatchHeader_paddedLength msg 48) (\<lambda>padded.
     if v_length ctx \<noteq> 48 + padded then reject Unreported
     else MatchHeader_validateInput msg (v_length ctx - 48) 48 ctx)"

definition FlowRemovedV6_validateInput :: "bytes \<Rightarrow> Validation \<Rightarrow> fault + Validation" where
  "FlowRemovedV6_validateInput msg ctx =
     (if v_length ctx < 28 then reject Unreported
      else
        let remainingLength = v_length ctx - 24 in
        bindE (MatchHeader_validateInput msg remainingLength 24 ctx) (\<lambda>ctx.
        bindE (MatchHeader_paddedLength msg 24) (\<lambda>paddedMatchLen.
        if remainingLength < paddedMatchLen then reject Unreported
        else
          let remainingLength = remainingLength - paddedMatchLen in
          bindE (StatHeader_validateInput msg remainingLength (24 + paddedMatchLen) ctx) (\<lambda>ctx.
          bindE (MatchHeader_paddedLength msg (24 + paddedMatchLen)) (\<lambda>statLen.
          if remainingLength \<noteq> statLen then reject Unreported else Inr ctx)))))"

definition PacketIn_validateInput :: "bytes \<Rightarrow> Validation \<Rightarrow> fault + Validation" where
  "PacketIn_validateInput msg ctx =
     bindE (get8 0 msg) (\<lambda>version.
     if version = 1 then
       (if v_length ctx < 18 then reject MessageSizeIsInvalid else Inr ctx)
     else if version = 2 then
       (if v_length ctx < 24 then reject MessageSizeIsInvalid else Inr ctx)
     else if version = 3 then
       (if v_length ctx < 24 then reject MessageSizeIsInvalid
        else MatchHeader_validateInput msg (v_length ctx - 16) 16 ctx)
     else
       (if v_length ctx < 24 then reject MessageSizeIsInvalid
        else MatchHeader_validateInput msg (v_length ctx - 24) 24 ctx))"

definition PacketOut_validateInput :: "bytes \<Rightarrow> Validation \<Rightarrow> fault + Validation" where
  "PacketOut_validateInput msg ctx =
     bindE (get16 16 msg) (\<lambda>actionsLen.
     if v_length ctx < 24 + unat actionsLen then reject Unreported
     else ActionRange_validateInput msg (24, unat actionsLen) ctx)"

definition PacketOutV6_validateInput :: "bytes \<Rightarrow> Validation \<Rightarrow> fault + Validation" where
  "PacketOutV6_validateInput msg ctx =
     (if v_length ctx < 20 then reject Unreported
      else
        let remainingLength = v_length ctx - 16 in
        bindE (MatchHeader_validateInput msg remainingLength 16 ctx) (\<lambda>ctx.
        bindE (MatchHeader_paddedLength msg 16) (\<lambda>padded.
        bindE (assertE (remainingLength \<ge> padded)) (\<lambda>_.
        bindE (get16 12 msg) (\<lambda>actionsLen.
        if remainingLength - padded < unat actionsLen then reject Unreported
        else bindE (get16 2 msg) (\<lambda>len.
          ActionRange_validateInput msg
            (SafeByteRangeSize 0 (unat len) (16 + padded) (unat actionsLen)) ctx))))))"

definition PortStatus_validateInput :: "bytes \<Rightarrow> Validation \<Rightarrow> fault + Validation" where
  "PortStatus_validateInput msg ctx =
     bindE (get16 2 msg) (\<lambda>len.
     if unat len < 16 + 40 then reject Unreported
     else Port_validateInput msg 16 (setLengthRemaining (unat len - 16) ctx))"

definition TableStatus_validateInput :: "bytes \<Rightarrow> Validation \<Rightarrow> fault + Validation" where
  "TableStatus_validateInput msg ctx =
     (if v_length ctx < 16 + 8 then reject Unreported
      else TableDesc_validateInput msg 16 (setLengthRemaining (v_length ctx - 16) ctx))"

definition FeaturesReply_validateInput :: "bytes \<Rightarrow> Validation \<Rightarrow> fault + Validation" where
  "FeaturesReply_validateInput msg ctx =
     bindE (get8 0 msg) (\<lambda>version.
     if version \<ge> 4 then bindE (require (v_length ctx = 32)) (\<lambda>_. Inr ctx)
     else bindE (get16 2 msg) (\<lambda>len.
       bindE (msg_tail msg 32) (\<lambda>ports.
       elems_validateInput PortElem (Port_validateInput msg) msg ports
         (setLengthRemaining (unat len - 32) ctx))))"

definition TableMod_validateInput :: "bytes \<Rightarrow> Validation \<Rightarrow> fault + Validation" where
  "TableMod_validateInput msg ctx =
     bindE (get8 0 msg) (\<lambda>version.
     if version \<le> 4 then bindE (get16 2 msg) (\<lambda>len. bindE (require (unat len = 16)) (\<lambda>_. Inr ctx))
     else bindE (msg_tail msg 16) (\<lambda>props.
       bindE (PropertyRange_validateInput msg props ctx) (\<lambda>ctx.
       TableModPropertyValidator_validateInput msg props ctx)))"

definition GroupMod_validateInput :: "bytes \<Rightarrow> Validation \<Rightarrow> fault + Validation" where
  "GroupMod_validateInput msg ctx =
     bindE (msg_tail msg 16) (\<lambda>buckets.
     elems_validateInput BucketElem (Bucket_validateInput msg) msg buckets ctx)"

definition MeterMod_validateInput :: "bytes \<Rightarrow> Validation \<Rightarrow> fault + Validation" where
  "MeterMod_validateInput msg ctx =
     bindE (msg_tail msg 16) (\<lambda>bands. elems_validateInput MeterBandItem accept msg bands ctx)"

definition QueueGetConfigReply_validateInput :: "bytes \<Rightarrow> Validation \<Rightarrow> fault + Validation" where
  "QueueGetConfigReply_validateInput msg ctx =
     bindE (msg_tail msg 16) (\<lambda>queues.
     elems_validateInput QueueElem (Queue_validateInput msg) msg queues ctx)"

definition RequestForward_validateInput :: "bytes \<Rightarrow> Validation \<Rightarrow> fault + Validation" where
  "RequestForward_validateInput msg ctx =
     bindE (msg_tail msg 8) (\<lambda>req.
     bindE (get16 (fst req + 2) msg) (\<lambda>len.
     if unat len \<noteq> snd req then reject Unreported else Inr ctx))"

definition BundleAddMessage_validateInput :: "bytes \<Rightarrow> Validation \<Rightarrow> fault + Validation" where
  "BundleAddMessage_validateInput msg ctx =
     bindE (get16 2 msg) (\<lambda>hdrLen.
     if unat hdrLen < 16 + 8 then reject Unreported
     else bindE (get16 (16 + 2) msg) (\<lambda>inner.
       if unat inner < 8 then reject Unreported
       else if unat hdrLen < 16 + unat inner then reject Unreported
       else PropertyRange_validateInput msg
         (SafeByteRange 0 (unat hdrLen) (16 + PadLength (unat inner))) ctx))"

section \<open>Casting a message to its class\<close>

datatype msg_class =
    Hello | Error | EchoRequest | EchoReply | Experimenter | FeaturesRequest | FeaturesReply
  | GetConfigRequest | GetConfigReply | SetConfig | PacketIn | FlowRemoved | FlowRemovedV6
  | PortStatus | PacketOut | PacketOutV6 | FlowMod | GroupMod | PortMod | TableMod
  | MultipartRequest | MultipartReply | BarrierRequest | BarrierReply | QueueGetConfigRequest
  | QueueGetConfigReply | RoleRequest | RoleReply | GetAsyncRequest | GetAsyncReply | SetAsync
  | MeterMod | RoleStatus | TableStatus | RequestForward | BundleControl | BundleAddMessage

fun msg_type :: "msg_class \<Rightarrow> byte" where
  "msg_type Hello = 0" | "msg_type Error = 1" | "msg_type EchoRequest = 2"
| "msg_type EchoReply = 3" | "msg_type Experimenter = 4" | "msg_type FeaturesRequest = 5"
| "msg_type FeaturesReply = 6" | "msg_type GetConfigRequest = 7" | "msg_type GetConfigReply = 8"
| "msg_type SetConfig = 9" | "msg_type PacketIn = 10" | "msg_type FlowRemoved = 11"
| "msg_type FlowRemovedV6 = 11" | "msg_type PortStatus = 12" | "msg_type PacketOut = 13"
| "msg_type PacketOutV6 = 13" | "msg_type FlowMod = 14" | "msg_type GroupMod = 15"
| "msg_type PortMod = 16" | "msg_type TableMod = 17" | "msg_type MultipartRequest = 18"
| "msg_type MultipartReply = 19" | "msg_type BarrierRequest = 20" | "msg_type BarrierReply = 21"
| "msg_type QueueGetConfigRequest = 22" | "msg_type QueueGetConfigReply = 23"
| "msg_type RoleRequest = 24" | "msg_type RoleReply = 25" | "msg_type GetAsyncRequest = 26"
| "msg_type GetAsyncReply = 27" | "msg_type SetAsync = 28" | "msg_type MeterMod = 29"
| "msg_type RoleStatus = 30" | "msg_type TableStatus = 31" | "msg_type RequestForward = 32"
| "msg_type BundleControl = 33" | "msg_type BundleAddMessage = 34"

text \<open>The template arguments of \<^verbatim>\<open>ProtocolMsg\<close>: least and greatest length, and whether the length
is a multiple of 8.\<close>

fun msg_limits :: "msg_class \<Rightarrow> nat \<times> nat \<times> bool" where
  "msg_limits Hello = (8, 65535, True)"
| "msg_limits Error = (12, 65535, False)"
| "msg_limits EchoRequest = (8, 65535, False)"
| "msg_limits EchoReply = (8, 65535, False)"
| "msg_limits Experimenter = (16, 65535, False)"
| "msg_limits FeaturesReply = (32, 65528, True)"
| "msg_limits GetConfigReply = (12, 12, False)"
| "msg_limits SetConfig = (12, 12, False)"
| "msg_limits PacketIn = (18, 65535, False)"
| "msg_limits FlowRemoved = (56, 65528, True)"
| "msg_limits FlowRemovedV6 = (56, 65528, True)"
| "msg_limits PortStatus = (56, 65528, True)"
| "msg_limits PacketOut = (24, 65535, False)"
| "msg_limits PacketOutV6 = (20, 65535, False)"
| "msg_limits FlowMod = (56, 65528, True)"
| "msg_limits GroupMod = (16, 65528, True)"
| "msg_limits PortMod = (32, 65528, True)"
| "msg_limits TableMod = (16, 65528, True)"
| "msg_limits MultipartRequest = (16, 65535, False)"
| "msg_limits MultipartReply = (16, 65535, False)"
| "msg_limits QueueGetConfigRequest = (16, 16, True)"
| "msg_limits QueueGetConfigReply = (16, 65528, True)"
| "msg_limits RoleRequest = (24, 24, True)"
| "msg_limits RoleReply = (24, 24, True)"
| "msg_limits GetAsyncReply = (8, 65528, True)"
| "msg_limits SetAsync = (8, 65528, True)"
| "msg_limits MeterMod = (16, 65528, True)"
| "msg_limits RoleStatus = (24, 65528, True)"
| "msg_limits TableStatus = (16, 65528, True)"
| "msg_limits RequestForward = (16, 65535, False)"
| "msg_limits BundleControl = (16, 65528, True)"
| "msg_limits BundleAddMessage = (24, 65528, True)"
| "msg_limits _ = (8, 8, False)"

definition isLengthValid :: "msg_class \<Rightarrow> nat \<Rightarrow> bool" where
  "isLengthValid c len =
     (case msg_limits c of (MinLength, MaxLength, MsgMultiple8) \<Rightarrow>
        len \<ge> MinLength \<and> len \<le> MaxLength \<and>
        (\<not> (MsgMultiple8 \<and> MinLength \<noteq> MaxLength) \<or> len mod 8 = 0))"

definition msg_validateInput :: "msg_class \<Rightarrow> bytes \<Rightarrow> Validation \<Rightarrow> fault + Validation" where
  "msg_validateInput c =
     (case c of
        FeaturesReply \<Rightarrow> FeaturesReply_validateInput
      | PacketIn \<Rightarrow> PacketIn_validateInput
      | FlowRemoved \<Rightarrow> FlowRemoved_validateInput
      | FlowRemovedV6 \<Rightarrow> FlowRemovedV6_validateInput
      | PortStatus \<Rightarrow> PortStatus_validateInput
      | PacketOut \<Rightarrow> PacketOut_validateInput
      | PacketOutV6 \<Rightarrow> PacketOutV6_validateInput
      | FlowMod \<Rightarrow> FlowMod_validateInput
      | GroupMod \<Rightarrow> GroupMod_validateInput
      | PortMod \<Rightarrow> PortMod_validateInput
      | TableMod \<Rightarrow> TableMod_validateInput
      | MultipartRequest \<Rightarrow> MultipartRequest_validateInput
      | MultipartReply \<Rightarrow> MultipartReply_validateInput
      | QueueGetConfigReply \<Rightarrow> QueueGetConfigReply_validateInput
      | GetAsyncReply \<Rightarrow> GetAsyncReply_validateInput
      | SetAsync \<Rightarrow> SetAsync_validateInput
      | MeterMod \<Rightarrow> MeterMod_validateInput
      | RoleStatus \<Rightarrow> RoleStatus_validateInput
      | TableStatus \<Rightarrow> TableStatus_validateInput
      | RequestForward \<Rightarrow> RequestForward_validateInput
      | BundleControl \<Rightarrow> BundleControl_validateInput
      | BundleAddMessage \<Rightarrow> BundleAddMessage_validateInput
      | _ \<Rightarrow> (\<lambda>msg ctx. Inr ctx))"

definition kTooBigErrorFlag :: byte where "kTooBigErrorFlag = 0xE0"
definition kInvalidErrorFlag :: byte where "kInvalidErrorFlag = 0xF0"

definition Validation_make :: "bytes \<Rightarrow> Validation" where
  "Validation_make msg = \<lparr>v_version = rd8 0 msg, v_length = length msg, v_lengthRemaining = 0\<rparr>"

definition castMessage :: "msg_class \<Rightarrow> bytes \<Rightarrow> fault + unit" where
  "castMessage c msg =
     bindE (get8 1 msg) (\<lambda>type.
     bindE (assertE (type = msg_type c)) (\<lambda>_.
     bindE (get16 2 msg) (\<lambda>len.
     bindE (assertE (length msg = unat len)) (\<lambda>_.
     bindE (get8 0 msg) (\<lambda>version.
     let versionFlag = version AND 0xF0 in
     if versionFlag \<noteq> 0 then
       (if versionFlag = kTooBigErrorFlag then reject MessagePreprocessTooBigError
        else if versionFlag = kInvalidErrorFlag then reject MessagePreprocessFailure
        else reject Unreported)
     else if \<not> isLengthValid c (length msg) then reject MessageSizeIsInvalid
     else bindE (msg_validateInput c msg (Validation_make msg)) (\<lambda>_. Inr ()))))))"

text \<open>\<^verbatim>\<open>HeaderOnly::cast\<close>: the messages that are a header alone.\<close>

definition HeaderOnly_cast :: "msg_class \<Rightarrow> bytes \<Rightarrow> fault + unit" where
  "HeaderOnly_cast c msg =
     bindE (get8 1 msg) (\<lambda>type.
     bindE (assertE (type = msg_type c)) (\<lambda>_.
     if length msg \<noteq> 8 then reject Unreported else Inr ()))"

definition msg_cast :: "msg_class \<Rightarrow> bytes \<Rightarrow> fault + unit" where
  "msg_cast c msg =
     (if c \<in> {FeaturesRequest, GetAsyncRequest, GetConfigRequest, BarrierRequest, BarrierReply}
      then HeaderOnly_cast c msg else castMessage c msg)"

text \<open>The class \<^verbatim>\<open>Decoder::decodeMsg\<close> casts a message to.\<close>

definition msg_classes :: "msg_class list" where
  "msg_classes =
     [Hello, Error, EchoRequest, EchoReply, Experimenter, FlowMod, FeaturesRequest, FeaturesReply,
      GetConfigRequest, GetConfigReply, MultipartRequest, MultipartReply, BarrierRequest, BarrierReply,
      GetAsyncRequest, PacketIn, SetConfig, PortStatus, GroupMod, PortMod, TableMod, RoleRequest,
      RoleReply, GetAsyncReply, SetAsync, QueueGetConfigRequest, QueueGetConfigReply, MeterMod,
      RoleStatus, BundleControl, BundleAddMessage, RequestForward, TableStatus]"

definition decode_class :: "byte \<Rightarrow> byte \<Rightarrow> msg_class option" where
  "decode_class type version =
     (if type = msg_type PacketOut then Some (if version < 6 then PacketOut else PacketOutV6)
      else if type = msg_type FlowRemoved then Some (if version < 6 then FlowRemoved else FlowRemovedV6)
      else find (\<lambda>c. msg_type c = type) msg_classes)"

definition decodeMsg :: "bytes \<Rightarrow> fault + msg_class" where
  "decodeMsg msg =
     bindE (get8 1 msg) (\<lambda>type.
     bindE (get8 0 msg) (\<lambda>version.
     case decode_class type version of
       None \<Rightarrow> reject MessageTypeIsNotSupported
     | Some c \<Rightarrow> bindE (msg_cast c msg) (\<lambda>_. Inr c)))"

end
