(* ===== verification/Header.thy ===== *)
theory Header
  imports Messages
begin

text \<open>
  The message header (\<^verbatim>\<open>include/ofp/header.h\<close>, \<^verbatim>\<open>src/ofp/header.cpp\<close>): its fields in the first eight
  bytes of a message, the translation of the message type between protocol versions, and the checks
  of a received header.
\<close>

definition OFPT_FLOW_MOD :: byte where "OFPT_FLOW_MOD = 14"
definition OFPT_GROUP_MOD :: byte where "OFPT_GROUP_MOD = 15"
definition OFPT_PORT_MOD :: byte where "OFPT_PORT_MOD = 16"
definition OFPT_TABLE_MOD :: byte where "OFPT_TABLE_MOD = 17"
definition OFPT_LAST :: byte where "OFPT_LAST = 34"
definition OFPT_MAX_ALLOWED :: byte where "OFPT_MAX_ALLOWED = 64"
definition OFPT_UNSUPPORTED :: byte where "OFPT_UNSUPPORTED = 0xF9"
definition v1_OFPT_PORT_MOD :: byte where "v1_OFPT_PORT_MOD = 15"
definition OFP_VERSION_MAX_ALLOWED :: byte where "OFP_VERSION_MAX_ALLOWED = 9"
definition OFP_MAX_SIZE :: nat where "OFP_MAX_SIZE = 65535"

lemmas header_consts = OFPT_FLOW_MOD_def OFPT_GROUP_MOD_def OFPT_PORT_MOD_def OFPT_TABLE_MOD_def
  OFPT_LAST_def OFPT_MAX_ALLOWED_def OFPT_UNSUPPORTED_def v1_OFPT_PORT_MOD_def OFP_VERSION_MAX_ALLOWED_def

definition MaxTypeByVersion :: "byte list" where
  "MaxTypeByVersion = [0, 21, 23, 25, OFPT_LAST]"

definition translateTypeToVersion :: "byte \<Rightarrow> byte \<Rightarrow> fault + byte" where
  "translateTypeToVersion type version =
     bindE (assertE (type > OFPT_FLOW_MOD)) (\<lambda>_.
     bindE (assertE (version \<le> 3)) (\<lambda>_.
     if version = 1 \<and> (type = OFPT_GROUP_MOD \<or> type = OFPT_TABLE_MOD) then Inr OFPT_UNSUPPORTED
     else
       let type = (if version = 1 then if type = OFPT_PORT_MOD then type - 1 else type - 2 else type) in
       if type > MaxTypeByVersion ! unat version then Inr OFPT_UNSUPPORTED else Inr type))"

definition translateTypeFromVersion :: "byte \<Rightarrow> byte \<Rightarrow> fault + byte" where
  "translateTypeFromVersion type version =
     bindE (assertE (type > OFPT_FLOW_MOD)) (\<lambda>_.
     bindE (assertE (version \<le> 3)) (\<lambda>_.
     if type > MaxTypeByVersion ! unat version then Inr OFPT_UNSUPPORTED
     else if version = 1 then
       (if type = v1_OFPT_PORT_MOD then Inr OFPT_PORT_MOD
        else if type > v1_OFPT_PORT_MOD then Inr (type + 2)
        else Inr type)
     else Inr type))"

definition translateType :: "byte \<Rightarrow> byte \<Rightarrow> byte \<Rightarrow> fault + byte" where
  "translateType version type newVersion =
     (if version = 0 then Inr OFPT_UNSUPPORTED
      else if version = newVersion then Inr type
      else bindE (assertE (version = 4 \<or> newVersion = 4)) (\<lambda>_.
        if version > 4 \<or> newVersion > 4 then Inr type
        else if type \<le> OFPT_FLOW_MOD then Inr type
        else if version = 4 then translateTypeToVersion type newVersion
        else if newVersion = 4 then translateTypeFromVersion type version
        else Inr OFPT_UNSUPPORTED))"

definition Header_version :: "bytes \<Rightarrow> byte" where "Header_version msg = rd8 0 msg"
definition Header_type :: "bytes \<Rightarrow> byte" where "Header_type msg = rd8 1 msg"
definition Header_length :: "bytes \<Rightarrow> u16" where "Header_length msg = rd16 2 msg"
definition Header_xid :: "bytes \<Rightarrow> u32" where "Header_xid msg = rd32 4 msg"

definition setVersion :: "byte \<Rightarrow> bytes \<Rightarrow> bytes" where "setVersion v msg = wr8 0 v msg"
definition setType :: "byte \<Rightarrow> bytes \<Rightarrow> bytes" where "setType t msg = wr8 1 t msg"
definition setXid :: "u32 \<Rightarrow> bytes \<Rightarrow> bytes" where "setXid x msg = wr32 4 x msg"

definition setLength :: "nat \<Rightarrow> bytes \<Rightarrow> fault + bytes" where
  "setLength len msg = bindE (assertE (len \<le> OFP_MAX_SIZE)) (\<lambda>_. Inr (wr16 2 (of_nat len) msg))"

definition Header_validateInput :: "byte \<Rightarrow> bytes \<Rightarrow> bool" where
  "Header_validateInput negotiatedVersion msg =
     (if unat (Header_length msg) < 8 then False
      else if Header_version msg = 0 \<or> Header_version msg > OFP_VERSION_MAX_ALLOWED then False
      else if negotiatedVersion \<noteq> 0 \<and> Header_version msg \<noteq> negotiatedVersion then False
      else if Header_type msg > OFPT_MAX_ALLOWED then False
      else True)"

definition validateVersionAndType :: "bytes \<Rightarrow> fault + bool" where
  "validateVersionAndType msg =
     (if Header_version msg = 0 then Inr (Header_type msg = 0 \<or> Header_type msg = 1)
      else bindE (translateType 4 (Header_type msg) (Header_version msg)) (\<lambda>t. Inr (OFPT_UNSUPPORTED \<noteq> t)))"

section \<open>Translation of the type\<close>

lemma byte_cases:
  fixes v :: byte
  shows "v \<le> 4 \<Longrightarrow> v = 0 \<or> v = 1 \<or> v = 2 \<or> v = 3 \<or> v = 4"
  unfolding word_unat_eq_iff word_le_nat_alt by simp arith

lemma byte_range_cases:
  fixes t :: byte
  shows "14 < t \<Longrightarrow> t \<le> 25 \<Longrightarrow>
    t = 15 \<or> t = 16 \<or> t = 17 \<or> t = 18 \<or> t = 19 \<or> t = 20 \<or> t = 21 \<or> t = 22 \<or> t = 23 \<or> t = 24 \<or> t = 25"
  unfolding word_unat_eq_iff word_le_nat_alt word_less_nat_alt by simp arith

lemma byte_minus:
  fixes t :: byte
  shows "25 < t \<Longrightarrow> 23 < t - 1 \<and> 23 < t - 2"
  by (simp add: word_less_nat_alt unat_sub word_le_nat_alt) arith

definition type_ok :: "byte \<Rightarrow> byte \<Rightarrow> bool" where
  "type_ok v t =
     ((case translateType v t 4 of
         Inl _ \<Rightarrow> False | Inr t4 \<Rightarrow> t4 = OFPT_UNSUPPORTED \<or> translateType 4 t4 v = Inr t) \<and>
      (case translateType 4 t v of
         Inl _ \<Rightarrow> False | Inr t' \<Rightarrow> t' = OFPT_UNSUPPORTED \<or> translateType v t' 4 = Inr t))"

lemmas translate_defs = translateType_def translateTypeToVersion_def translateTypeFromVersion_def
  MaxTypeByVersion_def header_consts assertE_def

lemma type_ok_old: "v = 1 \<or> v = 2 \<or> v = 3 \<Longrightarrow> type_ok v t"
proof -
  assume v: "v = 1 \<or> v = 2 \<or> v = 3"
  consider "t \<le> 14" | "14 < t" "t \<le> 25" | "25 < t" by (meson not_le)
  then show ?thesis
  proof cases
    case 1
    with v show ?thesis by (auto simp: type_ok_def translateType_def header_consts assertE_def)
  next
    case 2
    from byte_range_cases [OF this] v show ?thesis by (elim disjE) (simp_all add: type_ok_def translate_defs)
  next
    case 3
    then have "14 < t" "21 < t" "23 < t" "21 < t - 2" "t \<noteq> 15" "t \<noteq> 16" "t \<noteq> 17" "\<not> t \<le> 14"
      using byte_minus [OF 3] by (auto simp: word_less_nat_alt word_le_nat_alt)
    with v 3 show ?thesis by (elim disjE) (simp_all add: type_ok_def translate_defs)
  qed
qed

lemma type_ok_new: "4 \<le> v \<Longrightarrow> type_ok v t"
  by (cases "v = 4") (auto simp: type_ok_def translateType_def assertE_def)

lemma type_ok_all: "v \<noteq> 0 \<Longrightarrow> type_ok v t"
  using type_ok_old [of v t] type_ok_new [of v t] byte_cases [of v] by (cases "v \<le> 4") auto

text \<open>C28: Translating a message type between a protocol version and version 4 is total and never
fails an assertion, and whenever the type is supported in the target version, translating back gives
the original type, in both directions and for every version.\<close>

theorem translateType_round_trip:
  assumes "v \<noteq> 0"
  shows "(\<exists>t4. translateType v t 4 = Inr t4 \<and> (t4 \<noteq> OFPT_UNSUPPORTED \<longrightarrow> translateType 4 t4 v = Inr t)) \<and>
    (\<exists>t'. translateType 4 t v = Inr t' \<and> (t' \<noteq> OFPT_UNSUPPORTED \<longrightarrow> translateType v t' 4 = Inr t))"
  using type_ok_all [OF assms, of t] by (auto simp: type_ok_def split: sum.splits)

theorem translateType_round_trip_witness:
  "translateType 1 15 4 = Inr 16 \<and> translateType 4 16 1 = Inr 15 \<and>
   (\<exists>t4. translateType 1 15 4 = Inr t4 \<and> (t4 \<noteq> OFPT_UNSUPPORTED \<longrightarrow> translateType 4 t4 1 = Inr 15))"
proof (intro conjI)
  show "translateType 1 15 4 = Inr 16" by code_simp
  show "translateType 4 16 1 = Inr 15" by code_simp
  show "\<exists>t4. translateType 1 15 4 = Inr t4 \<and> (t4 \<noteq> OFPT_UNSUPPORTED \<longrightarrow> translateType 4 t4 1 = Inr 15)"
    by (rule translateType_round_trip [OF one_neq_zero, THEN conjunct1])
qed

end
