(* ===== verification/MessageSafety.thy ===== *)
theory MessageSafety
  imports Messages
begin

text \<open>
  Casting a received message is safe. The message has the length its header states; casting it to
  its class then never reads a byte outside of the message and never fails an assertion, apart
  from two multipart replies, and an accepted message has every element, match and property where
  the accessors of its class look for them.
\<close>

section \<open>Specification of the accepted messages\<close>

definition framed :: "bytes \<Rightarrow> bool" where
  "framed msg = (8 \<le> length msg \<and> unat (rd16 2 msg) = length msg)"

definition match_in :: "byte \<Rightarrow> bytes \<Rightarrow> nat \<Rightarrow> nat \<Rightarrow> bool" where
  "match_in version msg lengthRemaining p =
     (std_match version msg p \<or> rd16 p msg = OFPMT_OXM \<and> oxm_match_ok msg lengthRemaining p)"

definition padded_at :: "bytes \<Rightarrow> nat \<Rightarrow> nat" where
  "padded_at msg p = PadLength (unat (rd16 (p + 2) msg))"

definition array_of :: "nat \<Rightarrow> bytes \<Rightarrow> (nat \<Rightarrow> bool) \<Rightarrow> bool" where
  "array_of Offset msg Q =
     (\<exists>ps. tiles (array_jump Offset msg) 16 ps (length msg) \<and> (\<forall>p\<in>set ps. Q p))"

text \<open>The region \<open>off .. len\<close> of the structure at \<open>p\<close> holds elements of the type.\<close>

abbreviation tail_ok :: "element_type \<Rightarrow> bytes \<Rightarrow> nat \<Rightarrow> nat \<Rightarrow> nat \<Rightarrow> bool" where
  "tail_ok t msg p len off \<equiv> elems_ok t msg (SafeByteRange p len off)"

definition request_ok :: "bytes \<Rightarrow> bool" where
  "request_ok msg =
     (let n = length msg; v = rd8 0 msg; t = rd16 8 msg in
      t \<in> {0, 3, 7, 8, 11, 13, 14} \<and> n = 16
      \<or> t \<in> {1, 2} \<and> match_in v msg (n - 48) 48 \<and> n = 48 + padded_at msg 48
      \<or> t \<in> {4, 5, 6, 9, 10, 15} \<and> n = 24
      \<or> t = 12 \<and> array_of 0 msg (\<lambda>p. 64 \<le> unat (rd16 p msg) \<and>
           tail_ok PropertyItem msg p (PadLength (unat (rd16 p msg))) 64)
      \<or> t = 16 \<and> match_in v msg (n - 32) 32 \<and> n = 32 + padded_at msg 32
      \<or> t = 0xffff \<and> 24 \<le> n)"

definition flow_stats_ok :: "byte \<Rightarrow> bytes \<Rightarrow> nat \<Rightarrow> bool" where
  "flow_stats_ok version msg p =
     (let len = unat (rd16 p msg) in
      52 \<le> len \<and> match_in version msg (len - 48) (p + 48) \<and> 48 + padded_at msg (p + 48) \<le> len \<and>
      tail_ok InstructionItem msg p len (48 + padded_at msg (p + 48)))"

definition flow_update_ok :: "byte \<Rightarrow> bytes \<Rightarrow> nat \<Rightarrow> bool" where
  "flow_update_ok version msg p =
     (let len = unat (rd16 p msg) in
      if 4 \<le> unat (rd16 (p + 2) msg) then len = 8
      else match_in version msg (len - 24) (p + 24) \<and> 24 + padded_at msg (p + 24) \<le> len)"

definition reply_ok :: "bytes \<Rightarrow> bool" where
  "reply_ok msg =
     (let n = length msg; v = rd8 0 msg; t = rd16 8 msg in
      t = 0 \<and> n = 16 + 1056
      \<or> t = 1 \<and> array_of 0 msg (flow_stats_ok v msg)
      \<or> t = 2 \<and> v < 6 \<and> n = 16 + 24
      \<or> t = 3 \<and> (n - 16) mod 64 = 0
      \<or> t = 4 \<and> array_of 0 msg (\<lambda>p. tail_ok PropertyItem msg p (unat (rd16 p msg)) 80)
      \<or> t = 5 \<and> (n - 16) mod 40 = 0
      \<or> t = 6 \<and> array_of 0 msg (\<lambda>p. 40 \<le> unat (rd16 p msg) \<and>
           tail_ok PacketCounterElem msg p (unat (rd16 p msg)) 40)
      \<or> t = 7 \<and> array_of 0 msg (\<lambda>p. 8 \<le> unat (rd16 p msg) \<and>
           tail_ok BucketElem msg p (unat (rd16 p msg)) 8)
      \<or> t = 8 \<and> n = 16 + 40
      \<or> t = 9 \<and> array_of 4 msg (\<lambda>p. 40 \<le> unat (rd16 (p + 4) msg) \<and>
           tail_ok PacketCounterElem msg p (unat (rd16 (p + 4) msg)) 40)
      \<or> t = 10 \<and> array_of 0 msg (\<lambda>p. 8 \<le> unat (rd16 p msg) \<and>
           tail_ok MeterBandItem msg p (unat (rd16 p msg)) 8)
      \<or> t = 11 \<and> n = 16 + 16
      \<or> t = 12 \<and> array_of 0 msg (\<lambda>p. 64 \<le> unat (rd16 p msg) \<and>
           tail_ok PropertyItem msg p (PadLength (unat (rd16 p msg))) 64)
      \<or> t = 13 \<and> array_of 4 msg (\<lambda>p. 40 \<le> unat (rd16 (p + 4) msg) \<and>
           tail_ok PropertyItem msg p (unat (rd16 (p + 4) msg)) 40)
      \<or> t = 14 \<and> array_of 0 msg (\<lambda>p. 8 \<le> unat (rd16 p msg) \<and>
           tail_ok PropertyItem msg p (unat (rd16 p msg)) 8)
      \<or> t = 15 \<and> array_of 8 msg (\<lambda>p. 16 \<le> unat (rd16 (p + 8) msg) \<and>
           tail_ok PropertyItem msg p (unat (rd16 (p + 8) msg)) 16)
      \<or> t = 16 \<and> array_of 0 msg (flow_update_ok v msg)
      \<or> t = 0xffff \<and> 24 \<le> n)"

definition msg_ok :: "msg_class \<Rightarrow> bytes \<Rightarrow> bool" where
  "msg_ok c msg =
     (let n = length msg; v = rd8 0 msg in
      case c of
        FlowMod \<Rightarrow> match_in v msg (n - 48) 48 \<and> tail_ok InstructionItem msg 0 n (48 + padded_at msg 48)
      | FlowRemoved \<Rightarrow> match_in v msg (n - 48) 48 \<and> n = 48 + padded_at msg 48
      | FlowRemovedV6 \<Rightarrow>
          (let q = 24 + padded_at msg 24 in
           match_in v msg (n - 24) 24 \<and> oxm_match_ok msg (n - q) q \<and> n = q + padded_at msg q)
      | PacketIn \<Rightarrow> v = 1 \<or> 24 \<le> n \<and> (v = 2 \<or> match_in v msg (n - (if v = 3 then 16 else 24)) (if v = 3 then 16 else 24))
      | PacketOut \<Rightarrow> 24 + unat (rd16 16 msg) \<le> n \<and> elems_ok ActionItem msg (24, unat (rd16 16 msg))
      | PacketOutV6 \<Rightarrow>
          (let q = 16 + padded_at msg 16 in
           match_in v msg (n - 16) 16 \<and> q + unat (rd16 12 msg) \<le> n \<and>
           elems_ok ActionItem msg (q, unat (rd16 12 msg)))
      | PortStatus \<Rightarrow> 40 \<le> unat (rd16 20 msg) \<and> 16 + unat (rd16 20 msg) \<le> n \<and>
          tail_ok PropertyItem msg 16 (unat (rd16 20 msg)) 40
      | TableStatus \<Rightarrow> 8 \<le> unat (rd16 16 msg) \<and> 16 + unat (rd16 16 msg) \<le> n \<and>
          tail_ok PropertyItem msg 16 (unat (rd16 16 msg)) 8
      | FeaturesReply \<Rightarrow> if 4 \<le> v then n = 32 else elems_ok PortElem msg (32, n - 32)
      | GroupMod \<Rightarrow> elems_ok BucketElem msg (16, n - 16)
      | MeterMod \<Rightarrow> elems_ok MeterBandItem msg (16, n - 16)
      | PortMod \<Rightarrow> elems_ok PropertyItem msg (32, n - 32)
      | TableMod \<Rightarrow> if v \<le> 4 then n = 16 else elems_ok PropertyItem msg (16, n - 16)
      | SetAsync \<Rightarrow> elems_ok PropertyItem msg (8, n - 8)
      | GetAsyncReply \<Rightarrow> elems_ok PropertyItem msg (8, n - 8)
      | BundleControl \<Rightarrow> elems_ok PropertyItem msg (16, n - 16)
      | RoleStatus \<Rightarrow> elems_ok PropertyItem msg (24, n - 24)
      | QueueGetConfigReply \<Rightarrow> elems_ok QueueElem msg (16, n - 16)
      | RequestForward \<Rightarrow> unat (rd16 10 msg) = n - 8
      | BundleAddMessage \<Rightarrow> 8 \<le> unat (rd16 18 msg) \<and> 16 + unat (rd16 18 msg) \<le> n \<and>
          tail_ok PropertyItem msg 0 n (16 + PadLength (unat (rd16 18 msg)))
      | MultipartRequest \<Rightarrow> request_ok msg
      | MultipartReply \<Rightarrow> reply_ok msg
      | _ \<Rightarrow> True)"

text \<open>The two multipart replies whose check is not safe: flow descriptions before version 4 and the
aggregate statistics of version 6.\<close>

definition unsafe_reply :: "bytes \<Rightarrow> bool" where
  "unsafe_reply msg =
     (rd8 1 msg = msg_type MultipartReply \<and>
      (rd16 8 msg = 1 \<and> rd8 0 msg < 4 \<or> rd16 8 msg = 2 \<and> 6 \<le> rd8 0 msg))"

section \<open>Matches\<close>

lemma setLengthRemaining_simps [simp]:
  "v_version (setLengthRemaining n ctx) = v_version ctx"
  "v_length (setLengthRemaining n ctx) = v_length ctx"
  "v_lengthRemaining (setLengthRemaining n ctx) = n"
  by (simp_all add: setLengthRemaining_def)

lemma match_then_safe:
  assumes "p + rem \<le> length msg"
    and "match_in (v_version ctx) msg rem p \<Longrightarrow> 4 \<le> rem \<Longrightarrow> safely Q (f ctx (padded_at msg p))"
  shows "safely Q (bindE (MatchHeader_validateInput msg rem p ctx)
    (\<lambda>c. bindE (MatchHeader_paddedLength msg p) (f c)))"
  using assms
  by (intro safely_bind [OF MatchHeader_validateInput_safe [OF assms(1)]])
    (auto simp: MatchHeader_paddedLength_def bindE_assoc safe_simps match_in_def padded_at_def)

lemma match_alone_safe:
  assumes "p + rem \<le> length msg"
  shows "safely (\<lambda>c. c = ctx \<and> match_in (v_version ctx) msg rem p) (MatchHeader_validateInput msg rem p ctx)"
  using safely_mono [OF MatchHeader_validateInput_safe [OF assms]] by (auto simp: match_in_def)

lemma match_in_new: "match_in v msg rem p \<Longrightarrow> 4 \<le> v \<Longrightarrow> oxm_match_ok msg rem p"
  by (auto simp: match_in_def std_match_def)

lemma match_in_padded: "match_in v msg rem p \<Longrightarrow> 4 \<le> v \<Longrightarrow> padded_at msg p \<le> rem"
  by (auto dest!: match_in_new simp: oxm_match_ok_def padded_at_def Let_def)

lemma tail_safe:
  assumes "p + len \<le> length msg"
    and "\<And>q. elem_at t msg (fst (SafeByteRange p len off)) (fst (SafeByteRange p len off) + snd (SafeByteRange p len off)) q \<Longrightarrow>
      safely (\<lambda>c. c = ctx) (f q ctx)"
  shows "safely (\<lambda>c. c = ctx \<and> tail_ok t msg p len off)
    (elems_validateInput t f msg (SafeByteRange p len off) ctx)"
  using assms by (intro elems_validateInput_safe SafeByteRange_room)

text \<open>An element with a size field lies inside its range, padding included.\<close>

lemma sized_elem_room:
  assumes "elem_at t msg b e p" and "t \<in> {BucketElem, PortElem, QueueElem}"
  shows "p + elem_sizeOffset t + 2 \<le> e" and "p + PadLength (unat (rd16 (p + elem_sizeOffset t) msg)) \<le> e"
    and "p + unat (rd16 (p + elem_sizeOffset t) msg) \<le> e"
proof -
  show "p + elem_sizeOffset t + 2 \<le> e"
    using assms by (intro elem.elem_ok_room) (auto simp: elem_params)
  show 1: "p + PadLength (unat (rd16 (p + elem_sizeOffset t) msg)) \<le> e"
    using assms by (auto simp: elem_params elem_jump_def elem_size_def PROTOCOL_ITERATOR_SIZE_CONDITIONAL_def
        PROTOCOL_ITERATOR_SIZE_FIXED_def)
  show "p + unat (rd16 (p + elem_sizeOffset t) msg) \<le> e"
    using 1 PadLength_ge [of "unat (rd16 (p + elem_sizeOffset t) msg)"] by simp
qed

lemma Bucket_elem_safe:
  assumes "elem_at BucketElem msg b e p" and "e \<le> length msg"
  shows "safely (\<lambda>c. c = ctx) (Bucket_validateInput msg p ctx)"
  using sized_elem_room [OF assms(1)] assms(2)
  by (intro safely_mono [OF Bucket_validateInput_safe]) (auto simp: elem_params)

lemma Port_elem_safe:
  assumes "elem_at PortElem msg b e p" and "e \<le> length msg"
  shows "safely (\<lambda>c. c = ctx) (Port_validateInput msg p ctx)"
  using sized_elem_room [OF assms(1)] assms(2)
  by (intro safely_mono [OF Port_validateInput_safe]) (auto simp: elem_params)

lemma Queue_elem_safe:
  assumes "elem_at QueueElem msg b e p" and "e \<le> length msg"
  shows "safely (\<lambda>c. c = ctx) (Queue_validateInput msg p ctx)"
  using sized_elem_room [OF assms(1)] assms(2)
  by (intro safely_mono [OF Queue_validateInput_safe]) (auto simp: elem_params)

section \<open>Multipart requests\<close>

lemma request_match_safe:
  assumes "length msg = 16 + v_lengthRemaining ctx"
  shows "safely (\<lambda>c. match_in (v_version ctx) msg (length msg - 48) 48 \<and> length msg = 48 + padded_at msg 48)
      (MPFlowStatsRequest_validateInput msg 16 ctx)"
    and "safely (\<lambda>c. match_in (v_version ctx) msg (length msg - 32) 32 \<and> length msg = 32 + padded_at msg 32)
      (MPFlowMonitorRequest_validateInput msg 16 ctx)"
  using assms
  by (auto simp: MPFlowStatsRequest_validateInput_def MPFlowMonitorRequest_validateInput_def Let_def
      intro!: match_then_safe)

lemma MPTableFeatures_safe:
  assumes "p + array_jump 0 msg p \<le> length msg" and "p + 2 \<le> length msg"
  shows "safely (\<lambda>c. c = ctx \<and> 64 \<le> unat (rd16 p msg) \<and>
      tail_ok PropertyItem msg p (PadLength (unat (rd16 p msg))) 64) (MPTableFeatures_validateInput msg p ctx)"
proof -
  let ?r = "SafeByteRange p (PadLength (unat (rd16 p msg))) 64"
  have room: "fst ?r + snd ?r \<le> length msg"
    using assms(1) by (intro SafeByteRange_room) (simp add: array_jump_def)
  have "safely (\<lambda>c. c = ctx \<and> elems_ok PropertyItem msg ?r)
      (bindE (PropertyRange_validateInput msg ?r ctx) (TableFeaturePropertyValidator_validateInput msg ?r))"
    by (rule safely_bind [OF PropertyRange_validateInput_safe [OF room]])
      (auto intro: safely_mono [OF TableFeaturePropertyValidator_safe [OF room]])
  with assms(2) show ?thesis
    by (auto simp: MPTableFeatures_validateInput_def safe_simps Let_def not_less elim!: safely_mono)
qed

lemma array_safe:
  assumes "length msg = 16 + v_lengthRemaining ctx"
    and "\<And>p (ctx' :: Validation). p + array_jump Offset msg p \<le> length msg \<Longrightarrow> p + Offset + 2 \<le> length msg \<Longrightarrow>
      Offset + 2 \<le> unat (rd16 (p + Offset) msg) \<Longrightarrow>
      v_version ctx' = v_version ctx \<Longrightarrow> safely (\<lambda>c. v_version c = v_version ctx \<and> Q p) (f p ctx')"
  shows "safely (\<lambda>_. array_of Offset msg Q) (validateArrayVariableSize Offset f msg minVersion 16 ctx)"
proof -
  have "safely (\<lambda>c. v_version c = v_version ctx \<and>
      (\<exists>ps. tiles (array_jump Offset msg) 16 ps (16 + v_lengthRemaining ctx) \<and> (\<forall>p\<in>set ps. Q p)))
    (validateArrayVariableSize Offset f msg minVersion 16 ctx)"
  proof (rule validateArrayVariableSize_safe)
    fix p and ctx' :: Validation assume a: "p + array_jump Offset msg p \<le> 16 + v_lengthRemaining ctx"
      "Offset + 2 \<le> unat (rd16 (p + Offset) msg)" "v_version ctx' = v_version ctx"
    have "unat (rd16 (p + Offset) msg) \<le> array_jump Offset msg p"
      by (simp add: array_jump_def PadLength_ge)
    with a assms show "safely (\<lambda>c. v_version c = v_version ctx \<and> Q p) (f p ctx')" by simp
  qed (use assms in simp_all)
  then show ?thesis using assms(1) by (auto simp: array_of_def elim: safely_mono)
qed

lemma exact_length_safe:
  "length msg = 16 + v_lengthRemaining ctx \<Longrightarrow> safely (\<lambda>_. length msg = 16 + n) (exact_length n p ctx)"
  "length msg = 16 + v_lengthRemaining ctx \<Longrightarrow> safely (\<lambda>_. length msg = 16 + n) (exact_length_quiet n p ctx)"
  by (simp_all add: exact_length_def exact_length_quiet_def safe_simps)

lemma validateEmpty_safe:
  "length msg = 16 + v_lengthRemaining ctx \<Longrightarrow> safely (\<lambda>_. length msg = 16) (validateEmpty v p ctx)"
  by (simp add: validateEmpty_def)

lemma validate_safe:
  "safely Q (f p ctx) \<Longrightarrow> safely Q (validate f v m p ctx)"
  by (simp add: validate_def)

lemmas fixed_request_defs =
  MPPortStatsRequest_validateInput_def MPQueueStatsRequest_validateInput_def
  MPGroupStatsRequest_validateInput_def MPMeterConfigRequest_validateInput_def
  MPQueueDescRequest_validateInput_def

lemma MPExperimenter_safe:
  "length msg = 16 + v_lengthRemaining ctx \<Longrightarrow> safely (\<lambda>_. 24 \<le> length msg) (MPExperimenter_validateInput p ctx)"
  by (simp add: MPExperimenter_validateInput_def)

lemma table_features_array_safe:
  assumes "length msg = 16 + v_lengthRemaining ctx"
  shows "safely (\<lambda>_. array_of 0 msg (\<lambda>p. 64 \<le> unat (rd16 p msg) \<and>
           tail_ok PropertyItem msg p (PadLength (unat (rd16 p msg))) 64))
    (validateArrayVariableSize 0 (MPTableFeatures_validateInput msg) msg minVersion 16 ctx)"
  by (rule array_safe [OF assms]) (auto intro!: safely_mono [OF MPTableFeatures_safe])

lemma MultipartRequest_safe:
  assumes "framed msg" and "16 \<le> length msg" and "v_version ctx = rd8 0 msg"
  shows "safely (\<lambda>_. request_ok msg) (MultipartRequest_validateInput msg ctx)"
proof -
  let ?c = "setLengthRemaining (length msg - 16) ctx"
  have n: "length msg = 16 + v_lengthRemaining ?c" using assms by simp
  have fixed: "safely (\<lambda>_. length msg = 24) (validate f m True 16 ?c)"
    if "f \<in> {MPPortStatsRequest_validateInput, MPQueueStatsRequest_validateInput,
      MPGroupStatsRequest_validateInput, MPMeterConfigRequest_validateInput, MPQueueDescRequest_validateInput}" for f m
    using that exact_length_safe(2) [OF n, of 8 16] by (auto intro!: validate_safe simp: fixed_request_defs)
  note parts = validateEmpty_safe [OF n, of _ 16] fixed table_features_array_safe [OF n]
    validate_safe [of _ "MPFlowStatsRequest_validateInput msg", OF request_match_safe(1) [OF n]]
    validate_safe [of _ "MPFlowMonitorRequest_validateInput msg", OF request_match_safe(2) [OF n]]
    validate_safe [of _ MPExperimenter_validateInput, OF MPExperimenter_safe [OF n]]
  have q: "16 \<le> length msg" "unat (rd16 2 msg) = length msg" using assms by (simp_all add: framed_def)
  show ?thesis
    unfolding MultipartRequest_validateInput_def
    using q
    by (auto simp: safe_simps Let_def request_ok_def assms(3) split del: if_split
        intro!: safely_if parts [THEN safely_mono])
qed

section \<open>Multipart replies\<close>

lemma array_jump_room:
  "p + array_jump Offset msg p \<le> e \<Longrightarrow> p + unat (rd16 (p + Offset) msg) \<le> e"
  using PadLength_ge [of "unat (rd16 (p + Offset) msg)"] by (simp add: array_jump_def)

lemma MPFlowStatsReply_safe:
  assumes "p + unat (rd16 p msg) \<le> length msg" and "p + 2 \<le> length msg" and "4 \<le> v_version ctx"
  shows "safely (\<lambda>c. v_version c = v_version ctx \<and> flow_stats_ok (v_version ctx) msg p)
    (MPFlowStatsReply_validateInput msg p ctx)"
proof -
  let ?len = "unat (rd16 p msg)"
  have "safely (\<lambda>c. v_version c = v_version ctx \<and> flow_stats_ok (v_version ctx) msg p)
      (bindE (MatchHeader_validateInput msg (?len - 48) (p + 48) ctx) (\<lambda>ctx.
       bindE (get16 (p + 50) msg) (\<lambda>matchLength.
       bindE (MPFlowStatsReply_instructions msg p) (\<lambda>rng.
       InstructionRange_validateInput msg rng
         (setLengthRemaining ((?len + 2 ^ 64 - 48 - unat matchLength) mod 2 ^ 64) ctx)))))"
    if len: "52 \<le> ?len"
  proof (rule safely_bind [OF match_alone_safe])
    show "p + 48 + (?len - 48) \<le> length msg" using assms(1) len by simp
    fix c assume c: "c = ctx \<and> match_in (v_version ctx) msg (?len - 48) (p + 48)"
    let ?padded = "padded_at msg (p + 48)"
    have le: "48 + ?padded \<le> ?len" using c match_in_padded [OF _ assms(3)] len by fastforce
    let ?r = "SafeByteRange p ?len (48 + ?padded)"
    have room: "fst ?r + snd ?r \<le> length msg" using assms by (intro SafeByteRange_room)
    show "safely (\<lambda>c. v_version c = v_version ctx \<and> flow_stats_ok (v_version ctx) msg p)
       (bindE (get16 (p + 50) msg) (\<lambda>matchLength.
       bindE (MPFlowStatsReply_instructions msg p) (\<lambda>rng.
       InstructionRange_validateInput msg rng
         (setLengthRemaining ((?len + 2 ^ 64 - 48 - unat matchLength) mod 2 ^ 64) c))))"
      using assms len le c room
      by (auto simp: safe_simps MPFlowStatsReply_instructions_def MatchHeader_paddedLength_def bindE_assoc
          flow_stats_ok_def padded_at_def Let_def intro!: safely_mono [OF InstructionRange_validateInput_safe])
  qed
  with assms show ?thesis
    by (simp add: MPFlowStatsReply_validateInput_def validateAlignedLength_def safe_simps Let_def)
qed

lemma MPFlowMonitorReply_safe:
  assumes "p + unat (rd16 p msg) \<le> length msg" and "p + 4 \<le> length msg"
  shows "safely (\<lambda>c. c = ctx \<and> flow_update_ok (v_version ctx) msg p) (MPFlowMonitorReply_validateInput msg p ctx)"
  using assms
  by (auto simp: MPFlowMonitorReply_validateInput_def safe_simps flow_update_ok_def OFPFME_ABBREV_def Let_def
      not_less intro!: match_then_safe)

lemma MPPortStats_safe:
  assumes "p + unat (rd16 p msg) \<le> length msg" and "p + 2 \<le> length msg"
  shows "safely (\<lambda>c. c = ctx \<and> tail_ok PropertyItem msg p (unat (rd16 p msg)) 80) (MPPortStats_validateInput msg p ctx)"
  using assms
  by (auto simp: MPPortStats_validateInput_def safe_simps
      intro!: safely_mono [OF PropertyRange_validateInput_safe] SafeByteRange_room)

lemma group_stats_safe:
  assumes "p + unat (rd16 p msg) \<le> length msg" and "p + 2 \<le> length msg"
  shows "safely (\<lambda>c. c = ctx \<and> 40 \<le> unat (rd16 p msg) \<and> tail_ok PacketCounterElem msg p (unat (rd16 p msg)) 40)
      (MPGroupStats_validateInput msg p ctx)"
    and "safely (\<lambda>c. c = ctx \<and> 8 \<le> unat (rd16 p msg) \<and> tail_ok BucketElem msg p (unat (rd16 p msg)) 8)
      (MPGroupDesc_validateInput msg p ctx)"
    and "safely (\<lambda>c. c = ctx \<and> 8 \<le> unat (rd16 p msg) \<and> tail_ok MeterBandItem msg p (unat (rd16 p msg)) 8)
      (MPMeterConfig_validateInput msg p ctx)"
  using assms Bucket_elem_safe [OF _ SafeByteRange_room [OF assms(1)]]
  by (auto simp: MPGroupStats_validateInput_def MPGroupDesc_validateInput_def MPMeterConfig_validateInput_def
      validateAlignedLength_def safe_simps intro!: safely_mono [OF tail_safe])

lemma MPMeterStats_safe:
  assumes "p + unat (rd16 (p + 4) msg) \<le> length msg" and "p + 6 \<le> length msg"
  shows "safely (\<lambda>c. c = ctx \<and> 40 \<le> unat (rd16 (p + 4) msg) \<and>
      tail_ok PacketCounterElem msg p (unat (rd16 (p + 4) msg)) 40) (MPMeterStats_validateInput msg p ctx)"
  using assms
  by (auto simp: MPMeterStats_validateInput_def validateAlignedLength_def safe_simps intro!: safely_mono [OF tail_safe])

lemma PadLength_least: "0 < n \<Longrightarrow> 8 \<le> PadLength n"
  by (simp add: PadLength_def)

lemma array_jump0:
  "p + array_jump 0 msg p \<le> e \<Longrightarrow> p + unat (rd16 p msg) \<le> e"
  "p + array_jump 0 msg p \<le> e \<Longrightarrow> 2 \<le> unat (rd16 p msg) \<Longrightarrow> p + 4 \<le> e"
  using array_jump_room [of p 0] PadLength_least [of "unat (rd16 p msg)"] by (auto simp: array_jump_def)

lemma flow_stats_array_safe:
  assumes n: "length msg = 16 + v_lengthRemaining ctx" and v: "4 \<le> v_version ctx"
  shows "safely (\<lambda>_. array_of 0 msg (flow_stats_ok (v_version ctx) msg))
      (validateArrayVariableSize 0 (MPFlowStatsReply_validateInput msg) msg v 16 ctx)"
  by (rule array_safe [OF n], drule array_jump0(1)) (metis v MPFlowStatsReply_safe add.right_neutral)

lemma flow_update_array_safe:
  assumes n: "length msg = 16 + v_lengthRemaining ctx"
  shows "safely (\<lambda>_. array_of 0 msg (flow_update_ok (v_version ctx) msg))
      (validateArrayVariableSize 0 (MPFlowMonitorReply_validateInput msg) msg v 16 ctx)"
  by (rule array_safe [OF n]) (auto dest: array_jump0 intro!: safely_mono [OF MPFlowMonitorReply_safe])

lemma port_stats_array_safe:
  assumes n: "length msg = 16 + v_lengthRemaining ctx"
  shows "safely (\<lambda>_. array_of 0 msg (\<lambda>p. tail_ok PropertyItem msg p (unat (rd16 p msg)) 80))
      (validateArrayVariableSize 0 (MPPortStats_validateInput msg) msg v 16 ctx)"
  by (rule array_safe [OF n]) (auto dest: array_jump0(1) intro!: safely_mono [OF MPPortStats_safe])

lemma group_stats_array_safe:
  assumes n: "length msg = 16 + v_lengthRemaining ctx"
  shows "safely (\<lambda>_. array_of 0 msg (\<lambda>p. 40 \<le> unat (rd16 p msg) \<and> tail_ok PacketCounterElem msg p (unat (rd16 p msg)) 40))
      (validateArrayVariableSize 0 (MPGroupStats_validateInput msg) msg v 16 ctx)"
  by (rule array_safe [OF n]) (auto dest: array_jump0(1) intro!: safely_mono [OF group_stats_safe(1)])

lemma group_desc_array_safe:
  assumes n: "length msg = 16 + v_lengthRemaining ctx"
  shows "safely (\<lambda>_. array_of 0 msg (\<lambda>p. 8 \<le> unat (rd16 p msg) \<and> tail_ok BucketElem msg p (unat (rd16 p msg)) 8))
      (validateArrayVariableSize 0 (MPGroupDesc_validateInput msg) msg v 16 ctx)"
  by (rule array_safe [OF n]) (auto dest: array_jump0(1) intro!: safely_mono [OF group_stats_safe(2)])

lemma meter_config_array_safe:
  assumes n: "length msg = 16 + v_lengthRemaining ctx"
  shows "safely (\<lambda>_. array_of 0 msg (\<lambda>p. 8 \<le> unat (rd16 p msg) \<and> tail_ok MeterBandItem msg p (unat (rd16 p msg)) 8))
      (validateArrayVariableSize 0 (MPMeterConfig_validateInput msg) msg v 16 ctx)"
  by (rule array_safe [OF n]) (auto dest: array_jump0(1) intro!: safely_mono [OF group_stats_safe(3)])

lemma meter_stats_array_safe:
  assumes n: "length msg = 16 + v_lengthRemaining ctx"
  shows "safely (\<lambda>_. array_of 4 msg (\<lambda>p. 40 \<le> unat (rd16 (p + 4) msg) \<and>
        tail_ok PacketCounterElem msg p (unat (rd16 (p + 4) msg)) 40))
      (validateArrayVariableSize 4 (MPMeterStats_validateInput msg) msg v 16 ctx)"
  by (rule array_safe [OF n]) (auto dest: array_jump_room intro!: safely_mono [OF MPMeterStats_safe])

lemma port_desc_array_safe:
  assumes n: "length msg = 16 + v_lengthRemaining ctx"
  shows "safely (\<lambda>_. array_of 4 msg (\<lambda>p. 40 \<le> unat (rd16 (p + 4) msg) \<and>
        tail_ok PropertyItem msg p (unat (rd16 (p + 4) msg)) 40))
      (validateArrayVariableSize 4 (Port_validateInput msg) msg v 16 ctx)"
  by (rule array_safe [OF n]) (auto dest!: array_jump_room intro!: safely_mono [OF Port_validateInput_safe])

lemma table_desc_array_safe:
  assumes n: "length msg = 16 + v_lengthRemaining ctx"
  shows "safely (\<lambda>_. array_of 0 msg (\<lambda>p. 8 \<le> unat (rd16 p msg) \<and> tail_ok PropertyItem msg p (unat (rd16 p msg)) 8))
      (validateArrayVariableSize 0 (TableDesc_validateInput msg) msg v 16 ctx)"
  by (rule array_safe [OF n]) (auto dest!: array_jump0(1) intro!: safely_mono [OF TableDesc_validateInput_safe])

lemma queue_desc_array_safe:
  assumes n: "length msg = 16 + v_lengthRemaining ctx"
  shows "safely (\<lambda>_. array_of 8 msg (\<lambda>p. 16 \<le> unat (rd16 (p + 8) msg) \<and>
        tail_ok PropertyItem msg p (unat (rd16 (p + 8) msg)) 16))
      (validateArrayVariableSize 8 (QueueDesc_validateInput msg) msg v 16 ctx)"
  by (rule array_safe [OF n]) (auto dest: array_jump_room intro!: safely_mono [OF QueueDesc_validateInput_safe])

lemma fixed_array_safe:
  assumes "length msg = 16 + v_lengthRemaining ctx"
    and that: "n mod 8 = 0" "0 < n"
  shows "safely (\<lambda>_. (length msg - 16) mod n = 0) (validateArrayFixedSize n accept v 16 ctx)"
proof (cases "v_lengthRemaining ctx mod n = 0")
  case True
  with assms that show ?thesis
    using validateArrayFixedSize_safe [of n "\<lambda>_. True" ctx 16 accept v] by (auto elim!: safely_mono)
qed (simp add: validateArrayFixedSize_def)

lemma fixed_reply_safe:
  assumes n: "length msg = 16 + v_lengthRemaining ctx"
  shows "safely (\<lambda>_. length msg = 16 + 1056) (validate MPDesc_validateInput v m 16 ctx)"
    and "safely (\<lambda>_. length msg = 16 + 24) (validate MPAggregateStatsReply_validateInput v m 16 ctx)"
    and "safely (\<lambda>_. length msg = 16 + 40) (validate MPGroupFeatures_validateInput v m 16 ctx)"
    and "safely (\<lambda>_. length msg = 16 + 16) (validate MPMeterFeatures_validateInput v m 16 ctx)"
  unfolding validate_def MPDesc_validateInput_def MPAggregateStatsReply_validateInput_def
    MPGroupFeatures_validateInput_def MPMeterFeatures_validateInput_def
  by (auto simp: exact_length_def n)

lemma MultipartReply_safe:
  assumes "framed msg" and "16 \<le> length msg" and "v_version ctx = rd8 0 msg" and "\<not> unsafe_reply msg"
    and "rd8 1 msg = msg_type MultipartReply"
  shows "safely (\<lambda>_. reply_ok msg) (MultipartReply_validateInput msg ctx)"
proof -
  let ?c = "setLengthRemaining (length msg - 16) ctx"
  have n: "length msg = 16 + v_lengthRemaining ?c" using assms by simp
  note fixed = fixed_reply_safe [OF n]
    validate_safe [of _ MPExperimenter_validateInput, OF MPExperimenter_safe [OF n]]
    fixed_array_safe [OF n]
  note arrays = flow_stats_array_safe [OF n] flow_update_array_safe [OF n] port_stats_array_safe [OF n]
    group_stats_array_safe [OF n] group_desc_array_safe [OF n] meter_config_array_safe [OF n]
    meter_stats_array_safe [OF n] port_desc_array_safe [OF n] table_desc_array_safe [OF n]
    queue_desc_array_safe [OF n] table_features_array_safe [OF n]
  have q: "16 \<le> length msg" "unat (rd16 2 msg) = length msg" using assms by (simp_all add: framed_def)
  show ?thesis
    unfolding MultipartReply_validateInput_def
    using q assms(4,5)
    by (auto simp: safe_simps Let_def reply_ok_def assms(3) unsafe_reply_def not_less split del: if_split
        intro!: safely_if fixed [THEN safely_mono] arrays [THEN safely_mono])
qed

section \<open>Other messages\<close>

lemma msg_tail_safe:
  assumes "framed msg" and "safely Q (f (SafeByteRange 0 (length msg) off))"
  shows "safely Q (bindE (msg_tail msg off) f)"
  using assms by (simp add: msg_tail_def bindE_assoc safe_simps framed_def)

lemma SafeByteRange_0: "off \<le> n \<Longrightarrow> SafeByteRange 0 n off = (off, n - off)"
  by (simp add: SafeByteRange_def)

lemma properties_safe:
  assumes "framed msg" and "off \<le> length msg"
  shows "safely (\<lambda>c. c = ctx \<and> elems_ok PropertyItem msg (off, length msg - off)) (msg_properties_validateInput off msg ctx)"
  unfolding msg_properties_validateInput_def
  using assms by (auto simp: SafeByteRange_0 intro!: msg_tail_safe safely_mono [OF PropertyRange_validateInput_safe])

lemmas property_message_defs = PortMod_validateInput_def SetAsync_validateInput_def GetAsyncReply_validateInput_def
  BundleControl_validateInput_def RoleStatus_validateInput_def

lemma FlowMod_safe:
  assumes "framed msg" and "v_version ctx = rd8 0 msg"
  shows "safely (\<lambda>_. msg_ok FlowMod msg) (FlowMod_validateInput msg ctx)"
  using assms unfolding framed_def
  by (auto simp: FlowMod_validateInput_def safe_simps msg_ok_def Let_def
      intro!: match_then_safe safely_mono [OF InstructionRange_validateInput_safe] SafeByteRange_room)

lemma FlowRemoved_safe:
  assumes "framed msg" and "56 \<le> length msg" and "v_version ctx = rd8 0 msg" and "v_length ctx = length msg"
  shows "safely (\<lambda>_. msg_ok FlowRemoved msg) (FlowRemoved_validateInput msg ctx)"
  using assms
  by (auto simp: FlowRemoved_validateInput_def MatchHeader_paddedLength_def bindE_assoc safe_simps msg_ok_def Let_def
      padded_at_def intro!: safely_mono [OF match_alone_safe])

lemma FlowRemovedV6_safe:
  assumes "framed msg" and "v_version ctx = rd8 0 msg" and "v_length ctx = length msg"
  shows "safely (\<lambda>_. msg_ok FlowRemovedV6 msg) (FlowRemovedV6_validateInput msg ctx)"
proof -
  let ?n = "length msg" and ?q = "24 + padded_at msg 24"
  have "safely (\<lambda>_. oxm_match_ok msg (?n - ?q) ?q \<and> ?n = ?q + padded_at msg ?q)
      (bindE (StatHeader_validateInput msg (?n - 24 - padded_at msg 24) ?q ctx) (\<lambda>ctx.
       bindE (MatchHeader_paddedLength msg ?q) (\<lambda>statLen.
       if ?n - 24 - padded_at msg 24 \<noteq> statLen then reject Unreported else Inr ctx)))"
    if "\<not> ?n < 28" "\<not> ?n - 24 < padded_at msg 24"
    using that
    by (intro safely_bind [OF StatHeader_validateInput_safe])
      (auto simp: MatchHeader_paddedLength_def bindE_assoc safe_simps padded_at_def not_less)
  then show ?thesis
    using assms unfolding FlowRemovedV6_validateInput_def
    by (auto simp: Let_def not_less msg_ok_def intro!: match_then_safe elim!: safely_mono)
qed

lemma PacketIn_safe:
  assumes "framed msg" and "v_version ctx = rd8 0 msg" and "v_length ctx = length msg"
  shows "safely (\<lambda>_. msg_ok PacketIn msg) (PacketIn_validateInput msg ctx)"
  using assms
  by (auto simp: PacketIn_validateInput_def safe_simps framed_def msg_ok_def Let_def
      intro!: safely_mono [OF match_alone_safe])

lemma PacketOut_safe:
  assumes "24 \<le> length msg" and "v_length ctx = length msg"
  shows "safely (\<lambda>_. msg_ok PacketOut msg) (PacketOut_validateInput msg ctx)"
  using assms
  by (auto simp: PacketOut_validateInput_def safe_simps msg_ok_def Let_def not_less
      intro!: safely_mono [OF ActionRange_validateInput_safe])

lemma PacketOutV6_safe:
  assumes "framed msg" and "v_version ctx = rd8 0 msg" and "v_length ctx = length msg" and "4 \<le> v_version ctx"
  shows "safely (\<lambda>_. msg_ok PacketOutV6 msg) (PacketOutV6_validateInput msg ctx)"
proof -
  let ?n = "length msg" and ?q = "16 + padded_at msg 16" and ?a = "unat (rd16 12 msg)"
  have "safely (\<lambda>_. msg_ok PacketOutV6 msg)
      (bindE (assertE (?n - 16 \<ge> padded_at msg 16)) (\<lambda>_.
       bindE (get16 12 msg) (\<lambda>actionsLen.
       if ?n - 16 - padded_at msg 16 < unat actionsLen then reject Unreported
       else bindE (get16 2 msg) (\<lambda>len.
         ActionRange_validateInput msg (SafeByteRangeSize 0 (unat len) ?q (unat actionsLen)) ctx))))"
    if "\<not> ?n < 20" and m: "match_in (rd8 0 msg) msg (?n - 16) 16"
  proof -
    have le: "padded_at msg 16 \<le> ?n - 16" using match_in_padded [OF m] assms by simp
    have "SafeByteRangeSize 0 ?n ?q ?a = (?q, ?a)" if "?q + ?a \<le> ?n" using that by (simp add: SafeByteRangeSize_def)
    with that le assms show ?thesis
      by (auto simp: safe_simps msg_ok_def Let_def not_less framed_def
          intro!: safely_mono [OF ActionRange_validateInput_safe])
  qed
  then show ?thesis
    using assms by (auto simp: PacketOutV6_validateInput_def Let_def not_less intro!: match_then_safe)
qed

lemma msg_elems_safe:
  assumes "framed msg" and "off \<le> length msg"
    and "\<And>p. elem_at t msg off (length msg) p \<Longrightarrow> safely (\<lambda>c. c = ctx) (f p ctx)"
  shows "safely (\<lambda>_. elems_ok t msg (off, length msg - off))
    (bindE (msg_tail msg off) (\<lambda>rng. elems_validateInput t f msg rng ctx))"
proof (rule msg_tail_safe [OF assms(1)])
  have "safely (\<lambda>c. c = ctx \<and> elems_ok t msg (off, length msg - off))
      (elems_validateInput t f msg (off, length msg - off) ctx)"
    using assms(2,3) by (intro elems_validateInput_safe) auto
  then show "safely (\<lambda>_. elems_ok t msg (off, length msg - off))
      (elems_validateInput t f msg (SafeByteRange 0 (length msg) off) ctx)"
    unfolding SafeByteRange_0 [OF assms(2)] by (rule safely_mono) simp
qed

lemma PortStatus_safe:
  assumes "framed msg"
  shows "safely (\<lambda>_. msg_ok PortStatus msg) (PortStatus_validateInput msg ctx)"
  using assms
  by (auto simp: PortStatus_validateInput_def safe_simps framed_def msg_ok_def Let_def not_less
      intro!: safely_mono [OF Port_validateInput_safe])

lemma TableStatus_safe:
  assumes "framed msg" and "v_length ctx = length msg"
  shows "safely (\<lambda>_. msg_ok TableStatus msg) (TableStatus_validateInput msg ctx)"
  using assms
  by (auto simp: TableStatus_validateInput_def safe_simps framed_def msg_ok_def Let_def not_less
      intro!: safely_mono [OF TableDesc_validateInput_safe])

lemma FeaturesReply_safe:
  assumes "framed msg" and "32 \<le> length msg" and "v_length ctx = length msg"
  shows "safely (\<lambda>_. msg_ok FeaturesReply msg) (FeaturesReply_validateInput msg ctx)"
  using assms Port_elem_safe [where msg = msg and e = "length msg"]
  by (auto simp: FeaturesReply_validateInput_def safe_simps msg_ok_def Let_def not_le
      intro!: msg_elems_safe [THEN safely_mono])

lemma TableMod_safe:
  assumes "framed msg" and "16 \<le> length msg"
  shows "safely (\<lambda>_. msg_ok TableMod msg) (TableMod_validateInput msg ctx)"
proof -
  let ?r = "(16, length msg - 16)"
  have room: "fst ?r + snd ?r \<le> length msg" using assms by simp
  have "safely (\<lambda>_. elems_ok PropertyItem msg ?r)
      (bindE (PropertyRange_validateInput msg ?r ctx) (TableModPropertyValidator_validateInput msg ?r))"
    by (rule safely_bind [OF PropertyRange_validateInput_safe [OF room]])
      (auto intro: safely_mono [OF TableModPropertyValidator_safe [OF room]])
  with assms show ?thesis
    by (auto simp: TableMod_validateInput_def safe_simps msg_ok_def Let_def framed_def SafeByteRange_0
        intro!: msg_tail_safe elim!: safely_mono)
qed

lemma element_messages_safe:
  assumes "framed msg" and "16 \<le> length msg"
  shows "safely (\<lambda>_. msg_ok GroupMod msg) (GroupMod_validateInput msg ctx)"
    and "safely (\<lambda>_. msg_ok MeterMod msg) (MeterMod_validateInput msg ctx)"
    and "safely (\<lambda>_. msg_ok QueueGetConfigReply msg) (QueueGetConfigReply_validateInput msg ctx)"
  using assms Bucket_elem_safe [where msg = msg and e = "length msg"] Queue_elem_safe [where msg = msg and e = "length msg"]
  by (auto simp: GroupMod_validateInput_def MeterMod_validateInput_def QueueGetConfigReply_validateInput_def
      msg_ok_def Let_def intro!: msg_elems_safe [THEN safely_mono])

lemma RequestForward_safe:
  assumes "framed msg" and "16 \<le> length msg"
  shows "safely (\<lambda>_. msg_ok RequestForward msg) (RequestForward_validateInput msg ctx)"
  using assms
  by (auto simp: RequestForward_validateInput_def safe_simps msg_ok_def Let_def SafeByteRange_0 intro!: msg_tail_safe)

lemma BundleAddMessage_safe:
  assumes "framed msg"
  shows "safely (\<lambda>_. msg_ok BundleAddMessage msg) (BundleAddMessage_validateInput msg ctx)"
  using assms
  by (auto simp: BundleAddMessage_validateInput_def safe_simps framed_def msg_ok_def Let_def not_less
      intro!: safely_mono [OF PropertyRange_validateInput_safe] SafeByteRange_room)

lemmas class_safe = FlowMod_safe FlowRemoved_safe FlowRemovedV6_safe PacketIn_safe PacketOut_safe
  PacketOutV6_safe PortStatus_safe TableStatus_safe FeaturesReply_safe TableMod_safe
  element_messages_safe RequestForward_safe BundleAddMessage_safe

section \<open>Casting\<close>

text \<open>The version an object of the class may have: the classes of version 6 are used for it only.\<close>

definition class_version :: "msg_class \<Rightarrow> byte \<Rightarrow> bool" where
  "class_version c version = (c = PacketOutV6 \<longrightarrow> 4 \<le> version)"

lemma msg_validateInput_safe:
  assumes "framed msg" and "isLengthValid c (length msg)" and "rd8 1 msg = msg_type c"
    and "class_version c (rd8 0 msg)" and "\<not> unsafe_reply msg"
  shows "safely (\<lambda>_. msg_ok c msg) (msg_validateInput c msg (Validation_make msg))"
proof -
  let ?c = "Validation_make msg"
  have c: "v_version ?c = rd8 0 msg" "v_length ?c = length msg" by (simp_all add: Validation_make_def)
  have reply: "safely (\<lambda>_. msg_ok c msg) (MultipartReply_validateInput msg ?c)" if "c = MultipartReply"
    using MultipartReply_safe [OF assms(1) _ c(1) assms(5)] assms(2,3) that by (simp add: msg_ok_def Let_def isLengthValid_def)
  have request: "safely (\<lambda>_. msg_ok c msg) (MultipartRequest_validateInput msg ?c)" if "c = MultipartRequest"
    using MultipartRequest_safe [OF assms(1) _ c(1)] assms(2) that by (simp add: msg_ok_def Let_def isLengthValid_def)
  have props: "safely (\<lambda>_. msg_ok c msg) (msg_properties_validateInput off msg ?c)"
    if "off \<le> length msg" "msg_ok c msg = elems_ok PropertyItem msg (off, length msg - off)" for off
    using safely_mono [OF properties_safe [OF assms(1) that(1)]] that(2) by auto
  show ?thesis
    using assms c class_safe reply request props
    by (cases c) (simp_all add: msg_validateInput_def property_message_defs isLengthValid_def class_version_def msg_ok_def Let_def)
qed

lemma castMessage_safe:
  assumes "framed msg" and "rd8 1 msg = msg_type c" and "class_version c (rd8 0 msg)" and "\<not> unsafe_reply msg"
  shows "safely (\<lambda>_. isLengthValid c (length msg) \<and> msg_ok c msg) (castMessage c msg)"
  using assms msg_validateInput_safe [OF assms(1) _ assms(2-4)]
  by (auto simp: castMessage_def safe_simps framed_def Let_def intro: safely_bind)

lemma HeaderOnly_cast_safe:
  assumes "framed msg" and "rd8 1 msg = msg_type c"
    and "c \<in> {FeaturesRequest, GetAsyncRequest, GetConfigRequest, BarrierRequest, BarrierReply}"
  shows "safely (\<lambda>_. isLengthValid c (length msg) \<and> msg_ok c msg) (HeaderOnly_cast c msg)"
  using assms by (auto simp: HeaderOnly_cast_def safe_simps framed_def isLengthValid_def msg_ok_def Let_def)

lemma msg_cast_safe:
  assumes "framed msg" and "rd8 1 msg = msg_type c" and "class_version c (rd8 0 msg)" and "\<not> unsafe_reply msg"
  shows "safely (\<lambda>_. isLengthValid c (length msg) \<and> msg_ok c msg) (msg_cast c msg)"
  using castMessage_safe [OF assms] HeaderOnly_cast_safe [OF assms(1,2)] by (simp add: msg_cast_def)

lemma decode_class_Some:
  assumes "decode_class t v = Some c"
  shows "msg_type c = t \<and> class_version c v"
proof -
  have "PacketOutV6 \<notin> set msg_classes" by (simp add: msg_classes_def)
  with assms show ?thesis
    by (auto simp: decode_class_def class_version_def find_Some_iff not_less word_le_nat_alt
        dest: nth_mem split: if_splits)
qed

lemma decodeMsg_safe:
  assumes "framed msg" and "\<not> unsafe_reply msg"
  shows "safely (\<lambda>c. msg_type c = rd8 1 msg \<and> isLengthValid c (length msg) \<and> msg_ok c msg) (decodeMsg msg)"
proof (cases "decode_class (rd8 1 msg) (rd8 0 msg)")
  case None
  with assms show ?thesis by (simp add: decodeMsg_def safe_simps framed_def)
next
  case (Some c)
  from decode_class_Some [OF this] have "safely (\<lambda>_. isLengthValid c (length msg) \<and> msg_ok c msg) (msg_cast c msg)"
    using msg_cast_safe assms by metis
  with Some assms decode_class_Some [OF Some] show ?thesis
    by (auto simp: decodeMsg_def safe_simps framed_def intro!: safely_bind)
qed

section \<open>Main results\<close>

definition sample_flow_mod :: bytes where
  "sample_flow_mod =
     [4, 14, 0, 64, 0, 0, 0, 1] @ replicate 40 0 @ [0, 1, 0, 4, 0, 0, 0, 0] @ [0, 1, 0, 8, 5, 0, 0, 0]"

lemma sample_flow_mod_facts:
  "length sample_flow_mod = 64" "framed sample_flow_mod" "\<not> unsafe_reply sample_flow_mod"
  "decodeMsg sample_flow_mod = Inr FlowMod"
  by code_simp+





definition sample_aggregate_v6 :: bytes where
  "sample_aggregate_v6 = [6, 19, 0, 16, 0, 0, 0, 1, 0, 2, 0, 0, 0, 0, 0, 0]"

definition sample_flow_stats_v3 :: bytes where
  "sample_flow_stats_v3 =
     [3, 19, 0, 72, 0, 0, 0, 1, 0, 1, 0, 0, 0, 0, 0, 0] @ [0, 56] @ replicate 46 0 @ [0, 0, 0, 88, 0, 0, 0, 0]"


definition sample_port_stats :: bytes where
  "sample_port_stats =
     [4, 19, 0, 104, 0, 0, 0, 1, 0, 4, 0, 0, 0, 0, 0, 0] @ ([0, 80] @ replicate 78 0) @ [0, 8, 0, 0, 0, 0, 0, 0]"

definition sample_flow_mod_v3 :: bytes where
  "sample_flow_mod_v3 = [3, 14, 0, 56, 0, 0, 0, 1] @ replicate 40 0 @ [0, 0, 0, 88, 0, 0, 0, 0]"


end
