(* ===== verification/NormalizeActions.thy ===== *)
theory NormalizeActions
  imports Legacy Header MessageSafety
begin

text \<open>
  Normalization of received messages (\<^verbatim>\<open>include/ofp/normalize.h\<close>, \<^verbatim>\<open>src/ofp/normalize.cpp\<close>): a message of
  an older protocol version is rewritten in place into the layout of the newer ones before it is
  cast to its class. The buffer is the byte list that \<open>ByteList\<close> was shown to implement; a copy
  into or out of it is checked against its size. The bytes of an uninitialized insertion are the
  argument \<open>junk\<close>, and \<open>little\<close> is the byte order of the host.
\<close>

declare add_2_eq_Suc [simp del] add_2_eq_Suc' [simp del] elem_params [simp del]

section \<open>The buffer\<close>

definition buf_get :: "nat \<Rightarrow> nat \<Rightarrow> bytes \<Rightarrow> fault + bytes" where
  "buf_get p n buf = (if p + n \<le> length buf then Inr (sub_bytes p n buf) else Inl (OutOfBounds p n))"

definition buf_put :: "nat \<Rightarrow> bytes \<Rightarrow> bytes \<Rightarrow> fault + bytes" where
  "buf_put p xs buf =
     (if p + length xs \<le> length buf then Inr (overwrite p xs buf) else Inl (OutOfBounds p (length xs)))"

definition buf_copy :: "nat \<Rightarrow> nat \<Rightarrow> nat \<Rightarrow> bytes \<Rightarrow> fault + bytes" where
  "buf_copy dst src n buf = bindE (buf_get src n buf) (\<lambda>xs. buf_put dst xs buf)"

definition buf_insert :: "nat \<Rightarrow> bytes \<Rightarrow> bytes \<Rightarrow> fault + bytes" where
  "buf_insert p xs buf = (if p \<le> length buf then Inr (insert_at p xs buf) else Inl (OutOfBounds p 0))"

definition buf_remove :: "nat \<Rightarrow> nat \<Rightarrow> bytes \<Rightarrow> fault + bytes" where
  "buf_remove p n buf = (if p + n \<le> length buf then Inr (remove_at p n buf) else Inl (OutOfBounds p n))"

definition uninit :: "(nat \<Rightarrow> byte) \<Rightarrow> nat \<Rightarrow> bytes" where
  "uninit junk n = map junk [0..<n]"

definition zeros :: "nat \<Rightarrow> bytes" where
  "zeros n = replicate n 0"

definition markInputTooBig :: "bytes \<Rightarrow> bytes" where
  "markInputTooBig buf = setVersion (kTooBigErrorFlag OR Header_version buf) buf"

definition markInputInvalid :: "bytes \<Rightarrow> bytes" where
  "markInputInvalid buf = setVersion (kInvalidErrorFlag OR Header_version buf) buf"

text \<open>A range is checked with the context of no message; its errors are not reported.\<close>

definition null_context :: Validation where
  "null_context = \<lparr>v_version = 0, v_length = 0, v_lengthRemaining = 0\<rparr>"

definition validated :: "fault + 'a \<Rightarrow> fault + 'b \<Rightarrow> fault + 'b \<Rightarrow> fault + 'b" where
  "validated r invalid valid =
     (case r of Inr _ \<Rightarrow> valid | Inl (Invalid _) \<Rightarrow> invalid | Inl f \<Rightarrow> Inl f)"

definition original_match :: "nat \<Rightarrow> bytes \<Rightarrow> fault + StandardMatch" where
  "original_match p buf =
     (if p + 40 \<le> length buf then Inr (StandardMatch_fromOriginal (OriginalMatch_at p buf))
      else Inl (OutOfBounds p 40))"

section \<open>Actions\<close>

definition normPortNumberV1 :: "nat \<Rightarrow> bytes \<Rightarrow> fault + u32" where
  "normPortNumberV1 p buf =
     bindE (get16 p buf) (\<lambda>port16.
     let port32 = ucast port16 in Inr (if port32 > 0xFF00 then port32 OR 0xFFFF0000 else port32))"

text \<open>The match fields that set-field actions of version 1 and 2 become (\<^verbatim>\<open>oxm/oxmfields.tab\<close>): class,
field number and size; the value type is an integer (\<^verbatim>\<open>Big8\<close>, \<^verbatim>\<open>Big16\<close>) or a structure.\<close>

record oxm_value =
  ov_type :: OXMType
  ov_size :: nat
  ov_integer :: bool

definition OFB :: "byte \<Rightarrow> u16 \<Rightarrow> bool \<Rightarrow> oxm_value" where
  "OFB field n integer =
     \<lparr>ov_type = OXMType_make 0x8000 field n False, ov_size = unat n, ov_integer = integer\<rparr>"

definition OFB_VLAN_VID :: oxm_value where "OFB_VLAN_VID = OFB 6 2 False"
definition OFB_VLAN_PCP :: oxm_value where "OFB_VLAN_PCP = OFB 7 1 True"
definition OFB_ETH_SRC :: oxm_value where "OFB_ETH_SRC = OFB 4 6 False"
definition OFB_ETH_DST :: oxm_value where "OFB_ETH_DST = OFB 3 6 False"
definition OFB_IPV4_SRC :: oxm_value where "OFB_IPV4_SRC = OFB 11 4 False"
definition OFB_IPV4_DST :: oxm_value where "OFB_IPV4_DST = OFB 12 4 False"
definition OFB_IP_DSCP :: oxm_value where "OFB_IP_DSCP = OFB 8 1 True"
definition OFB_IP_ECN :: oxm_value where "OFB_IP_ECN = OFB 9 1 True"
definition OFB_TCP_SRC :: oxm_value where "OFB_TCP_SRC = OFB 13 2 True"
definition OFB_TCP_DST :: oxm_value where "OFB_TCP_DST = OFB 14 2 True"
definition OFB_UDP_SRC :: oxm_value where "OFB_UDP_SRC = OFB 15 2 True"
definition OFB_UDP_DST :: oxm_value where "OFB_UDP_DST = OFB 16 2 True"
definition OFB_ICMPV4_TYPE :: oxm_value where "OFB_ICMPV4_TYPE = OFB 19 1 True"
definition OFB_ICMPV4_CODE :: oxm_value where "OFB_ICMPV4_CODE = OFB 20 1 True"

text \<open>The bytes of \<^verbatim>\<open>Type{value}\<close> where \<^verbatim>\<open>value\<close> is a \<^verbatim>\<open>Type::NativeType\<close> whose memory was copied from
the message: for a 16 bit integer type the native value is converted to big endian again.\<close>

definition native_value_bytes :: "bool \<Rightarrow> oxm_value \<Rightarrow> bytes \<Rightarrow> bytes" where
  "native_value_bytes little v bs =
     (if ov_integer v \<and> ov_size v = 2
      then host_bytes little 2 (raw_n (Big_make little SwapTwoBytes (host_value little bs :: u16) False))
      else bs)"

definition OXMList_one :: "OXMType \<Rightarrow> bytes \<Rightarrow> bytes" where
  "OXMList_one t value = be32 t @ value"

definition pad8 :: "nat \<Rightarrow> bytes \<Rightarrow> bytes" where
  "pad8 n xs = xs @ zeros (PadLength (n + length xs) - (n + length xs))"

definition set_field_list :: "bool \<Rightarrow> oxm_value \<Rightarrow> bytes \<Rightarrow> bytes" where
  "set_field_list little v bs = pad8 4 (OXMList_one (ov_type v) (native_value_bytes little v bs))"

text \<open>\<open>ActionRange{{begin, end}}\<close> and its two iterators assert order and alignment.\<close>

definition action_range :: "nat \<Rightarrow> int \<Rightarrow> fault + nat" where
  "action_range iter e =
     (if int iter \<le> e \<and> iter mod 8 = 0 \<and> e mod 8 = 0 then Inr (nat e) else Inl AssertFailed)"

text \<open>The size of the value of an action whose length field is \<open>len\<close>, as a 64 bit \<^verbatim>\<open>size_t\<close>.\<close>

definition value_size :: "u16 \<Rightarrow> nat" where
  "value_size len = (unat len + 2 ^ 64 - 4) mod 2 ^ 64"

definition normSetField ::
  "bool \<Rightarrow> (nat \<Rightarrow> byte) \<Rightarrow> oxm_value \<Rightarrow> nat \<Rightarrow> nat \<Rightarrow> bytes \<Rightarrow> fault + (int \<times> nat \<times> bytes)" where
  "normSetField little junk v iter iterEnd buf =
     bindE (get16 (iter + 2) buf) (\<lambda>size.
     if unat size mod 8 \<noteq> 0 then Inr (0, iterEnd, buf)
     else
       let valueLen = value_size size in
       if valueLen \<ge> ov_size v then
         bindE (buf_get (iter + 4) (ov_size v) buf) (\<lambda>bs.
         let list = set_field_list little v bs;
             lengthChange = int (length list) - int valueLen in
         bindE (if lengthChange > 0 then buf_insert (iter + 4) (uninit junk (nat lengthChange)) buf
                else if lengthChange < 0 then buf_remove iter (nat (- lengthChange)) buf
                else Inr buf) (\<lambda>buf.
         bindE (action_range iter (int iterEnd + lengthChange)) (\<lambda>iterEnd.
         bindE (buf_put iter (be16 OFPAT_SET_FIELD @ be16 (of_nat (4 + length list))) buf) (\<lambda>buf.
         bindE (buf_put (iter + 4) list buf) (\<lambda>buf.
         Inr (lengthChange, iterEnd, buf))))))
       else Inr (0, iterEnd, buf))"

definition normOutput :: "(nat \<Rightarrow> byte) \<Rightarrow> nat \<Rightarrow> nat \<Rightarrow> bytes \<Rightarrow> fault + (int \<times> nat \<times> bytes)" where
  "normOutput junk iter iterEnd buf =
     bindE (get32 iter buf) (\<lambda>type.
     if type \<noteq> 8 then Inr (0, iterEnd, buf)
     else
       bindE (normPortNumberV1 (iter + 4) buf) (\<lambda>port.
       bindE (get16 (iter + 6) buf) (\<lambda>maxlen.
       bindE (buf_insert (iter + 4) (uninit junk 8) buf) (\<lambda>buf.
       bindE (action_range iter (int iterEnd + 8)) (\<lambda>iterEnd.
       bindE (buf_put iter (be16 0 @ be16 16 @ be32 port @ be16 maxlen @ zeros 6) buf) (\<lambda>buf.
       Inr (8, iterEnd, buf)))))))"

definition PROTOCOL_ICMP :: byte where "PROTOCOL_ICMP = 1"
definition PROTOCOL_TCP :: byte where "PROTOCOL_TCP = 6"
definition PROTOCOL_UDP :: byte where "PROTOCOL_UDP = 17"
definition OFPAT_STRIP_VLAN_V1 :: u16 where "OFPAT_STRIP_VLAN_V1 = 0x7FF1"
definition OFPAT_ENQUEUE_V1 :: u16 where "OFPAT_ENQUEUE_V1 = 0x7FF2"

definition normActionV1orV2 ::
  "bool \<Rightarrow> (nat \<Rightarrow> byte) \<Rightarrow> u16 \<Rightarrow> nat \<Rightarrow> nat \<Rightarrow> byte \<Rightarrow> bytes \<Rightarrow> fault + (int \<times> nat \<times> bytes)" where
  "normActionV1orV2 little junk type iter iterEnd ipProto buf =
     bindE (get8 0 buf) (\<lambda>version.
     let type =
       (if version = 1 then
          (if type = 3 then OFPAT_STRIP_VLAN_V1
           else if type = 11 then OFPAT_ENQUEUE_V1
           else if type \<ge> 4 \<and> type \<le> 8 then type - 1
           else type)
        else type);
       set = (\<lambda>v. normSetField little junk v iter iterEnd buf) in
     if type = 0 then normOutput junk iter iterEnd buf
     else if type = 1 then set OFB_VLAN_VID
     else if type = 2 then set OFB_VLAN_PCP
     else if type = 3 then set OFB_ETH_SRC
     else if type = 4 then set OFB_ETH_DST
     else if type = 5 then set OFB_IPV4_SRC
     else if type = 6 then set OFB_IPV4_DST
     else if type = 7 then set OFB_IP_DSCP
     else if type = 8 then set OFB_IP_ECN
     else if type = 9 then
       (if ipProto = PROTOCOL_TCP then set OFB_TCP_SRC
        else if ipProto = PROTOCOL_UDP then set OFB_UDP_SRC
        else if ipProto = PROTOCOL_ICMP then set OFB_ICMPV4_TYPE
        else Inr (0, iterEnd, buf))
     else if type = 10 then
       (if ipProto = PROTOCOL_TCP then set OFB_TCP_DST
        else if ipProto = PROTOCOL_UDP then set OFB_UDP_DST
        else if ipProto = PROTOCOL_ICMP then set OFB_ICMPV4_CODE
        else Inr (0, iterEnd, buf))
     else Inr (0, iterEnd, buf))"

text \<open>The switch selects a field.\<close>

definition version_type :: "byte \<Rightarrow> u16 \<Rightarrow> u16" where
  "version_type version type =
     (if version = 1 then
        (if type = 3 then OFPAT_STRIP_VLAN_V1
         else if type = 11 then OFPAT_ENQUEUE_V1
         else if type \<ge> 4 \<and> type \<le> 8 then type - 1
         else type)
      else type)"

definition port_field :: "byte \<Rightarrow> 'a \<Rightarrow> 'a \<Rightarrow> 'a \<Rightarrow> 'a option" where
  "port_field ipProto tcp udp icmp =
     (if ipProto = PROTOCOL_TCP then Some tcp else if ipProto = PROTOCOL_UDP then Some udp
      else if ipProto = PROTOCOL_ICMP then Some icmp else None)"

definition action_field :: "byte \<Rightarrow> u16 \<Rightarrow> oxm_value option" where
  "action_field ipProto type =
     (if type = 1 then Some OFB_VLAN_VID
      else if type = 2 then Some OFB_VLAN_PCP
      else if type = 3 then Some OFB_ETH_SRC
      else if type = 4 then Some OFB_ETH_DST
      else if type = 5 then Some OFB_IPV4_SRC
      else if type = 6 then Some OFB_IPV4_DST
      else if type = 7 then Some OFB_IP_DSCP
      else if type = 8 then Some OFB_IP_ECN
      else if type = 9 then port_field ipProto OFB_TCP_SRC OFB_UDP_SRC OFB_ICMPV4_TYPE
      else if type = 10 then port_field ipProto OFB_TCP_DST OFB_UDP_DST OFB_ICMPV4_CODE
      else None)"

lemma normActionV1orV2_select:
  "normActionV1orV2 little junk type iter iterEnd ipProto buf =
     bindE (get8 0 buf) (\<lambda>version.
     if version_type version type = 0 then normOutput junk iter iterEnd buf
     else case action_field ipProto (version_type version type) of
       None \<Rightarrow> Inr (0, iterEnd, buf) | Some v \<Rightarrow> normSetField little junk v iter iterEnd buf)"
proof -
  have "normActionV1orV2 little junk type iter iterEnd ipProto buf =
      bindE (get8 0 buf) (\<lambda>version. let type = version_type version type in
        if type = 0 then normOutput junk iter iterEnd buf
        else case action_field ipProto type of
          None \<Rightarrow> Inr (0, iterEnd, buf) | Some v \<Rightarrow> normSetField little junk v iter iterEnd buf)"
    unfolding normActionV1orV2_def version_type_def [symmetric]
    by (intro arg_cong [where f = "bindE _"] ext) (simp add: Let_def action_field_def port_field_def)
  then show ?thesis by (simp add: Let_def)
qed

lemma OFB_simps [simp]:
  "ov_size (OFB f n i) = unat n" "ov_integer (OFB f n i) = i" "ov_type (OFB f n i) = OXMType_make 0x8000 f n False"
  by (simp_all add: OFB_def)

lemmas OFB_fields = OFB_VLAN_VID_def OFB_VLAN_PCP_def OFB_ETH_SRC_def OFB_ETH_DST_def OFB_IPV4_SRC_def
  OFB_IPV4_DST_def OFB_IP_DSCP_def OFB_IP_ECN_def OFB_TCP_SRC_def OFB_TCP_DST_def OFB_UDP_SRC_def
  OFB_UDP_DST_def OFB_ICMPV4_TYPE_def OFB_ICMPV4_CODE_def

lemma action_field_size: "action_field ipProto type = Some v \<Longrightarrow> ov_size v \<le> 16"
  by (auto simp: action_field_def port_field_def OFB_fields split: if_split_asm)

text \<open>Both rewritings leave an action whose length is that of the new action, so the iterator comes
closer to the end.\<close>

lemma bindE_eq_Inr: "bindE m f = Inr x \<longleftrightarrow> (\<exists>y. m = Inr y \<and> f y = Inr x)"
  by (cases m) simp_all

lemma iter_jump_Inr:
  "iter_jump 4 2 8 buf p = Inr n \<longleftrightarrow> p + 4 \<le> length buf \<and> n = PadLength (max 4 (unat (rd16 (p + 2) buf)))"
  by (auto simp: iter_jump_def ProtocolElement_size_def get16_def PROTOCOL_ITERATOR_SIZE_FIXED_def
      PROTOCOL_ITERATOR_SIZE_CONDITIONAL_def)

lemma iter_jump_pos: "iter_jump 4 2 8 buf p = Inr n \<Longrightarrow> 0 < n"
  by (simp add: iter_jump_Inr)

lemma length_zeros [simp]: "length (zeros n) = n"
  by (simp add: zeros_def)

lemma length_uninit [simp]: "length (uninit junk n) = n"
  by (simp add: uninit_def)

lemma length_native_value_bytes [simp]:
  "length bs = ov_size v \<Longrightarrow> length (native_value_bytes little v bs) = ov_size v"
  by (simp add: native_value_bytes_def host_bytes_def)

lemma length_pad8: "length (pad8 4 xs) + 4 = PadLength (4 + length xs)"
  using PadLength_ge [of "4 + length xs"] by (simp add: pad8_def)

lemma buf_put_rd16:
  assumes "buf_put p (be16 a @ be16 b @ xs) buf = Inr buf'" and "p + 4 + length xs \<le> q"
    and "buf_put q ys buf' = Inr buf''"
  shows "rd16 (p + 2) buf'' = b"
  using assms by (auto simp: buf_put_def rd16_def sub_bytes_overwrite split: if_splits)
    (simp add: sub_bytes_def overwrite_def)

lemma normOutput_step:
  assumes "normOutput junk iter e buf = Inr (d, e', buf')" and "iter < e" and "iter_jump 4 2 8 buf' iter = Inr n"
  shows "e' - (iter + n) < e - iter"
proof (cases "d = 8")
  case True
  then have e': "e' = e + 8" and put: "\<exists>port maxlen b. buf_put iter (be16 0 @ be16 16 @ be32 port @ be16 maxlen @ zeros 6) b = Inr buf'"
    using assms(1) by (auto simp: normOutput_def bindE_eq_Inr action_range_def split: if_splits)
  then obtain xs b where p: "buf_put iter (be16 0 @ be16 16 @ xs) b = Inr buf'" by auto
  then have "rd16 (iter + 2) buf' = 16"
    by (auto simp: buf_put_def rd16_def sub_bytes_def overwrite_def split: if_splits)
  with assms e' show ?thesis by (simp add: iter_jump_Inr PadLength_def)
next
  case False
  then have "e' = e" using assms(1) by (auto simp: normOutput_def bindE_eq_Inr split: if_splits)
  with assms iter_jump_pos [OF assms(3)] show ?thesis by simp
qed

lemma buf_put_rd16_kept:
  assumes "buf_put q ys buf = Inr buf'" and "p + 2 \<le> q"
  shows "rd16 p buf' = rd16 p buf"
  using assms by (auto simp: buf_put_def rd16_def sub_bytes_overwrite_before split: if_splits)

lemma buf_put_header:
  assumes "buf_put p (be16 a @ be16 b) buf = Inr buf'"
  shows "rd16 (p + 2) buf' = b"
  using assms by (auto simp: buf_put_def rd16_def sub_bytes_def overwrite_def split: if_splits)

lemma length_set_field_list: "length bs = ov_size v \<Longrightarrow> 4 + length (set_field_list little v bs) = PadLength (8 + ov_size v)"
  using length_pad8 [of "OXMList_one (ov_type v) (native_value_bytes little v bs)"]
  by (simp add: set_field_list_def OXMList_one_def)

lemma normSetField_cases:
  assumes "normSetField little junk v iter e buf = Inr (d, e', buf')" and "\<not> (e' = e \<and> buf' = buf)"
  obtains b1 b2 where
    "iter + 4 + ov_size v \<le> length buf"
    "int e' = int e + (int (length (set_field_list little v (sub_bytes (iter + 4) (ov_size v) buf))) - int (value_size (rd16 (iter + 2) buf)))"
    "buf_put iter (be16 OFPAT_SET_FIELD @
       be16 (of_nat (4 + length (set_field_list little v (sub_bytes (iter + 4) (ov_size v) buf))))) b1 = Inr b2"
    "buf_put (iter + 4) (set_field_list little v (sub_bytes (iter + 4) (ov_size v) buf)) b2 = Inr buf'"
  using assms by (auto simp: normSetField_def bindE_eq_Inr Let_def get16_def buf_get_def action_range_def split: if_splits)

lemma normSetField_step:
  assumes f: "normSetField little junk v iter e buf = Inr (d, e', buf')" and "iter < e" and v: "ov_size v \<le> 16"
    and j: "iter_jump 4 2 8 buf' iter = Inr n"
  shows "e' - (iter + n) < e - iter"
proof (cases "e' = e \<and> buf' = buf")
  case True
  with assms(2) iter_jump_pos [OF j] show ?thesis by simp
next
  case False
  let ?list = "set_field_list little v (sub_bytes (iter + 4) (ov_size v) buf)"
  from normSetField_cases [OF f False] obtain b1 b2 where room: "iter + 4 + ov_size v \<le> length buf"
    and d: "int e' = int e + (int (length ?list) - int (value_size (rd16 (iter + 2) buf)))"
    and h: "buf_put iter (be16 OFPAT_SET_FIELD @ be16 (of_nat (4 + length ?list))) b1 = Inr b2"
    and w: "buf_put (iter + 4) ?list b2 = Inr buf'" by metis
  have len: "4 + length ?list = PadLength (8 + ov_size v)" using room by (intro length_set_field_list) simp
  have small: "PadLength (8 + ov_size v) < 65536" using v PadLength_less [of "8 + ov_size v"] by simp
  have "rd16 (iter + 2) buf' = of_nat (4 + length ?list)"
    using buf_put_header [OF h] buf_put_rd16_kept [OF w, of "iter + 2"] by simp
  then have "unat (rd16 (iter + 2) buf') = 4 + length ?list"
    using small len by (simp add: unat_of_nat del: of_nat_add)
  then have "n = 4 + length ?list"
    using j len PadLength_ge [of "8 + ov_size v"] by (simp add: iter_jump_Inr)
  with d assms(2) show ?thesis by linarith
qed

lemma normAction_step:
  assumes "normActionV1orV2 little junk type iter e ipProto buf = Inr (d, e', buf')" and "iter < e"
    and "iter_jump 4 2 8 buf' iter = Inr n"
  shows "e' - (iter + n) < e - iter"
proof -
  consider "e' = e \<and> buf' = buf" | "normOutput junk iter e buf = Inr (d, e', buf')"
    | v where "normSetField little junk v iter e buf = Inr (d, e', buf')" "ov_size v \<le> 16"
    using assms(1) unfolding normActionV1orV2_select
    by (cases "version_type (rd8 0 buf) type = 0"; cases "action_field ipProto (version_type (rd8 0 buf) type)")
      (auto simp: get8_def bindE_eq_Inr dest: action_field_size split: if_split_asm)
  then show ?thesis
    using assms iter_jump_pos [OF assms(3)] normOutput_step normSetField_step by cases auto
qed

function normActionsV1orV2_loop ::
  "bool \<Rightarrow> (nat \<Rightarrow> byte) \<Rightarrow> nat \<Rightarrow> nat \<Rightarrow> byte \<Rightarrow> int \<Rightarrow> bytes \<Rightarrow> fault + (int \<times> bytes)" where
  "normActionsV1orV2_loop little junk iter iterEnd ipProto lengthChange buf =
     (if iter < iterEnd then
        bindE (assertE (iter mod 8 = 0)) (\<lambda>_.
        bindE (get32 iter buf) (\<lambda>actType.
        let type = ucast (drop_bit 16 actType) :: u16 in
        bindE (if type \<le> 11 \<or> type = 13 \<or> type = 14
               then normActionV1orV2 little junk type iter iterEnd ipProto buf
               else Inr (0, iterEnd, buf)) (\<lambda>r.
        case r of (d, iterEnd', buf') \<Rightarrow>
          bindE (iter_jump 4 2 8 buf' iter) (\<lambda>n.
          normActionsV1orV2_loop little junk (iter + n) iterEnd' ipProto (lengthChange + d) buf'))))
      else Inr (lengthChange, buf))"
  by pat_completeness auto
termination
proof (relation "measure (\<lambda>(_, _, iter, iterEnd, _). iterEnd - iter)", goal_cases)
  case 1
  show ?case by simp
next
  case (2 little junk iter iterEnd ipProto lengthChange buf x xa xb xc xd y z zz zzz)
  then show ?case
    using normAction_step iter_jump_pos [of zz iter zzz] by (auto simp: Let_def split: if_splits)
qed

declare normActionsV1orV2_loop.simps [simp del]

definition normActionsV1orV2 ::
  "bool \<Rightarrow> (nat \<Rightarrow> byte) \<Rightarrow> ByteRange \<Rightarrow> byte \<Rightarrow> bytes \<Rightarrow> fault + (int \<times> bytes)" where
  "normActionsV1orV2 little junk actions ipProto buf =
     normActionsV1orV2_loop little junk (fst actions) (fst actions + snd actions) ipProto 0 buf"

section \<open>In-place rewriting is a map over the actions\<close>

text \<open>An action list as the element check accepts it: every action says its length, which is at
least 4, and is padded to a multiple of 8 bytes.\<close>

function action_list :: "bytes \<Rightarrow> bytes list option" where
  "action_list xs =
     (if xs = [] then Some []
      else if length xs < 4 then None
      else let n = unat (rd16 2 xs); k = PadLength n in
        if n < 4 \<or> k > length xs then None
        else map_option (Cons (take k xs)) (action_list (drop k xs)))"
  by pat_completeness auto
termination
  by (relation "measure length") (auto simp: Let_def intro: less_le_trans [OF _ PadLength_ge])

declare action_list.simps [simp del]

definition action_wf :: "bytes \<Rightarrow> bool" where
  "action_wf a \<longleftrightarrow> 4 \<le> unat (rd16 2 a) \<and> length a = PadLength (unat (rd16 2 a))"

text \<open>What a version 1 or 2 action becomes: an output action gets a 32 bit port, an action that sets
a header field becomes a set-field action, every other action stays.\<close>

definition norm_output :: "bytes \<Rightarrow> bytes" where
  "norm_output a =
     (let port = ucast (rd16 4 a) :: u32 in
      be16 0 @ be16 16 @ be32 (if port > 0xFF00 then port OR 0xFFFF0000 else port) @ be16 (rd16 6 a) @ zeros 6)"

definition norm_set_field :: "bool \<Rightarrow> oxm_value \<Rightarrow> bytes \<Rightarrow> bytes" where
  "norm_set_field little v a =
     (let n = unat (rd16 2 a); list = set_field_list little v (sub_bytes 4 (ov_size v) a) in
      if n mod 8 = 0 \<and> 4 + ov_size v \<le> n then be16 OFPAT_SET_FIELD @ be16 (of_nat (4 + length list)) @ list
      else a)"

definition norm_action :: "bool \<Rightarrow> byte \<Rightarrow> byte \<Rightarrow> bytes \<Rightarrow> bytes" where
  "norm_action little version ipProto a =
     (let type = rd16 0 a in
      if type \<le> 11 \<or> type = 13 \<or> type = 14 then
        (if version_type version type = 0 then if rd32 0 a = 8 then norm_output a else a
         else case action_field ipProto (version_type version type) of
           None \<Rightarrow> a | Some v \<Rightarrow> norm_set_field little v a)
      else a)"

lemma overwrite_middle: "length xs = length ys \<Longrightarrow> overwrite (length A) xs (A @ ys @ R) = A @ xs @ R"
  by (simp add: overwrite_def)

lemma buf_put_middle:
  "p = length A \<Longrightarrow> length xs = length ys \<Longrightarrow> buf_put p xs (A @ ys @ R) = Inr (A @ xs @ R)"
  by (simp add: buf_put_def overwrite_middle)

lemma sub_bytes_middle:
  "k + n \<le> length a \<Longrightarrow> sub_bytes (length A + k) n (A @ a @ R) = sub_bytes k n a"
  by (simp add: sub_bytes_def)

lemma rd_middle:
  "k + 2 \<le> length a \<Longrightarrow> rd16 (length A + k) (A @ a @ R) = rd16 k a"
  "k + 4 \<le> length a \<Longrightarrow> rd32 (length A + k) (A @ a @ R) = rd32 k a"
  by (simp_all add: rd_defs sub_bytes_middle)

lemma get_middle:
  "k + 2 \<le> length a \<Longrightarrow> get16 (length A + k) (A @ a @ R) = Inr (rd16 k a)"
  "k + 4 \<le> length a \<Longrightarrow> get32 (length A + k) (A @ a @ R) = Inr (rd32 k a)"
  by (simp_all add: get16_def get32_def rd_middle)

lemma action_wf_length:
  assumes "action_wf a"
  shows "8 \<le> length a" and "length a mod 8 = 0"
  using assms PadLength_ge [of "unat (rd16 2 a)"] by (auto simp: action_wf_def PadLength_def)

lemma value_size_wf: "4 \<le> unat n \<Longrightarrow> value_size n = unat n - 4"
proof -
  assume n: "4 \<le> unat n"
  then have "value_size n = (unat n - 4 + 2 ^ 64) mod 2 ^ 64" by (simp add: value_size_def)
  also have "\<dots> = (unat n - 4) mod 2 ^ 64" by (rule mod_add_self2)
  also have "\<dots> = unat n - 4" using unsigned_less [of n, where ?'a = nat] by (intro mod_less) simp
  finally show ?thesis .
qed

lemma insert_middle:
  "k \<le> length a \<Longrightarrow> buf_insert (length A + k) xs (A @ a @ R) = Inr (A @ (take k a @ xs @ drop k a) @ R)"
  by (simp add: buf_insert_def insert_at_def)

lemma remove_middle:
  "n \<le> length a \<Longrightarrow> buf_remove (length A) n (A @ a @ R) = Inr (A @ drop n a @ R)"
  by (simp add: buf_remove_def remove_at_def)

lemma write_action:
  assumes "length a = 4 + length list" and "length h = 4"
  shows "bindE (buf_put (length A) h (A @ a @ R)) (buf_put (length A + 4) list) = Inr (A @ (h @ list) @ R)"
proof -
  have "buf_put (length A) h (A @ take 4 a @ drop 4 a @ R) = Inr (A @ h @ drop 4 a @ R)"
    using assms by (intro buf_put_middle) simp_all
  then have "buf_put (length A) h (A @ a @ R) = Inr (A @ h @ drop 4 a @ R)"
    by (simp flip: append_assoc [of "take 4 a" "drop 4 a" R])
  moreover have "buf_put (length A + 4) list ((A @ h) @ drop 4 a @ R) = Inr ((A @ h) @ list @ R)"
    using assms by (intro buf_put_middle) simp_all
  ultimately show ?thesis by simp
qed

lemma action_range_nat: "iter \<le> k \<Longrightarrow> iter mod 8 = 0 \<Longrightarrow> k mod 8 = 0 \<Longrightarrow> action_range iter (int k) = Inr k"
proof -
  assume "iter \<le> k" "iter mod 8 = 0" "k mod 8 = 0"
  moreover have "int k mod 8 = int (k mod 8)" by (simp add: zmod_int)
  ultimately show ?thesis by (simp add: action_range_def)
qed

lemma set_field_list_mod: "length bs = ov_size v \<Longrightarrow> (4 + length (set_field_list little v bs)) mod 8 = 0"
  using length_set_field_list [of bs v little] by (simp add: PadLength_def)

lemma normSetField_middle:
  assumes a: "action_wf a" and A: "iter = length A" "iter mod 8 = 0" and e: "e mod 8 = 0" "iter + length a \<le> e"
  shows "normSetField little junk v iter e (A @ a @ R) =
    Inr (int (length (norm_set_field little v a)) - int (length a), e - length a + length (norm_set_field little v a),
      A @ norm_set_field little v a @ R)"
proof (cases "unat (rd16 2 a) mod 8 = 0 \<and> 4 + ov_size v \<le> unat (rd16 2 a)")
  case False
  have "4 \<le> unat (rd16 2 a)" using a by (simp add: action_wf_def)
  with False A e action_wf_length [OF a] show ?thesis
    by (auto simp: normSetField_def get_middle value_size_wf norm_set_field_def Let_def)
next
  case True
  define n where "n = unat (rd16 2 a)"
  define list where "list = set_field_list little v (sub_bytes 4 (ov_size v) a)"
  have n: "length a = n" "4 \<le> n" using a True by (auto simp: action_wf_def n_def PadLength_def)
  have len: "(4 + length list) mod 8 = 0"
    unfolding list_def using True n by (intro set_field_list_mod) (auto simp: n_def min_def)
  have new: "norm_set_field little v a = be16 OFPAT_SET_FIELD @ be16 (of_nat (4 + length list)) @ list"
    using True by (simp add: norm_set_field_def Let_def list_def)
  define h where "h = be16 OFPAT_SET_FIELD @ be16 (of_nat (4 + length list) :: u16)"
  define d where "d = int (length list) - int (n - 4)"
  define b where "b = (if d > 0 then take 4 a @ uninit junk (nat d) @ drop 4 a else if d < 0 then drop (nat (- d)) a else a)"
  have b: "length b = 4 + length list" using n by (auto simp: b_def d_def)
  have move: "(if d > 0 then buf_insert (iter + 4) (uninit junk (nat d)) (A @ a @ R)
      else if d < 0 then buf_remove iter (nat (- d)) (A @ a @ R) else Inr (A @ a @ R)) = Inr (A @ b @ R)"
    using n A by (auto simp: b_def d_def insert_middle remove_middle)
  have nd: "int e + d = int (e - n + (4 + length list))" using n e(2) by (simp add: d_def)
  have "(e - n) mod 8 = 0" using e n True by (intro mod_sub_multiple) (simp_all add: n_def)
  then have "(e - n + (4 + length list)) mod 8 = 0" using len by (rule mod_add_multiple)
  then have rng: "action_range iter (int e + d) = Inr (e - n + (4 + length list))"
    unfolding nd using A e n by (intro action_range_nat) simp_all
  have g: "get16 (iter + 2) (A @ a @ R) = Inr (rd16 2 a)" using n A by (simp add: get_middle)
  have vs: "value_size (rd16 2 a) = n - 4" using n by (simp add: value_size_wf n_def)
  have bg: "buf_get (iter + 4) (ov_size v) (A @ a @ R) = Inr (sub_bytes 4 (ov_size v) a)"
    using n A True by (auto simp: buf_get_def sub_bytes_middle n_def)
  have c: "unat (rd16 2 a) mod 8 = 0" "(n - 4 \<ge> ov_size v) = True" using True n by (auto simp: n_def)
  have "normSetField little junk v iter e (A @ a @ R) =
      bindE (bindE (buf_put iter h (A @ b @ R)) (buf_put (iter + 4) list))
        (\<lambda>buf. Inr (d, e - n + (4 + length list), buf))"
    unfolding normSetField_def g bindE_simps Let_def vs bg list_def [symmetric] d_def [symmetric] h_def [symmetric] c
    by (simp only: move rng bindE_simps bindE_assoc simp_thms if_True if_False)
  also have "\<dots> = Inr (d, e - n + (4 + length list), A @ (h @ list) @ R)"
    using write_action [OF b, of h A R] A(1) by (simp add: h_def)
  finally show ?thesis using n by (simp add: new h_def d_def)
qed

lemma unat_rd32:
  assumes "p + 4 \<le> length xs"
  shows "unat (rd32 p xs) = unat (rd16 p xs) * 65536 + unat (rd16 (p + 2) xs)"
proof -
  have len: "length (sub_bytes p 2 xs) = 2" "length (sub_bytes (p + 2) 2 xs) = 2" "length (sub_bytes p 4 xs) = 4"
    using assms by simp_all
  have "sub_bytes p 4 xs = sub_bytes p 2 xs @ sub_bytes (p + 2) 2 xs"
    using take_add [of 2 2 "drop p xs"] by (simp add: sub_bytes_def add.commute)
  then have "be_nat (sub_bytes p 4 xs) = be_nat (sub_bytes p 2 xs) * 65536 + be_nat (sub_bytes (p + 2) 2 xs)"
    using len by (simp add: be_nat_append)
  moreover have "unat (rd32 p xs) = be_nat (sub_bytes p 4 xs)"
    unfolding rd32_def by (rule unat_word_of_be_nat [OF _ len(3)]) simp
  moreover have "unat (rd16 p xs) = be_nat (sub_bytes p 2 xs)" "unat (rd16 (p + 2) xs) = be_nat (sub_bytes (p + 2) 2 xs)"
    unfolding rd16_def by (rule unat_word_of_be_nat [OF _ len(1)] unat_word_of_be_nat [OF _ len(2)], simp)+
  ultimately show ?thesis by simp
qed

lemma action_type_field:
  assumes "p + 4 \<le> length xs"
  shows "ucast (drop_bit 16 (rd32 p xs)) = rd16 p xs"
proof -
  have "unat (rd16 (p + 2) xs) < 65536" using unsigned_less [of "rd16 (p + 2) xs", where ?'a = nat] by simp
  then have "unat (rd32 p xs) div 65536 = unat (rd16 p xs)" by (simp add: unat_rd32 [OF assms])
  then have "unat (drop_bit 16 (rd32 p xs)) = unat (rd16 p xs)" by (simp add: drop_bit_eq_div unat_div_distrib)
  moreover have "unat (rd16 p xs) < 65536" using unsigned_less [of "rd16 p xs", where ?'a = nat] by simp
  ultimately show ?thesis by (simp add: word_unat_eq_iff unat_ucast_mod)
qed

lemma high_part_zero: "x * 65536 + y = 8 \<Longrightarrow> x = 0 \<and> y = (8 :: nat)"
  by (cases x) simp_all

lemma output_v1:
  assumes "action_wf a" and "rd32 0 a = 8"
  shows "rd16 0 a = 0" and "rd16 2 a = 8" and "length a = 8"
proof -
  have "unat (rd16 0 a) * 65536 + unat (rd16 2 a) = 8"
    using unat_rd32 [of 0 a] action_wf_length [OF assms(1)] assms(2) by simp
  then have z: "unat (rd16 0 a) = 0" "unat (rd16 2 a) = 8" using high_part_zero by blast+
  then show "rd16 0 a = 0" "rd16 2 a = 8" by (simp_all add: word_unat_eq_iff)
  show "length a = 8" using assms z by (simp add: action_wf_def PadLength_def)
qed

lemma normOutput_middle:
  assumes a: "action_wf a" and A: "iter = length A" "iter mod 8 = 0" and e: "e mod 8 = 0" "iter + length a \<le> e"
  shows "normOutput junk iter e (A @ a @ R) =
    (let a' = (if rd32 0 a = 8 then norm_output a else a) in
     Inr (int (length a') - int (length a), e - length a + length a', A @ a' @ R))"
proof (cases "rd32 0 a = 8")
  case False
  with e A action_wf_length [OF a] show ?thesis by (simp add: normOutput_def get_middle [where k = 0, simplified])
next
  case True
  note [simp] = output_v1 [OF a True]
  have "action_range iter (int e + 8) = Inr (e + 8)"
    using A e action_range_nat [of iter "e + 8"] by simp
  moreover have "e - 8 + 16 = e + 8" using e by simp
  moreover have "buf_put (length A) xs (A @ take 4 a @ uninit junk 8 @ drop 4 a @ R) = Inr (A @ xs @ R)"
    if "length xs = 16" for xs
    using that buf_put_middle [of "length A" A xs "take 4 a @ uninit junk 8 @ drop 4 a" R] by simp
  ultimately show ?thesis
    using A True
    by (simp add: normOutput_def get_middle get_middle [where k = 0, simplified] normPortNumberV1_def insert_middle
        norm_output_def Let_def)
qed

lemma action_list_append: "action_wf a \<Longrightarrow> action_list (a @ xs) = map_option (Cons a) (action_list xs)"
proof -
  assume a: "action_wf a"
  note len = action_wf_length [OF a]
  have "rd16 2 (a @ xs) = rd16 2 a" using len by (simp add: rd_prefix)
  with a len show ?thesis by (subst action_list.simps) (auto simp: action_wf_def Let_def)
qed

lemma action_list_eq: "action_list xs = Some as \<longleftrightarrow> xs = concat as \<and> (\<forall>a\<in>set as. action_wf a)"
proof
  show "action_list xs = Some as \<Longrightarrow> xs = concat as \<and> (\<forall>a\<in>set as. action_wf a)"
  proof (induction xs arbitrary: as rule: action_list.induct)
    case (1 xs)
    define k where "k = PadLength (unat (rd16 2 xs))"
    show ?case
    proof (cases "xs = []")
      case False
      with "1.prems" obtain bs where xs: "4 \<le> length xs" "4 \<le> unat (rd16 2 xs)" "k \<le> length xs"
        and bs: "action_list (drop k xs) = Some bs" and as: "as = take k xs # bs"
        by (subst (asm) action_list.simps) (auto simp: Let_def k_def split: if_splits)
      have "rd16 2 (take k xs @ drop k xs) = rd16 2 (take k xs)"
        using xs PadLength_ge [of "unat (rd16 2 xs)"] by (intro rd_prefix) (simp add: k_def)
      then have "action_wf (take k xs)" using xs by (simp add: action_wf_def k_def)
      moreover have "drop k xs = concat bs \<and> (\<forall>a\<in>set bs. action_wf a)"
        using "1.IH" [of "unat (rd16 2 xs)" k] False xs bs by (simp add: k_def)
      ultimately show ?thesis using as by (metis append_take_drop_id concat.simps(2) set_ConsD)
    qed (use "1.prems" in \<open>simp add: action_list.simps\<close>)
  qed
  show "xs = concat as \<and> (\<forall>a\<in>set as. action_wf a) \<Longrightarrow> action_list xs = Some as"
    by (induction as arbitrary: xs) (simp_all add: action_list.simps [of "[]"] action_list_append)
qed

lemma rd16_header: "rd16 2 (be16 x @ be16 y @ zs) = y"
  by (simp add: rd16_def sub_bytes_def)

lemma norm_set_field_wf: "action_wf a \<Longrightarrow> ov_size v \<le> 16 \<Longrightarrow> action_wf (norm_set_field little v a)"
proof -
  assume a: "action_wf a" and v: "ov_size v \<le> 16"
  define list where "list = set_field_list little v (sub_bytes 4 (ov_size v) a)"
  show ?thesis
  proof (cases "unat (rd16 2 a) mod 8 = 0 \<and> 4 + ov_size v \<le> unat (rd16 2 a)")
    case True
    have "4 + length list = PadLength (8 + ov_size v)"
      unfolding list_def using True a PadLength_ge [of "unat (rd16 2 a)"]
      by (intro length_set_field_list) (auto simp: action_wf_def)
    moreover have "8 \<le> PadLength (8 + ov_size v)" "PadLength (8 + ov_size v) < 65536" "PadLength (PadLength (8 + ov_size v)) = PadLength (8 + ov_size v)"
      using v PadLength_less [of "8 + ov_size v"] PadLength_ge [of "8 + ov_size v"] by (auto simp: PadLength_def)
    ultimately have "unat (of_nat (4 + length list) :: u16) = 4 + length list" "PadLength (4 + length list) = 4 + length list"
      by (simp_all add: unat_of_nat del: of_nat_add)
    moreover have "norm_set_field little v a = be16 OFPAT_SET_FIELD @ be16 (of_nat (4 + length list)) @ list"
      using True by (simp add: norm_set_field_def Let_def list_def)
    ultimately show ?thesis by (simp add: action_wf_def rd16_header del: of_nat_add)
  qed (use a in \<open>auto simp: norm_set_field_def Let_def\<close>)
qed

lemma norm_output_wf: "action_wf (norm_output a)"
  by (simp add: norm_output_def Let_def action_wf_def rd16_def sub_bytes_def PadLength_def)

lemma norm_action_wf: "action_wf a \<Longrightarrow> action_wf (norm_action little version ipProto a)"
  by (auto simp: norm_action_def Let_def norm_output_wf norm_set_field_wf split: option.split dest: action_field_size)

lemma normAction_middle:
  assumes a: "action_wf a" and A: "iter = length A" "iter mod 8 = 0" "A \<noteq> []" and e: "e mod 8 = 0" "iter + length a \<le> e"
    and type: "rd16 0 a \<le> 11 \<or> rd16 0 a = 13 \<or> rd16 0 a = 14"
  shows "normActionV1orV2 little junk (rd16 0 a) iter e ipProto (A @ a @ R) =
    (let a' = norm_action little (hd A) ipProto a in
     Inr (int (length a') - int (length a), e - length a + length a', A @ a' @ R))"
proof -
  have "get8 0 (A @ a @ R) = Inr (hd A)" using A by (cases A) (simp_all add: get8_def rd8_nth)
  with e A(2,3) type show ?thesis
    by (simp add: normActionV1orV2_select norm_action_def normOutput_middle [OF a A(1,2) e]
        normSetField_middle [OF a A(1,2) e] Let_def split: option.split)
qed

lemma iter_jump_middle: "action_wf a \<Longrightarrow> iter_jump 4 2 8 (A @ a @ R) (length A) = Inr (length a)"
  using action_wf_length [of a] by (simp add: iter_jump_Inr rd_middle action_wf_def max_def)

lemma normActions_loop_middle:
  assumes "\<forall>a\<in>set as. action_wf a" and "length A mod 8 = 0" and "A \<noteq> []"
  shows "normActionsV1orV2_loop little junk (length A) (length A + length (concat as)) ipProto lc (A @ concat as @ Z) =
    (let ys = concat (map (norm_action little (hd A) ipProto) as) in
     Inr (lc + (int (length ys) - int (length (concat as))), A @ ys @ Z))"
  using assms
proof (induction as arbitrary: A lc)
  case Nil
  then show ?case by (simp add: normActionsV1orV2_loop.simps)
next
  case (Cons a as)
  let ?a = "norm_action little (hd A) ipProto a" and ?rest = "concat as @ Z"
  let ?e = "length A + length (concat (a # as))"
  have a: "action_wf a" and a': "action_wf ?a" using Cons.prems norm_action_wf by auto
  note len = action_wf_length [OF a] action_wf_length [OF a']
  have "length (concat as) mod 8 = 0" using Cons.prems(1) action_wf_length(2)
    by (induction as) (simp_all add: mod_add_multiple)
  then have e: "?e mod 8 = 0" using Cons.prems(2) len by (simp add: mod_add_multiple)
  have type: "ucast (drop_bit 16 (rd32 0 a)) = rd16 0 a" using action_type_field [of 0 a] len by simp
  have g: "get32 (length A) (A @ a @ ?rest) = Inr (rd32 0 a)" using get_middle(2) [of 0 a A] len by simp
  have rewrite: "(if rd16 0 a \<le> 11 \<or> rd16 0 a = 13 \<or> rd16 0 a = 14
      then normActionV1orV2 little junk (rd16 0 a) (length A) ?e ipProto (A @ a @ ?rest)
      else Inr (0, ?e, A @ a @ ?rest)) =
      Inr (int (length ?a) - int (length a), ?e - length a + length ?a, A @ ?a @ ?rest)"
    using normAction_middle [OF a refl Cons.prems(2,3) e, of little junk ipProto ?rest]
    by (auto simp: Let_def norm_action_def)
  have ee: "?e - length a + length ?a = length A + length ?a + length (concat as)" by simp
  have "normActionsV1orV2_loop little junk (length A) ?e ipProto lc (A @ a @ ?rest) =
      normActionsV1orV2_loop little junk (length A + length ?a) (length A + length ?a + length (concat as)) ipProto
        (lc + (int (length ?a) - int (length a))) (A @ ?a @ ?rest)"
    using Cons.prems(2) len by (subst normActionsV1orV2_loop.simps)
      (simp only: g type rewrite ee iter_jump_middle [OF a'] bindE_simps assertE_True Let_def prod.case, auto)
  moreover have "hd (A @ ?a) = hd A" "(length A + length ?a) mod 8 = 0"
    using Cons.prems len by (simp_all add: mod_add_multiple)
  ultimately show ?case
    using Cons.IH [of "A @ ?a" "lc + (int (length ?a) - int (length a))"] Cons.prems by (simp add: Let_def algebra_simps)
qed

lemma tiles_actions:
  assumes "tiles (elem_jump 4 2 8 msg) b ps e" and "\<forall>p\<in>set ps. elem_ok 4 2 8 msg p" and "e \<le> length msg"
  shows "\<exists>as. sub_bytes b (e - b) msg = concat as \<and> (\<forall>a\<in>set as. action_wf a)"
  using assms
proof (induction ps arbitrary: b)
  case Nil
  then show ?case by (intro exI [of _ "[]"]) (simp add: sub_bytes_def)
next
  case (Cons p ps)
  let ?j = "elem_jump 4 2 8 msg b"
  have p: "p = b" and t: "tiles (elem_jump 4 2 8 msg) (b + ?j) ps e" using Cons.prems by auto
  have size: "elem_size 4 2 msg b = unat (rd16 (b + 2) msg)"
    by (simp add: elem_size_def PROTOCOL_ITERATOR_SIZE_FIXED_def PROTOCOL_ITERATOR_SIZE_CONDITIONAL_def)
  have ok: "4 \<le> unat (rd16 (b + 2) msg)" "?j = PadLength (unat (rd16 (b + 2) msg))"
    using Cons.prems(2) p by (simp_all add: elem_ok_def Let_def size elem_jump_def)
  have room: "b + ?j \<le> e" using tiles_le [OF t] .
  have "4 \<le> ?j" using ok PadLength_ge [of "unat (rd16 (b + 2) msg)"] by simp
  then have "rd16 2 (sub_bytes b ?j msg) = rd16 (b + 2) msg"
    using room Cons.prems(3) by (simp add: rd16_def sub_bytes_def drop_take add.commute min_def)
  then have wf: "action_wf (sub_bytes b ?j msg)" using ok room Cons.prems(3) by (simp add: action_wf_def)
  obtain as where as: "sub_bytes (b + ?j) (e - (b + ?j)) msg = concat as" "\<forall>a\<in>set as. action_wf a"
    using Cons.IH [OF t] Cons.prems by auto
  have "sub_bytes b (e - b) msg = sub_bytes b ?j msg @ sub_bytes (b + ?j) (e - (b + ?j)) msg"
    using take_add [of ?j "e - (b + ?j)" "drop b msg"] room by (simp add: sub_bytes_def add.commute)
  with as wf show ?case by (intro exI [of _ "sub_bytes b ?j msg # as"]) simp
qed

lemma elems_ok_actions:
  assumes "elems_ok ActionItem msg (b, n)" and "b + n \<le> length msg"
  obtains as where "action_list (sub_bytes b n msg) = Some as"
proof -
  from assms(1) obtain ps where "tiles (elem_jump 4 2 8 msg) b ps (b + n)" "\<forall>p\<in>set ps. elem_ok 4 2 8 msg p"
    by (auto simp: elems_ok_def elem_params)
  from tiles_actions [OF this assms(2)] that show ?thesis by (auto simp: action_list_eq)
qed

text \<open>C31: Normalizing the actions of a version 1 or 2 message in place refines the map of a single
action rewriting over the action list: for every action list the range check accepts, at every aligned
position of the buffer, it returns without a fault, replaces exactly the bytes of the list by the
rewritten actions, leaves the bytes before and behind it alone, reports the change of the length, and
keeps no byte of the uninitialized insertions; every rewritten action is again well formed.\<close>

theorem normActions_refines_map:
  assumes "action_list xs = Some as" and "length pre mod 8 = 0" and "pre \<noteq> []"
  shows "normActionsV1orV2 little junk (length pre, length xs) ipProto (pre @ xs @ post) =
      Inr (int (length (concat (map (norm_action little (hd pre) ipProto) as))) - int (length xs),
        pre @ concat (map (norm_action little (hd pre) ipProto) as) @ post) \<and>
    action_list (concat (map (norm_action little (hd pre) ipProto) as)) = Some (map (norm_action little (hd pre) ipProto) as)"
  using normActions_loop_middle [OF _ assms(2,3), of as little junk ipProto 0 post] assms(1)
  by (auto simp: action_list_eq normActionsV1orV2_def Let_def norm_action_wf)

text \<open>A version 1 list: output to the controller port, set the Ethernet source.\<close>

definition sample_actions_v1 :: bytes where
  "sample_actions_v1 = [0, 0, 0, 8, 0xFF, 0xFD, 0, 64, 0, 4, 0, 16, 1, 2, 3, 4, 5, 6, 0, 0, 0, 0, 0, 0]"

theorem normActions_refines_map_witness:
  "normActionsV1orV2 True (\<lambda>_. 0xAA) (length [1, 0, 0, 0, 0, 0, 0, 0 :: byte], length sample_actions_v1) 0
     ([1, 0, 0, 0, 0, 0, 0, 0] @ sample_actions_v1 @ [7]) =
   Inr (8, [1, 0, 0, 0, 0, 0, 0, 0] @ [0, 0, 0, 16, 0xFF, 0xFF, 0xFF, 0xFD, 0, 64, 0, 0, 0, 0, 0, 0,
     0, 25, 0, 16, 0x80, 0, 8, 6, 1, 2, 3, 4, 5, 6, 0, 0] @ [7])"
proof -
  have as: "action_list sample_actions_v1 = Some [take 8 sample_actions_v1, drop 8 sample_actions_v1]" by code_simp
  have ys: "concat (map (norm_action True (hd [1, 0, 0, 0, 0, 0, 0, 0]) 0) [take 8 sample_actions_v1, drop 8 sample_actions_v1]) =
    [0, 0, 0, 16, 0xFF, 0xFF, 0xFF, 0xFD, 0, 64, 0, 0, 0, 0, 0, 0, 0, 25, 0, 16, 0x80, 0, 8, 6, 1, 2, 3, 4, 5, 6, 0, 0]"
    by code_simp
  show ?thesis
    using normActions_refines_map [OF as, of "[1, 0, 0, 0, 0, 0, 0, 0]" True "\<lambda>_. 0xAA" 0 "[7]", THEN conjunct1]
    unfolding ys by (simp add: sample_actions_v1_def)
qed



end
