(* ===== verification/Normalize.thy ===== *)
theory Normalize
  imports NormalizeActions
begin

text \<open>
  Normalization of received messages, the message handlers (\<^verbatim>\<open>src/ofp/normalize.cpp\<close>): the layout of
  an older protocol version is rewritten into the layout of the newer ones before the message is cast
  to its class. A handler takes the buffer and returns the new one; it marks a message it cannot
  rewrite in the version byte. A loop over the elements of a multipart reply that does not return is
  the value \<^const>\<open>None\<close>.
\<close>

declare add_2_eq_Suc [simp del] add_2_eq_Suc' [simp del] elem_params [simp del]

section \<open>Ports\<close>

fun PortsV1_loop :: "nat \<Rightarrow> nat \<Rightarrow> bytes \<Rightarrow> bytes \<Rightarrow> fault + bytes" where
  "PortsV1_loop 0 portV1 buf ports = Inr ports"
| "PortsV1_loop (Suc n) portV1 buf ports =
     (if portV1 + 48 \<le> length buf
      then bindE (PortList_add (PortBuilder_fromV1 (PortV1_at portV1 buf)) ports)
        (PortsV1_loop n (portV1 + 48) buf)
      else Inl (OutOfBounds portV1 48))"

fun PortsV2_loop :: "nat \<Rightarrow> nat \<Rightarrow> bytes \<Rightarrow> bytes \<Rightarrow> fault + bytes" where
  "PortsV2_loop 0 portV2 buf ports = Inr ports"
| "PortsV2_loop (Suc n) portV2 buf ports =
     (if portV2 + 64 \<le> length buf
      then bindE (PortList_add (PortBuilder_fromV2 (PortV2_at portV2 buf)) ports)
        (PortsV2_loop n (portV2 + 64) buf)
      else Inl (OutOfBounds portV2 64))"

text \<open>\<^verbatim>\<open>addUninitialized(ports.size() - portListSize)\<close>, the assertion and the copy behind the header.\<close>

definition copy_ports :: "(nat \<Rightarrow> byte) \<Rightarrow> nat \<Rightarrow> bytes \<Rightarrow> nat \<Rightarrow> bytes \<Rightarrow> fault + bytes" where
  "copy_ports junk headerSize ports portListSize buf =
     (let buf = buf @ uninit junk (length ports - portListSize) in
      bindE (assertE (length buf = headerSize + length ports)) (\<lambda>_. buf_put headerSize ports buf))"

definition hdr_length :: "bytes \<Rightarrow> nat" where
  "hdr_length buf = unat (Header_length buf)"

definition normalizeFeaturesReplyV1 :: "(nat \<Rightarrow> byte) \<Rightarrow> bytes \<Rightarrow> fault + bytes" where
  "normalizeFeaturesReplyV1 junk buf =
     (if hdr_length buf < 32 then Inr (markInputInvalid buf)
      else
        let portListSize = hdr_length buf - 32 in
        if portListSize mod 48 \<noteq> 0 then Inr (markInputInvalid buf)
        else bindE (PortsV1_loop (portListSize div 48) 32 buf []) (\<lambda>ports.
          if length ports > 65535 - 32 then Inr (markInputTooBig buf)
          else copy_ports junk 32 ports portListSize buf))"

definition normalizeFeaturesReplyV2 :: "(nat \<Rightarrow> byte) \<Rightarrow> bytes \<Rightarrow> fault + bytes" where
  "normalizeFeaturesReplyV2 junk buf =
     (if hdr_length buf < 32 then Inr (markInputInvalid buf)
      else
        let portListSize = hdr_length buf - 32 in
        if portListSize mod 64 \<noteq> 0 then Inr (markInputInvalid buf)
        else bindE (PortsV2_loop (portListSize div 64) 32 buf []) (\<lambda>ports.
          if length ports > 65535 - 32 then Inr (markInputTooBig buf)
          else copy_ports junk 32 ports portListSize buf))"

definition normalizePortStatusV1 :: "(nat \<Rightarrow> byte) \<Rightarrow> bytes \<Rightarrow> fault + bytes" where
  "normalizePortStatusV1 junk buf =
     (if hdr_length buf \<noteq> 16 + 48 then Inr (markInputInvalid buf)
      else if 16 + 48 > length buf then Inl (OutOfBounds 16 48)
      else
        let portBuilder = PortBuilder_fromV1 (PortV1_at 16 buf) in
        bindE (buf_put 16 (PortBuilder_bytes portBuilder) (buf @ uninit junk (72 - 48))) (\<lambda>buf.
        bindE (assertE (length buf = 16 + 72)) (\<lambda>_. Inr buf)))"

definition normalizePortStatusV2 :: "(nat \<Rightarrow> byte) \<Rightarrow> bytes \<Rightarrow> fault + bytes" where
  "normalizePortStatusV2 junk buf =
     (if hdr_length buf \<noteq> 16 + 64 then Inr (markInputInvalid buf)
      else if 16 + 64 > length buf then Inl (OutOfBounds 16 64)
      else
        let portBuilder = PortBuilder_fromV2 (PortV2_at 16 buf) in
        bindE (buf_put 16 (PortBuilder_bytes portBuilder) (buf @ uninit junk (72 - 64))) (\<lambda>buf.
        bindE (assertE (length buf = 16 + 72)) (\<lambda>_. Inr buf)))"

definition normalizeMPPortDescReplyV1 :: "(nat \<Rightarrow> byte) \<Rightarrow> bytes \<Rightarrow> fault + bytes" where
  "normalizeMPPortDescReplyV1 junk buf =
     (let portListSize = length buf - 16 in
      if portListSize mod 48 \<noteq> 0 then Inr (markInputInvalid buf)
      else bindE (PortsV1_loop (portListSize div 48) 16 buf []) (\<lambda>ports.
        copy_ports junk 16 ports portListSize buf))"

definition normalizeMPPortDescReplyV4 :: "(nat \<Rightarrow> byte) \<Rightarrow> bytes \<Rightarrow> fault + bytes" where
  "normalizeMPPortDescReplyV4 junk buf =
     (let portListSize = length buf - 16 in
      if portListSize mod 64 \<noteq> 0 then Inr (markInputInvalid buf)
      else bindE (PortsV2_loop (portListSize div 64) 16 buf []) (\<lambda>ports.
        copy_ports junk 16 ports portListSize buf))"

definition normalizePortModV1 :: "(nat \<Rightarrow> byte) \<Rightarrow> bytes \<Rightarrow> fault + bytes" where
  "normalizePortModV1 junk buf =
     (if hdr_length buf < 32 then Inr (markInputInvalid buf)
      else
        bindE (normPortNumberV1 8 buf) (\<lambda>inPort.
        bindE (buf_insert 16 (uninit junk 8) buf) (\<lambda>buf.
        bindE (buf_copy 16 10 6 buf) (\<lambda>buf.
        bindE (buf_put 8 (be32 inPort) buf) (\<lambda>buf.
        bindE (buf_put 12 (zeros 4) buf) (\<lambda>buf.
        bindE (buf_put 22 (zeros 2) buf) (\<lambda>buf.
        bindE (get32 32 buf) (\<lambda>advertise.
        bindE (buf_put 32 (be32 8) buf) (\<lambda>buf.
        buf_put 36 (be32 (OFPPortFeaturesFlagsConvertFromV1 advertise)) buf)))))))))"

definition normalizePortModV2 :: "bytes \<Rightarrow> fault + bytes" where
  "normalizePortModV2 buf =
     (if hdr_length buf < 40 then Inr (markInputInvalid buf)
      else
        bindE (get32 32 buf) (\<lambda>advertise.
        bindE (buf_put 32 (be32 8) buf) (\<lambda>buf.
        buf_put 36 (be32 advertise) buf)))"

section \<open>Flows, packets and experimenters\<close>

definition normalizeFlowModV1 :: "bool \<Rightarrow> (nat \<Rightarrow> byte) \<Rightarrow> bytes \<Rightarrow> fault + bytes" where
  "normalizeFlowModV1 little junk buf =
     (if hdr_length buf < 72 then Inr (markInputInvalid buf)
      else if length buf > 65535 - 72 then Inr (markInputTooBig buf)
      else
        let origSize = length buf in
        bindE (assertE (origSize \<ge> 72)) (\<lambda>_.
        bindE (original_match 8 buf) (\<lambda>stdMatch.
        bindE (normPortNumberV1 68 buf) (\<lambda>out_port.
        bindE (buf_copy 8 48 8 buf) (\<lambda>buf.
        bindE (buf_put 16 (replicate 8 0xFF) buf) (\<lambda>buf.
        bindE (buf_copy 24 56 12 buf) (\<lambda>buf.
        bindE (buf_put 36 (be32 out_port) buf) (\<lambda>buf.
        bindE (buf_put 40 (zeros 4) buf) (\<lambda>buf.
        bindE (buf_copy 44 70 2 buf) (\<lambda>buf.
        bindE (buf_put 46 (zeros 2) buf) (\<lambda>buf.
        let actLen = unat (of_nat (origSize - 72) :: u16) in
        if actLen mod 8 \<noteq> 0 then Inr (markInputInvalid buf)
        else
          bindE (buf_insert 48 (uninit junk (64 + (if actLen > 0 then 8 else 0))) buf) (\<lambda>buf.
          bindE (buf_put 48 (StandardMatch_bytes stdMatch) buf) (\<lambda>buf.
          if actLen > 0 then
            validated (ActionRange_validateInput buf (144, actLen) null_context)
              (Inr (markInputInvalid buf))
              (bindE (normActionsV1orV2 little junk (144, actLen) (sm_nw_proto stdMatch) buf) (\<lambda>(delta, buf).
               buf_put 136 (be16 OFPIT_APPLY_ACTIONS @ be16 (of_int (int actLen + 8 + delta)) @ zeros 4) buf))
          else Inr buf)))))))))))))"

definition normalizePacketOutV1 :: "bool \<Rightarrow> (nat \<Rightarrow> byte) \<Rightarrow> bytes \<Rightarrow> fault + bytes" where
  "normalizePacketOutV1 little junk buf =
     (if hdr_length buf < 16 then Inr (markInputInvalid buf)
      else if length buf > 65535 - 8 then Inr (markInputTooBig buf)
      else
        bindE (normPortNumberV1 12 buf) (\<lambda>inPort.
        bindE (get16 14 buf) (\<lambda>actionLen.
        let actLen = unat actionLen in
        if actLen mod 8 \<noteq> 0 then Inr (markInputInvalid buf)
        else if 16 + actLen > length buf then Inr (markInputInvalid buf)
        else
          bindE (buf_insert 12 (uninit junk 8) buf) (\<lambda>buf.
          bindE (buf_put 12 (be32 inPort) buf) (\<lambda>buf.
          bindE (buf_put 18 (zeros 6) buf) (\<lambda>buf.
          if actLen > 0 then
            validated (ActionRange_validateInput buf (24, actLen) null_context)
              (Inr (markInputInvalid buf))
              (bindE (normActionsV1orV2 little junk (24, actLen) 0 buf) (\<lambda>(lengthChange, buf).
               buf_put 16 (be16 (actionLen + of_int lengthChange)) buf))
          else buf_put 16 (be16 actionLen) buf))))))"

definition normalizeExperimenterV1 :: "bytes \<Rightarrow> fault + bytes" where
  "normalizeExperimenterV1 buf =
     (if hdr_length buf < 12 then Inr (markInputInvalid buf)
      else if hdr_length buf > 65535 - 4 then Inr (markInputTooBig buf)
      else buf_insert 12 (zeros 4) buf)"

definition normalizeFlowRemovedV1 :: "(nat \<Rightarrow> byte) \<Rightarrow> bytes \<Rightarrow> fault + bytes" where
  "normalizeFlowRemovedV1 junk buf =
     (if hdr_length buf \<noteq> 88 then Inr (markInputInvalid buf)
      else
        bindE (assertE (length buf = 88)) (\<lambda>_.
        bindE (original_match 8 buf) (\<lambda>stdMatch.
        bindE (buf_copy 8 48 40 buf) (\<lambda>buf.
        bindE (buf_insert 88 (uninit junk (136 - 88)) buf) (\<lambda>buf.
        buf_put 48 (StandardMatch_bytes stdMatch) buf)))))"

section \<open>Multipart requests\<close>

definition OFPMP_FLOW_DESC :: u16 where "OFPMP_FLOW_DESC = 1"
definition OFPMP_AGGREGATE_STATS :: u16 where "OFPMP_AGGREGATE_STATS = 2"
definition OFPMP_TABLE_STATS :: u16 where "OFPMP_TABLE_STATS = 3"
definition OFPMP_PORT_STATS :: u16 where "OFPMP_PORT_STATS = 4"
definition OFPMP_QUEUE_STATS :: u16 where "OFPMP_QUEUE_STATS = 5"
definition OFPMP_GROUP_STATS :: u16 where "OFPMP_GROUP_STATS = 6"
definition OFPMP_PORT_DESC :: u16 where "OFPMP_PORT_DESC = 13"

lemmas OFPMP_defs = OFPMP_FLOW_DESC_def OFPMP_AGGREGATE_STATS_def OFPMP_TABLE_STATS_def OFPMP_PORT_STATS_def
  OFPMP_QUEUE_STATS_def OFPMP_GROUP_STATS_def OFPMP_PORT_DESC_def

definition normalizeMPFlowRequestV1 :: "(nat \<Rightarrow> byte) \<Rightarrow> bytes \<Rightarrow> fault + bytes" where
  "normalizeMPFlowRequestV1 junk buf =
     (if length buf \<noteq> 16 + 44 then Inr (markInputInvalid buf)
      else
        let buf = buf @ uninit junk 76 in
        bindE (original_match 16 buf) (\<lambda>stdMatch.
        bindE (normPortNumberV1 (16 + 40 + 2) buf) (\<lambda>outPort.
        bindE (buf_copy 16 (16 + 40) 2 buf) (\<lambda>buf.
        bindE (buf_put (16 + 2) (zeros 2) buf) (\<lambda>buf.
        bindE (buf_put (16 + 4) (be32 outPort) buf) (\<lambda>buf.
        bindE (buf_put (16 + 8) (zeros 24) buf) (\<lambda>buf.
        bindE (buf_put (16 + 32) (StandardMatch_bytes stdMatch) buf) (\<lambda>buf.
        bindE (assertE (length buf = 16 + 120)) (\<lambda>_. Inr buf)))))))))"

definition normalizeMPPortStatsRequestV1 :: "bytes \<Rightarrow> fault + bytes" where
  "normalizeMPPortStatsRequestV1 buf =
     (if length buf \<noteq> 16 + 8 then Inr (markInputInvalid buf)
      else bindE (normPortNumberV1 16 buf) (\<lambda>port. buf_put 16 (be32 port) buf))"

definition normalizeMultipartRequestV1 :: "(nat \<Rightarrow> byte) \<Rightarrow> bytes \<Rightarrow> fault + bytes" where
  "normalizeMultipartRequestV1 junk buf =
     (if hdr_length buf < 12 then Inr (markInputInvalid buf)
      else
        bindE (buf_insert 12 (zeros 4) buf) (\<lambda>buf.
        bindE (get16 8 buf) (\<lambda>reqType.
        if reqType = OFPMP_FLOW_DESC \<or> reqType = OFPMP_AGGREGATE_STATS then normalizeMPFlowRequestV1 junk buf
        else if reqType = OFPMP_PORT_STATS \<or> reqType = OFPMP_QUEUE_STATS then normalizeMPPortStatsRequestV1 buf
        else Inr buf)))"

section \<open>Multipart replies\<close>

text \<open>An element handler takes the offset of the element and returns the offset to go on with.\<close>

type_synonym element_handler = "nat \<Rightarrow> bytes \<Rightarrow> fault + (nat \<times> bytes)"

definition normalizeMPFlowReplyV1 :: "bool \<Rightarrow> (nat \<Rightarrow> byte) \<Rightarrow> element_handler" where
  "normalizeMPFlowReplyV1 little junk offset buf =
     bindE (get16 offset buf) (\<lambda>len.
     if offset + unat len > length buf then Inr (length buf, markInputInvalid buf)
     else if unat len < 88 then Inr (length buf, markInputInvalid buf)
     else
       bindE (original_match (offset + 4) buf) (\<lambda>stdMatch.
       bindE (buf_copy (offset + 4) (offset + 44) 44 buf) (\<lambda>buf.
       let actLen = unat len - 88 in
       if actLen mod 8 \<noteq> 0 then Inr (length buf, markInputInvalid buf)
       else
         let needed = 48 + (if actLen > 0 then 8 else 0) in
         bindE (buf_insert (offset + 48) (uninit junk needed) buf) (\<lambda>buf.
         bindE (buf_put (offset + 48) (StandardMatch_bytes stdMatch) buf) (\<lambda>buf.
         bindE (if actLen > 0 then
                  bindE (normActionsV1orV2 little junk (offset + 144, actLen) (sm_nw_proto stdMatch) buf) (\<lambda>(delta, buf).
                  bindE (buf_put (offset + 136)
                    (be16 OFPIT_APPLY_ACTIONS @ be16 (of_int (int actLen + 8 + delta)) @ zeros 4) buf) (\<lambda>buf.
                  Inr (int needed + delta, buf)))
                else Inr (int needed, buf)) (\<lambda>(needed, buf).
         bindE (buf_put offset (be16 (of_int (int (unat len) + needed))) buf) (\<lambda>buf.
         Inr (nat (int (offset + unat len) + needed), buf))))))))"

definition normalizeMPTableStatsReplyV4 :: element_handler where
  "normalizeMPTableStatsReplyV4 offset buf =
     (if length buf - offset < 24 then Inr (length buf, markInputInvalid buf)
      else bindE (buf_insert (offset + 4) (zeros 40) buf) (\<lambda>buf. Inr (offset + 64, buf)))"

definition normalizeMPPortOrQueueStatsReplyV1 :: "nat \<Rightarrow> element_handler" where
  "normalizeMPPortOrQueueStatsReplyV1 len offset buf =
     (let remaining = length buf - offset in
      if remaining < len then Inr (length buf, buf)
      else
        bindE (normPortNumberV1 offset buf) (\<lambda>port.
        bindE (buf_put offset (be32 port) buf) (\<lambda>buf.
        bindE (buf_insert (offset + len) (zeros 8) buf) (\<lambda>buf.
        Inr (offset + len + 8, buf)))))"

definition normalizeMPPortOrQueueStatsReplyV3 :: "nat \<Rightarrow> element_handler" where
  "normalizeMPPortOrQueueStatsReplyV3 len offset buf =
     (let remaining = length buf - offset in
      if remaining < len then Inr (length buf, buf)
      else bindE (buf_insert (offset + len) (zeros 8) buf) (\<lambda>buf. Inr (offset + len + 8, buf)))"

definition normalizeMPGroupStatsReplyV3 :: "nat \<Rightarrow> element_handler" where
  "normalizeMPGroupStatsReplyV3 len offset buf =
     (let remaining = length buf - offset in
      if remaining < len then Inr (length buf, buf)
      else
        bindE (get16 offset buf) (\<lambda>statLen.
        if remaining < unat statLen then Inr (length buf, buf)
        else
          bindE (buf_put offset (be16 (statLen + 8)) buf) (\<lambda>buf.
          bindE (buf_insert (offset + len) (zeros 8) buf) (\<lambda>buf.
          Inr (offset + unat statLen + 8, buf)))))"

definition normalizeMPPortStatsReplyV4 :: "(nat \<Rightarrow> byte) \<Rightarrow> element_handler" where
  "normalizeMPPortStatsReplyV4 junk offset buf =
     (let remaining = length buf - offset in
      if remaining < 112 then Inr (length buf, buf)
      else
        bindE (assertE (IsPtrAligned offset 8)) (\<lambda>_.
        bindE (buf_insert (offset + 112) (uninit junk 8) buf) (\<lambda>buf.
        bindE (buf_get offset 4 buf) (\<lambda>portNo.
        bindE (buf_get (offset + 4) 4 buf) (\<lambda>pad.
        bindE (buf_put offset pad buf) (\<lambda>buf.
        bindE (buf_put (offset + 4) portNo buf) (\<lambda>buf.
        bindE (buf_get (offset + 72) 32 buf) (\<lambda>counters.
        bindE (buf_copy (offset + 16) (offset + 8) 64 buf) (\<lambda>buf.
        bindE (buf_copy (offset + 8) (offset + 104) 8 buf) (\<lambda>buf.
        bindE (buf_put (offset + 80) (be16 0 @ be16 40 @ zeros 4 @ counters) buf) (\<lambda>buf.
        bindE (buf_put offset (be16 120) buf) (\<lambda>buf.
        Inr (offset + 120, buf)))))))))))))"

definition normalizeMPPortStatsReplyV1 :: "(nat \<Rightarrow> byte) \<Rightarrow> element_handler" where
  "normalizeMPPortStatsReplyV1 junk offset buf =
     (let remaining = length buf - offset in
      if remaining < 104 then Inr (length buf, buf)
      else
        bindE (normPortNumberV1 offset buf) (\<lambda>port.
        bindE (buf_put offset (be32 port) buf) (\<lambda>buf.
        bindE (buf_insert (offset + 104) (zeros 8) buf) (\<lambda>buf.
        normalizeMPPortStatsReplyV4 junk offset buf))))"

definition normalizeMPPortStatsReplyV2 :: "(nat \<Rightarrow> byte) \<Rightarrow> element_handler" where
  "normalizeMPPortStatsReplyV2 junk offset buf =
     (let remaining = length buf - offset in
      if remaining < 104 then Inr (length buf, buf)
      else
        bindE (buf_insert (offset + 104) (zeros 8) buf) (\<lambda>buf.
        normalizeMPPortStatsReplyV4 junk offset buf))"

text \<open>\<^verbatim>\<open>while (offset < buf_.size()) f(&offset); assert(offset == buf_.size())\<close>\<close>

partial_function (option) norm_while :: "element_handler \<Rightarrow> nat \<Rightarrow> bytes \<Rightarrow> (fault + bytes) option" where
  "norm_while f offset buf =
     (if offset < length buf then
        (case f offset buf of
           Inl e \<Rightarrow> Some (Inl e)
         | Inr r \<Rightarrow> norm_while f (fst r) (snd r))
      else Some (bindE (assertE (offset = length buf)) (\<lambda>_. Inr buf)))"

definition normalizeMultipartReplyV1 :: "bool \<Rightarrow> (nat \<Rightarrow> byte) \<Rightarrow> bytes \<Rightarrow> (fault + bytes) option" where
  "normalizeMultipartReplyV1 little junk buf =
     (if hdr_length buf < 12 then Some (Inr (markInputInvalid buf))
      else
        case bindE (buf_insert 12 (zeros 4) buf) (\<lambda>buf. bindE (get16 8 buf) (\<lambda>t. Inr (t, buf))) of
          Inl e \<Rightarrow> Some (Inl e)
        | Inr (replyType, buf) \<Rightarrow>
            if replyType = OFPMP_FLOW_DESC then norm_while (normalizeMPFlowReplyV1 little junk) 16 buf
            else if replyType = OFPMP_PORT_STATS then norm_while (normalizeMPPortStatsReplyV1 junk) 16 buf
            else if replyType = OFPMP_QUEUE_STATS then norm_while (normalizeMPPortOrQueueStatsReplyV1 32) 16 buf
            else if replyType = OFPMP_PORT_DESC then Some (normalizeMPPortDescReplyV1 junk buf)
            else Some (Inr buf))"

definition normalizeMultipartReplyV2 :: "(nat \<Rightarrow> byte) \<Rightarrow> bytes \<Rightarrow> (fault + bytes) option" where
  "normalizeMultipartReplyV2 junk buf =
     (if hdr_length buf < 16 then Some (Inr (markInputInvalid buf))
      else
        case get16 8 buf of
          Inl e \<Rightarrow> Some (Inl e)
        | Inr replyType \<Rightarrow>
            if replyType = OFPMP_PORT_STATS then norm_while (normalizeMPPortStatsReplyV2 junk) 16 buf
            else if replyType = OFPMP_PORT_DESC then Some (normalizeMPPortDescReplyV4 junk buf)
            else Some (Inr buf))"

definition normalizeMultipartReplyV3 :: "(nat \<Rightarrow> byte) \<Rightarrow> bytes \<Rightarrow> (fault + bytes) option" where
  "normalizeMultipartReplyV3 junk buf =
     (if hdr_length buf < 16 then Some (Inr (markInputInvalid buf))
      else
        case get16 8 buf of
          Inl e \<Rightarrow> Some (Inl e)
        | Inr replyType \<Rightarrow>
            if replyType = OFPMP_PORT_STATS then norm_while (normalizeMPPortStatsReplyV2 junk) 16 buf
            else if replyType = OFPMP_QUEUE_STATS then norm_while (normalizeMPPortOrQueueStatsReplyV3 32) 16 buf
            else if replyType = OFPMP_GROUP_STATS then norm_while (normalizeMPGroupStatsReplyV3 32) 16 buf
            else if replyType = OFPMP_PORT_DESC then Some (normalizeMPPortDescReplyV4 junk buf)
            else Some (Inr buf))"

definition normalizeMultipartReplyV4 :: "(nat \<Rightarrow> byte) \<Rightarrow> bytes \<Rightarrow> (fault + bytes) option" where
  "normalizeMultipartReplyV4 junk buf =
     (if hdr_length buf < 16 then Some (Inr (markInputInvalid buf))
      else
        case get16 8 buf of
          Inl e \<Rightarrow> Some (Inl e)
        | Inr replyType \<Rightarrow>
            if replyType = OFPMP_PORT_STATS then norm_while (normalizeMPPortStatsReplyV4 junk) 16 buf
            else if replyType = OFPMP_PORT_DESC then Some (normalizeMPPortDescReplyV4 junk buf)
            else if replyType = OFPMP_TABLE_STATS then norm_while normalizeMPTableStatsReplyV4 16 buf
            else Some (Inr buf))"

definition normalizeMultipartReplyV5 :: "bytes \<Rightarrow> (fault + bytes) option" where
  "normalizeMultipartReplyV5 buf =
     (if hdr_length buf < 16 then Some (Inr (markInputInvalid buf))
      else
        case get16 8 buf of
          Inl e \<Rightarrow> Some (Inl e)
        | Inr replyType \<Rightarrow>
            if replyType = OFPMP_TABLE_STATS then norm_while normalizeMPTableStatsReplyV4 16 buf
            else Some (Inr buf))"

section \<open>Asynchronous configuration and queues\<close>

text \<open>The six masks are swapped pairwise and written as properties 0 to 5.\<close>

definition normalizeAsyncConfigV4 :: "(nat \<Rightarrow> byte) \<Rightarrow> bytes \<Rightarrow> fault + bytes" where
  "normalizeAsyncConfigV4 junk buf =
     (if hdr_length buf \<noteq> 32 then Inr (markInputInvalid buf)
      else
        let buf = buf @ uninit junk 24 in
        bindE (buf_get 8 24 buf) (\<lambda>masks.
        let mask = (\<lambda>i. sub_bytes (4 * i) 4 masks);
            prop = (\<lambda>i j. be16 (of_nat i) @ be16 8 @ mask j) in
        buf_put 8 (prop 0 1 @ prop 1 0 @ prop 2 3 @ prop 3 2 @ prop 4 5 @ prop 5 4) buf))"

definition QueueList_add :: "nat \<Rightarrow> bytes \<Rightarrow> bytes \<Rightarrow> fault + bytes" where
  "QueueList_add p buf newQueues =
     bindE (get16 (p + 4) buf) (\<lambda>len.
     let props = SafeByteRange p (unat len) 8 in
     if p + max 8 (unat len) > length buf then Inl (OutOfBounds p (max 8 (unat len)))
     else bindE (assertE (unat (of_nat (16 + snd props) :: u16) = 16 + snd props)) (\<lambda>_.
       Inr (newQueues @ QueueBuilder_fromV1 p buf)))"

definition normalizeQueueGetConfigReplyV1 :: "bytes \<Rightarrow> fault + bytes" where
  "normalizeQueueGetConfigReplyV1 buf =
     (if hdr_length buf < 16 then Inr (markInputInvalid buf)
      else
        bindE (if Header_version buf = 1
               then bindE (get16 8 buf) (\<lambda>port. buf_put 8 (be32 (PortNumber_fromV1 port)) buf)
               else Inr buf) (\<lambda>buf.
        let rng = SafeByteRange 0 (length buf) 16 in
        validated (elems_validateInput QueueV1Elem (QueueV1_validateInput buf) buf rng null_context)
          (Inr (markInputInvalid buf))
          (bindE (for_range 8 4 8 buf (\<lambda>p. QueueList_add p buf) (fst rng) (fst rng + snd rng) []) (\<lambda>newQueues.
           if length newQueues > 65535 - 16 then Inr (markInputTooBig buf)
           else Inr (take (fst rng) buf @ newQueues @ drop (fst rng + snd rng) buf)))))"

text \<open>The loops over the queues and their properties; \<^const>\<open>None\<close> is the silent return on a malformed one.\<close>

function QueuePropsV2_loop :: "bytes \<Rightarrow> nat \<Rightarrow> nat \<Rightarrow> bytes \<Rightarrow> fault + (bytes \<times> nat \<times> nat) option" where
  "QueuePropsV2_loop buf prop propLeft newBuf =
     (if propLeft > 4 then
        bindE (get16 (prop + 2) buf) (\<lambda>size16.
        let propSize = unat size16 in
        if propSize > propLeft \<or> propSize < 4 then Inr None
        else
          bindE (buf_get prop propSize buf) (\<lambda>bs.
          QueuePropsV2_loop buf (prop + propSize) (propLeft - propSize)
            (newBuf @ bs @ (if propSize mod 8 \<noteq> 0 then zeros (PadLength propSize - propSize) else []))))
      else Inr (Some (newBuf, prop, propLeft)))"
  by pat_completeness auto
termination by (relation "measure (\<lambda>(_, _, propLeft, _). propLeft)") auto

declare QueuePropsV2_loop.simps [simp del]

function QueuesV2_loop :: "bytes \<Rightarrow> nat \<Rightarrow> nat \<Rightarrow> bytes \<Rightarrow> fault + (bytes \<times> nat) option" where
  "QueuesV2_loop buf ptr remaining newBuf =
     (if remaining > 16 then
        bindE (get16 (ptr + 8) buf) (\<lambda>len16.
        let queueLen = unat len16 in
        if queueLen > remaining \<or> queueLen < 16 then Inr None
        else
          bindE (buf_get ptr 16 buf) (\<lambda>h.
          bindE (QueuePropsV2_loop buf (ptr + 16) (queueLen - 16) (newBuf @ h)) (\<lambda>r.
          case r of
            None \<Rightarrow> Inr None
          | Some (newBuf, prop, propLeft) \<Rightarrow>
              if propLeft \<noteq> 0 then Inr None
              else bindE (assertE (prop = ptr + queueLen)) (\<lambda>_.
                QueuesV2_loop buf (ptr + queueLen) (remaining - queueLen) newBuf))))
      else Inr (Some (newBuf, remaining)))"
  by pat_completeness auto
termination by (relation "measure (\<lambda>(_, _, remaining, _). remaining)") auto

declare QueuesV2_loop.simps [simp del]

definition normalizeQueueGetConfigReplyV2 :: "bytes \<Rightarrow> fault + bytes" where
  "normalizeQueueGetConfigReplyV2 buf =
     (if hdr_length buf < 16 then Inr buf
      else
        let rng = SafeByteRange 0 (length buf) 16 in
        bindE (QueuesV2_loop buf (fst rng) (snd rng) []) (\<lambda>r.
        case r of
          None \<Rightarrow> Inr buf
        | Some (newBuf, remaining) \<Rightarrow>
            if remaining \<noteq> 0 then Inr buf
            else if length newBuf > 65535 - 16 then Inr (markInputTooBig buf)
            else Inr (take (fst rng) buf @ newBuf @ drop (fst rng + snd rng) buf)))"

section \<open>The dispatch on version and type\<close>

definition OFPT_EXPERIMENTER :: byte where "OFPT_EXPERIMENTER = 4"
definition OFPT_FEATURES_REPLY :: byte where "OFPT_FEATURES_REPLY = 6"
definition OFPT_FLOW_REMOVED :: byte where "OFPT_FLOW_REMOVED = 11"
definition OFPT_PORT_STATUS :: byte where "OFPT_PORT_STATUS = 12"
definition OFPT_PACKET_OUT :: byte where "OFPT_PACKET_OUT = 13"
definition OFPT_MULTIPART_REQUEST :: byte where "OFPT_MULTIPART_REQUEST = 18"
definition OFPT_MULTIPART_REPLY :: byte where "OFPT_MULTIPART_REPLY = 19"
definition OFPT_QUEUE_GET_CONFIG_REPLY :: byte where "OFPT_QUEUE_GET_CONFIG_REPLY = 23"
definition OFPT_GET_ASYNC_REPLY :: byte where "OFPT_GET_ASYNC_REPLY = 27"
definition OFPT_SET_ASYNC :: byte where "OFPT_SET_ASYNC = 28"

lemmas OFPT_defs = OFPT_EXPERIMENTER_def OFPT_FEATURES_REPLY_def OFPT_FLOW_REMOVED_def OFPT_PORT_STATUS_def
  OFPT_PACKET_OUT_def OFPT_MULTIPART_REQUEST_def OFPT_MULTIPART_REPLY_def OFPT_QUEUE_GET_CONFIG_REPLY_def
  OFPT_GET_ASYNC_REPLY_def OFPT_SET_ASYNC_def OFPT_FLOW_MOD_def OFPT_PORT_MOD_def

definition norm_dispatch :: "bool \<Rightarrow> (nat \<Rightarrow> byte) \<Rightarrow> byte \<Rightarrow> byte \<Rightarrow> bytes \<Rightarrow> (fault + bytes) option" where
  "norm_dispatch little junk version type buf =
     (if version = 1 then
        (if type = OFPT_FEATURES_REPLY then Some (normalizeFeaturesReplyV1 junk buf)
         else if type = OFPT_FLOW_MOD then Some (normalizeFlowModV1 little junk buf)
         else if type = OFPT_PORT_STATUS then Some (normalizePortStatusV1 junk buf)
         else if type = OFPT_EXPERIMENTER then Some (normalizeExperimenterV1 buf)
         else if type = OFPT_PACKET_OUT then Some (normalizePacketOutV1 little junk buf)
         else if type = OFPT_PORT_MOD then Some (normalizePortModV1 junk buf)
         else if type = OFPT_FLOW_REMOVED then Some (normalizeFlowRemovedV1 junk buf)
         else if type = OFPT_MULTIPART_REQUEST then Some (normalizeMultipartRequestV1 junk buf)
         else if type = OFPT_MULTIPART_REPLY then normalizeMultipartReplyV1 little junk buf
         else if type = OFPT_QUEUE_GET_CONFIG_REPLY then Some (normalizeQueueGetConfigReplyV1 buf)
         else Some (Inr buf))
      else if version = 2 then
        (if type = OFPT_FEATURES_REPLY then Some (normalizeFeaturesReplyV2 junk buf)
         else if type = OFPT_PORT_STATUS then Some (normalizePortStatusV2 junk buf)
         else if type = OFPT_PORT_MOD then Some (normalizePortModV2 buf)
         else if type = OFPT_MULTIPART_REPLY then normalizeMultipartReplyV2 junk buf
         else if type = OFPT_QUEUE_GET_CONFIG_REPLY then Some (normalizeQueueGetConfigReplyV1 buf)
         else Some (Inr buf))
      else if version = 3 then
        (if type = OFPT_FEATURES_REPLY then Some (normalizeFeaturesReplyV2 junk buf)
         else if type = OFPT_PORT_STATUS then Some (normalizePortStatusV2 junk buf)
         else if type = OFPT_PORT_MOD then Some (normalizePortModV2 buf)
         else if type = OFPT_MULTIPART_REPLY then normalizeMultipartReplyV3 junk buf
         else if type = OFPT_QUEUE_GET_CONFIG_REPLY then Some (normalizeQueueGetConfigReplyV2 buf)
         else Some (Inr buf))
      else if version = 4 then
        (if type = OFPT_FEATURES_REPLY then Some (normalizeFeaturesReplyV2 junk buf)
         else if type = OFPT_PORT_STATUS then Some (normalizePortStatusV2 junk buf)
         else if type = OFPT_PORT_MOD then Some (normalizePortModV2 buf)
         else if type = OFPT_MULTIPART_REPLY then normalizeMultipartReplyV4 junk buf
         else if type = OFPT_SET_ASYNC \<or> type = OFPT_GET_ASYNC_REPLY then Some (normalizeAsyncConfigV4 junk buf)
         else if type = OFPT_QUEUE_GET_CONFIG_REPLY then Some (normalizeQueueGetConfigReplyV2 buf)
         else Some (Inr buf))
      else if version \<ge> 5 then
        (if type = OFPT_MULTIPART_REPLY then normalizeMultipartReplyV5 buf else Some (Inr buf))
      else Some (Inr buf))"

definition norm_begin :: "bytes \<Rightarrow> fault + (byte \<times> byte \<times> bytes)" where
  "norm_begin buf =
     bindE (assertE (length buf \<ge> 8)) (\<lambda>_.
     let version = Header_version buf in
     bindE (translateType version (Header_type buf) 4) (\<lambda>type.
     let buf = setType type (if type = OFPT_UNSUPPORTED then markInputInvalid buf else buf) in
     bindE (if length buf \<noteq> hdr_length buf then setLength (length buf) (markInputInvalid buf) else Inr buf) (\<lambda>buf.
     Inr (version, type, buf))))"

definition norm_finish :: "bytes \<Rightarrow> fault + bytes" where
  "norm_finish buf =
     (let buf = (if length buf > OFP_MAX_SIZE then take OFP_MAX_SIZE (markInputTooBig buf) else buf) in
      bindE (setLength (length buf) buf) (\<lambda>buf.
      bindE (assertE (length buf = hdr_length buf)) (\<lambda>_. Inr buf)))"

definition normalize :: "bool \<Rightarrow> (nat \<Rightarrow> byte) \<Rightarrow> bytes \<Rightarrow> (fault + bytes) option" where
  "normalize little junk buf =
     (case norm_begin buf of
        Inl e \<Rightarrow> Some (Inl e)
      | Inr (version, type, buf) \<Rightarrow>
          map_option (\<lambda>r. bindE r norm_finish) (norm_dispatch little junk version type buf))"

section \<open>The new layouts\<close>

lemmas buf_ops = buf_put_def buf_copy_def buf_get_def buf_insert_def overwrite_def insert_at_def sub_bytes_def
lemmas field_reads = get16_def get32_def rd16_def rd32_def

definition port32 :: "bytes \<Rightarrow> u32" where
  "port32 p = PortNumber_fromV1 (rd16 0 p)"

lemma normPortNumberV1_eq: "normPortNumberV1 p buf = bindE (get16 p buf) (\<lambda>port. Inr (PortNumber_fromV1 port))"
proof -
  have "unat (ucast port :: u32) = unat port" for port :: u16
    using unsigned_less [of port, where ?'a = nat] by (simp add: unat_ucast_mod)
  then show ?thesis
    by (simp add: normPortNumberV1_def PortNumber_fromV1_def Let_def word_less_nat_alt)
qed

lemma normPortNumberV1_middle:
  "length A = n \<Longrightarrow> length p = 2 \<Longrightarrow> normPortNumberV1 n (A @ p @ R) = Inr (port32 p)"
  using get_middle(1) [of 0 p A R] by (simp add: normPortNumberV1_eq port32_def)

lemma PortModV1_layout:
  assumes "length h = 8" "length port = 2" "length hw = 6" "length cfg = 8" "length adv = 4" "length pad = 4"
    and "hdr_length (h @ port @ hw @ cfg @ adv @ pad @ rest) \<ge> 32"
  shows "normalizePortModV1 junk (h @ port @ hw @ cfg @ adv @ pad @ rest) =
    Inr (h @ be32 (port32 port) @ zeros 4 @ hw @ zeros 2 @ cfg @ be32 8 @
      be32 (OFPPortFeaturesFlagsConvertFromV1 (rd32 0 adv)) @ rest)"
  using assms by (simp add: normalizePortModV1_def normPortNumberV1_middle buf_ops field_reads)

lemma PortModV2_layout:
  assumes "length h = 32" "length adv = 4" "length pad = 4" and "hdr_length (h @ adv @ pad @ rest) \<ge> 40"
  shows "normalizePortModV2 (h @ adv @ pad @ rest) = Inr (h @ be32 8 @ be32 (rd32 0 adv) @ rest)"
  using assms by (simp add: normalizePortModV2_def buf_ops field_reads)

definition std_match_of :: "bytes \<Rightarrow> StandardMatch" where
  "std_match_of m = StandardMatch_fromOriginal (OriginalMatch_at 0 m)"

lemma OriginalMatch_at_middle: "length m = 40 \<Longrightarrow> OriginalMatch_at (length A) (A @ m @ R) = OriginalMatch_at 0 m"
  by (simp add: OriginalMatch_at_def rd_defs sub_bytes_def)

lemma original_match_middle:
  "n = length A \<Longrightarrow> length m = 40 \<Longrightarrow> original_match n (A @ m @ R) = Inr (std_match_of m)"
  by (simp add: original_match_def OriginalMatch_at_middle std_match_of_def)

lemma length_std_match_of [simp]: "length m = 40 \<Longrightarrow> length (StandardMatch_bytes (std_match_of m)) = 88"
  by (simp add: std_match_of_def length_StandardMatch_bytes)

lemma FlowRemovedV1_layout:
  assumes "length h = 8" "length m = 40" "length rest = 40" and "hdr_length (h @ m @ rest) = 88"
  shows "normalizeFlowRemovedV1 junk (h @ m @ rest) = Inr (h @ rest @ StandardMatch_bytes (std_match_of m))"
  using assms by (simp add: normalizeFlowRemovedV1_def original_match_middle buf_ops)

lemma MPFlowRequestV1_layout:
  assumes "length h = 16" "length m = 40" "length table = 2" "length port = 2"
  shows "normalizeMPFlowRequestV1 junk (h @ m @ table @ port) =
    Inr (h @ table @ zeros 2 @ be32 (port32 port) @ zeros 24 @ StandardMatch_bytes (std_match_of m))"
proof -
  have "normPortNumberV1 58 (h @ m @ table @ port @ uninit junk 76) = Inr (port32 port)"
    using assms normPortNumberV1_middle [of "h @ m @ table" 58 port "uninit junk 76"] by simp
  with assms show ?thesis
    by (simp add: normalizeMPFlowRequestV1_def original_match_middle buf_ops Let_def)
qed

lemma ExperimenterV1_layout:
  assumes "length h = 12" and "12 \<le> hdr_length (h @ rest)" "hdr_length (h @ rest) \<le> 65531"
  shows "normalizeExperimenterV1 (h @ rest) = Inr (h @ zeros 4 @ rest)"
  using assms by (simp add: normalizeExperimenterV1_def buf_ops)

lemma AsyncConfigV4_layout:
  assumes "length h = 8" "length m0 = 4" "length m1 = 4" "length m2 = 4" "length m3 = 4" "length m4 = 4" "length m5 = 4"
    and "hdr_length (h @ m0 @ m1 @ m2 @ m3 @ m4 @ m5) = 32"
  shows "normalizeAsyncConfigV4 junk (h @ m0 @ m1 @ m2 @ m3 @ m4 @ m5) =
    Inr (h @ (be16 0 @ be16 8 @ m1) @ (be16 1 @ be16 8 @ m0) @ (be16 2 @ be16 8 @ m3) @
      (be16 3 @ be16 8 @ m2) @ (be16 4 @ be16 8 @ m5) @ be16 5 @ be16 8 @ m4)"
  using assms by (simp add: normalizeAsyncConfigV4_def buf_ops Let_def)

definition new_ports :: "(nat \<Rightarrow> PortBuilder) \<Rightarrow> nat \<Rightarrow> bytes" where
  "new_ports port n = concat (map (\<lambda>i. PortBuilder_bytes (port i)) [0..<n])"

lemma PortsV1_loop_eq:
  "p + 48 * n \<le> length buf \<Longrightarrow>
   PortsV1_loop n p buf acc = Inr (acc @ new_ports (\<lambda>i. PortBuilder_fromV1 (PortV1_at (p + 48 * i) buf)) n)"
proof (induction n arbitrary: p acc)
  case (Suc n)
  have "[0..<Suc n] = 0 # map Suc [0..<n]" by (simp add: map_Suc_upt upt_conv_Cons)
  then show ?case using Suc by (simp add: new_ports_def comp_def add.assoc)
qed (simp add: new_ports_def)

lemma PortsV2_loop_eq:
  "p + 64 * n \<le> length buf \<Longrightarrow>
   PortsV2_loop n p buf acc = Inr (acc @ new_ports (\<lambda>i. PortBuilder_fromV2 (PortV2_at (p + 64 * i) buf)) n)"
proof (induction n arbitrary: p acc)
  case (Suc n)
  have "[0..<Suc n] = 0 # map Suc [0..<n]" by (simp add: map_Suc_upt upt_conv_Cons)
  then show ?case using Suc by (simp add: new_ports_def comp_def add.assoc)
qed (simp add: new_ports_def)

definition ports1 :: "nat \<Rightarrow> bytes \<Rightarrow> bytes" where
  "ports1 off buf = new_ports (\<lambda>i. PortBuilder_fromV1 (PortV1_at (off + 48 * i) buf)) ((length buf - off) div 48)"

definition ports2 :: "nat \<Rightarrow> bytes \<Rightarrow> bytes" where
  "ports2 off buf = new_ports (\<lambda>i. PortBuilder_fromV2 (PortV2_at (off + 64 * i) buf)) ((length buf - off) div 64)"

lemma length_new_ports:
  "(\<And>i. i < n \<Longrightarrow> length (PortBuilder_bytes (port i)) = 72) \<Longrightarrow> length (new_ports port n) = 72 * n"
  by (induction n) (simp_all add: new_ports_def)

lemma element_inside:
  assumes "off \<le> l" and "i < (l - off) div k" and "0 < k"
  shows "off + k * i + k \<le> (l :: nat)"
proof -
  have "k * (i + 1) \<le> k * ((l - off) div k)" using assms by (intro mult_le_mono2) simp
  also have "\<dots> \<le> l - off" by simp
  finally show ?thesis using assms(1) by simp
qed

lemma length_ports:
  assumes "off \<le> length buf"
  shows "length (ports1 off buf) = 72 * ((length buf - off) div 48)"
    and "length (ports2 off buf) = 72 * ((length buf - off) div 64)"
  unfolding ports1_def ports2_def
  using element_inside [OF assms, of _ 48] element_inside [OF assms, of _ 64]
  by (auto intro!: length_new_ports length_PortBuilder_bytes)

lemma ports_loops:
  assumes "off \<le> length buf"
  shows "PortsV1_loop ((length buf - off) div 48) off buf [] = Inr (ports1 off buf)"
    and "PortsV2_loop ((length buf - off) div 64) off buf [] = Inr (ports2 off buf)"
proof -
  have "off + 48 * ((length buf - off) div 48) \<le> length buf" "off + 64 * ((length buf - off) div 64) \<le> length buf"
    using times_div_less_eq_dividend [of 48 "length buf - off"] times_div_less_eq_dividend [of 64 "length buf - off"] assms
    by linarith+
  then show "PortsV1_loop ((length buf - off) div 48) off buf [] = Inr (ports1 off buf)"
    "PortsV2_loop ((length buf - off) div 64) off buf [] = Inr (ports2 off buf)"
    by (simp_all add: PortsV1_loop_eq PortsV2_loop_eq ports1_def ports2_def)
qed

lemma copy_ports_eq:
  assumes "off \<le> length buf" and "length buf - off \<le> length ports"
  shows "copy_ports junk off ports (length buf - off) buf = Inr (take off buf @ ports)"
  using assms by (simp add: copy_ports_def Let_def assertE_def buf_put_def overwrite_def)

lemma FeaturesReplyV1_eq:
  assumes "hdr_length buf = length buf"
  shows "normalizeFeaturesReplyV1 junk buf = Inr
    (if length buf < 32 \<or> (length buf - 32) mod 48 \<noteq> 0 then markInputInvalid buf
     else if length (ports1 32 buf) > 65503 then markInputTooBig buf
     else take 32 buf @ ports1 32 buf)"
proof (cases "length buf < 32 \<or> (length buf - 32) mod 48 \<noteq> 0")
  case False
  then have "length buf - 32 \<le> length (ports1 32 buf)" by (auto simp: length_ports) 
  with False assms show ?thesis
    by (auto simp: normalizeFeaturesReplyV1_def Let_def ports_loops copy_ports_eq)
qed (use assms in \<open>auto simp: normalizeFeaturesReplyV1_def Let_def\<close>)

lemma div_grow: "(n :: nat) mod 64 = 0 \<Longrightarrow> n \<le> 72 * (n div 64)" "n mod 48 = 0 \<Longrightarrow> n \<le> 72 * (n div 48)"
  using div_mult_mod_eq [of n 64] div_mult_mod_eq [of n 48] by linarith+

lemma FeaturesReplyV2_eq:
  assumes "hdr_length buf = length buf"
  shows "normalizeFeaturesReplyV2 junk buf = Inr
    (if length buf < 32 \<or> (length buf - 32) mod 64 \<noteq> 0 then markInputInvalid buf
     else if length (ports2 32 buf) > 65503 then markInputTooBig buf
     else take 32 buf @ ports2 32 buf)"
proof (cases "length buf < 32 \<or> (length buf - 32) mod 64 \<noteq> 0")
  case False
  then have "length buf - 32 \<le> length (ports2 32 buf)" by (auto simp: length_ports intro: div_grow)
  with False assms show ?thesis
    by (auto simp: normalizeFeaturesReplyV2_def Let_def ports_loops copy_ports_eq)
qed (use assms in \<open>auto simp: normalizeFeaturesReplyV2_def Let_def\<close>)

lemma PortDescReplyV1_eq:
  assumes "16 \<le> length buf"
  shows "normalizeMPPortDescReplyV1 junk buf = Inr
    (if (length buf - 16) mod 48 \<noteq> 0 then markInputInvalid buf else take 16 buf @ ports1 16 buf)"
  using assms by (auto simp: normalizeMPPortDescReplyV1_def Let_def ports_loops copy_ports_eq length_ports div_grow)

lemma PortDescReplyV4_eq:
  assumes "16 \<le> length buf"
  shows "normalizeMPPortDescReplyV4 junk buf = Inr
    (if (length buf - 16) mod 64 \<noteq> 0 then markInputInvalid buf else take 16 buf @ ports2 16 buf)"
  using assms by (auto simp: normalizeMPPortDescReplyV4_def Let_def ports_loops copy_ports_eq length_ports div_grow)

lemma PortStatusV1_eq:
  assumes "hdr_length buf = length buf"
  shows "normalizePortStatusV1 junk buf = Inr
    (if length buf \<noteq> 64 then markInputInvalid buf
     else take 16 buf @ PortBuilder_bytes (PortBuilder_fromV1 (PortV1_at 16 buf)))"
  using assms by (simp add: normalizePortStatusV1_def Let_def buf_put_def overwrite_def)

lemma PortStatusV2_eq:
  assumes "hdr_length buf = length buf"
  shows "normalizePortStatusV2 junk buf = Inr
    (if length buf \<noteq> 80 then markInputInvalid buf
     else take 16 buf @ PortBuilder_bytes (PortBuilder_fromV2 (PortV2_at 16 buf)))"
  using assms by (simp add: normalizePortStatusV2_def Let_def buf_put_def overwrite_def)

definition norm_acts :: "bool \<Rightarrow> byte \<Rightarrow> byte \<Rightarrow> bytes list \<Rightarrow> bytes" where
  "norm_acts little version ipProto as = concat (map (norm_action little version ipProto) as)"

lemma tiles_of_actions:
  "\<forall>a\<in>set as. action_wf a \<Longrightarrow> \<exists>ps. tiles (elem_jump 4 2 8 (A @ concat as @ R)) (length A) ps (length A + length (concat as)) \<and>
     (\<forall>p\<in>set ps. elem_ok 4 2 8 (A @ concat as @ R) p \<and> (\<exists>a\<in>set as. get16 p (A @ concat as @ R) = Inr (rd16 0 a)))"
proof (induction as arbitrary: A)
  case Nil
  then show ?case by (intro exI [of _ "[]"]) simp
next
  case (Cons a as)
  let ?msg = "A @ a @ concat as @ R"
  have a: "action_wf a" and len: "8 \<le> length a" "length a mod 8 = 0" using Cons.prems action_wf_length by auto
  have size: "elem_size 4 2 ?msg (length A) = unat (rd16 2 a)"
    using len by (simp add: elem_size_def rd_middle PROTOCOL_ITERATOR_SIZE_FIXED_def PROTOCOL_ITERATOR_SIZE_CONDITIONAL_def)
  then have j: "elem_jump 4 2 8 ?msg (length A) = length a" using a by (simp add: elem_jump_def action_wf_def)
  then have ok: "elem_ok 4 2 8 ?msg (length A)" using a len by (simp add: elem_ok_def size action_wf_def)
  have g: "get16 (length A) ?msg = Inr (rd16 0 a)" using get_middle(1) [of 0 a A] len by simp
  from Cons.IH [of "A @ a"] Cons.prems obtain ps where
    "tiles (elem_jump 4 2 8 ?msg) (length A + length a) ps (length A + (length a + length (concat as)))"
    "\<forall>p\<in>set ps. elem_ok 4 2 8 ?msg p \<and> (\<exists>a\<in>set as. get16 p ?msg = Inr (rd16 0 a))"
    by (auto simp: add.assoc)
  with j ok g len show ?case by (intro exI [of _ "length A # ps"]) auto
qed

lemma foldE_const: "(\<And>p. p \<in> set ps \<Longrightarrow> body p s = Inr s) \<Longrightarrow> foldE body ps s = Inr s"
  by (induction ps) simp_all

text \<open>The action types of version 1 have no check of their own.\<close>

lemma plain_actions_accepted:
  assumes "action_list acts = Some as" and "\<forall>a\<in>set as. rd16 0 a \<le> 11" and "length A = b" and "b mod 8 = 0"
  shows "ActionRange_validateInput (A @ acts @ R) (b, length acts) ctx = Inr ctx"
proof -
  let ?msg = "A @ acts @ R"
  have wf: "\<forall>a\<in>set as. action_wf a" and acts: "acts = concat as" using assms(1) by (simp_all add: action_list_eq)
  obtain ps where t: "tiles (elem_jump 4 2 8 ?msg) b ps (b + length acts)"
    and ok: "\<forall>p\<in>set ps. elem_ok 4 2 8 ?msg p" "\<forall>p\<in>set ps. \<exists>a\<in>set as. get16 p ?msg = Inr (rd16 0 a)"
    using tiles_of_actions [OF wf, of A R] assms(3) acts by auto
  have room: "b + length acts \<le> length ?msg" using assms(3) by simp
  have "length acts mod 8 = 0"
    unfolding acts using wf action_wf_length(2) by (induction as) (simp_all add: mod_add_multiple)
  with elem.IsProtocolRangeValid_iff [OF room, of ActionItem] t ok(1) assms(4)
  have "IsProtocolRangeValid 4 2 8 ?msg (b, length acts) = Inr ()" by (auto simp: elem_params)
  moreover have "for_range 4 2 8 ?msg body b (b + length acts) ctx = foldE body ps ctx" for body
    using elem.for_range_tiles [where t = ActionItem, unfolded elem_params, OF t room ok(1)] .
  moreover have "Action_validateInput ?msg p ctx = Inr ctx" if "p \<in> set ps" for p
  proof -
    from that ok(2) assms(2) obtain x where "get16 p ?msg = Inr x" "x \<le> 11" by auto
    moreover from this have "x \<noteq> OFPAT_SET_FIELD" "x \<noteq> OFPAT_EXPERIMENTER"
      by (auto simp: OFPAT_SET_FIELD_def OFPAT_EXPERIMENTER_def)
    ultimately show ?thesis by (simp add: Action_validateInput_def)
  qed
  ultimately show ?thesis
    by (simp add: ActionRange_validateInput_def ProtocolRange_validateInput_def elem_params foldE_const accept_def)
qed

lemma action_list_Nil: "action_list acts = Some as \<Longrightarrow> acts = [] \<longleftrightarrow> as = []"
  using action_wf_length(1) [of "[]"] by (cases as) (auto simp: action_list_eq)

lemma plain_actions_run:
  assumes "action_list acts = Some as" and "\<forall>a\<in>set as. rd16 0 a \<le> 11" and "length A = b" and "b mod 8 = 0" and "A \<noteq> []"
  shows "validated (ActionRange_validateInput (A @ acts @ R) (b, length acts) ctx) invalid
      (bindE (normActionsV1orV2 little junk (b, length acts) ipProto (A @ acts @ R)) f) =
    f (int (length (norm_acts little (hd A) ipProto as)) - int (length acts), A @ norm_acts little (hd A) ipProto as @ R)"
  using plain_actions_accepted [OF assms(1-4), of R ctx] assms
    normActions_loop_middle [of as A little junk ipProto 0 R]
  by (auto simp: validated_def normActionsV1orV2_def Let_def action_list_eq norm_acts_def)

text \<open>An accepted action range is rewritten; a rejected one marks the message.\<close>

lemma validated_actions:
  assumes "buf = A @ acts @ R" and "length A = b" and "length acts = n" and "b mod 8 = 0" and "A \<noteq> []"
  shows "(\<exists>as. action_list acts = Some as \<and>
      validated (ActionRange_validateInput buf (b, n) ctx) invalid
        (bindE (normActionsV1orV2 little junk (b, n) ipProto buf) f) =
      f (int (length (concat (map (norm_action little (hd A) ipProto) as))) - int n,
        A @ concat (map (norm_action little (hd A) ipProto) as) @ R)) \<or>
    validated (ActionRange_validateInput buf (b, n) ctx) invalid
      (bindE (normActionsV1orV2 little junk (b, n) ipProto buf) f) = invalid"
proof -
  have room: "b + n \<le> length buf" and acts: "sub_bytes b n buf = acts" using assms by (simp_all add: sub_bytes_def)
  have "safely (\<lambda>c. c = ctx \<and> elems_ok ActionItem buf (b, n)) (ActionRange_validateInput buf (b, n) ctx)"
    using ActionRange_validateInput_safe [of "(b, n)" buf ctx] room by simp
  then consider e where "ActionRange_validateInput buf (b, n) ctx = Inl (Invalid e)"
    | c where "ActionRange_validateInput buf (b, n) ctx = Inr c" "elems_ok ActionItem buf (b, n)"
    by (cases "ActionRange_validateInput buf (b, n) ctx") (auto simp: safely_def split: fault.splits)
  then show ?thesis
  proof cases
    case 1
    then show ?thesis by (simp add: validated_def)
  next
    case 2
    then obtain as where as: "action_list acts = Some as" using elems_ok_actions room acts by metis
    then have wf: "\<forall>a\<in>set as. action_wf a" "acts = concat as" by (simp_all add: action_list_eq)
    have "normActionsV1orV2 little junk (b, n) ipProto buf =
        Inr (int (length (concat (map (norm_action little (hd A) ipProto) as))) - int n,
          A @ concat (map (norm_action little (hd A) ipProto) as) @ R)"
      using normActions_loop_middle [OF wf(1), of A little junk ipProto 0 R] assms wf(2)
      by (simp add: normActionsV1orV2_def Let_def)
    with as 2 show ?thesis by (auto simp: validated_def)
  qed
qed

lemma word_len_change: "of_nat n + of_int (int k - int n) = (of_nat k :: 'a::len word)"
  by (metis add_diff_cancel_left' diff_add_eq of_int_add of_int_of_nat_eq add_diff_eq)

text \<open>Before the action length is written, two bytes of the new buffer are uninitialized.\<close>

lemma PacketOutV1_run:
  fixes h port alen acts rest :: bytes
  defines "buf \<equiv> h @ port @ alen @ acts @ rest"
  assumes seg: "length h = 12" "length port = 2" "length alen = 2"
    and n: "unat (rd16 0 alen) = length acts" "length acts mod 8 = 0"
    and len: "16 \<le> hdr_length buf" "length buf \<le> 65527"
  obtains A where "length A = 24" "A \<noteq> []" "hd A = hd h"
    "normalizePacketOutV1 little junk buf =
      (if acts \<noteq> [] then
         validated (ActionRange_validateInput (A @ acts @ rest) (24, length acts) null_context) (Inr (markInputInvalid (A @ acts @ rest)))
           (bindE (normActionsV1orV2 little junk (24, length acts) 0 (A @ acts @ rest)) (\<lambda>(lengthChange, buf).
            buf_put 16 (be16 (of_nat (length acts) + of_int lengthChange)) buf))
       else buf_put 16 (be16 0) (A @ rest))"
    "\<And>x ys. buf_put 16 (be16 x) (A @ ys) = Inr (h @ be32 (port32 port) @ be16 x @ zeros 6 @ ys)"
proof -
  define j where "j = sub_bytes 4 2 (uninit junk 8)"
  define A where "A = h @ be32 (port32 port) @ j @ zeros 6"
  let ?b = "A @ acts @ rest"
  have j: "length j = 2" and A: "length A = 24" "A \<noteq> []" "hd A = hd h"
    using seg by (auto simp: j_def A_def hd_append)
  have alen: "rd16 0 alen = of_nat (length acts)" by (simp flip: n(1))
  have "get16 14 (h @ port @ alen @ acts @ rest) = Inr (rd16 0 alen)"
    using get_middle(1) [of 0 alen "h @ port" "acts @ rest"] seg by simp
  moreover have "bindE (buf_insert 12 (uninit junk 8) (h @ port @ alen @ acts @ rest)) (\<lambda>b.
      bindE (buf_put 12 (be32 (port32 port)) b) (\<lambda>b. bindE (buf_put 18 (zeros 6) b) K)) = K ?b"
    for K :: "bytes \<Rightarrow> fault + bytes"
    using seg by (simp add: buf_ops A_def j_def)
  ultimately have "normalizePacketOutV1 little junk buf =
      (if acts \<noteq> [] then
         validated (ActionRange_validateInput ?b (24, length acts) null_context) (Inr (markInputInvalid ?b))
           (bindE (normActionsV1orV2 little junk (24, length acts) 0 ?b) (\<lambda>(lengthChange, buf).
            buf_put 16 (be16 (of_nat (length acts) + of_int lengthChange)) buf))
       else buf_put 16 (be16 0) (A @ rest))"
    using seg n len alen by (simp add: normalizePacketOutV1_def buf_def normPortNumberV1_middle Let_def)
  moreover have "buf_put 16 (be16 x) (A @ ys) = Inr (h @ be32 (port32 port) @ be16 x @ zeros 6 @ ys)" for x ys
    using seg j by (simp add: A_def buf_ops)
  ultimately show ?thesis using that A by blast
qed

definition packet_out_new :: "bytes \<Rightarrow> bytes \<Rightarrow> bytes \<Rightarrow> bytes \<Rightarrow> bytes" where
  "packet_out_new h port ys rest = h @ be32 (port32 port) @ be16 (of_nat (length ys)) @ zeros 6 @ ys @ rest"

lemma PacketOutV1_layout:
  fixes h port alen acts rest :: bytes
  defines "buf \<equiv> h @ port @ alen @ acts @ rest"
  assumes seg: "length h = 12" "length port = 2" "length alen = 2"
    and n: "unat (rd16 0 alen) = length acts" "length acts mod 8 = 0"
    and len: "16 \<le> hdr_length buf" "length buf \<le> 65527"
  shows "(\<exists>as. action_list acts = Some as \<and> normalizePacketOutV1 little junk buf =
      Inr (packet_out_new h port (norm_acts little (hd h) 0 as) rest)) \<or>
    (\<exists>b. normalizePacketOutV1 little junk buf = Inr (markInputInvalid b) \<and> length b = length buf + 8)"
proof -
  from PacketOutV1_run [OF seg n len [unfolded buf_def], of little junk] obtain A where
    A: "length A = 24" "A \<noteq> []" "hd A = hd h"
    and run: "normalizePacketOutV1 little junk buf =
      (if acts \<noteq> [] then
         validated (ActionRange_validateInput (A @ acts @ rest) (24, length acts) null_context) (Inr (markInputInvalid (A @ acts @ rest)))
           (bindE (normActionsV1orV2 little junk (24, length acts) 0 (A @ acts @ rest)) (\<lambda>(lengthChange, buf).
            buf_put 16 (be16 (of_nat (length acts) + of_int lengthChange)) buf))
       else buf_put 16 (be16 0) (A @ rest))"
    and put: "\<And>x ys. buf_put 16 (be16 x) (A @ ys) = Inr (h @ be32 (port32 port) @ be16 x @ zeros 6 @ ys)"
    unfolding buf_def by metis
  note validated_actions [of "A @ acts @ rest" A acts rest 24 "length acts" null_context "Inr (markInputInvalid (A @ acts @ rest))" little junk 0
      "\<lambda>(lengthChange, buf). buf_put 16 (be16 (of_nat (length acts) + of_int lengthChange)) buf"]
  with A seg show ?thesis
    unfolding run put
    by (cases "acts = []") (auto simp: word_len_change norm_acts_def action_list.simps [of "[]"] buf_def put packet_out_new_def)
qed

lemma PacketOutV1_plain:
  fixes h port alen acts rest :: bytes
  defines "buf \<equiv> h @ port @ alen @ acts @ rest"
  assumes seg: "length h = 12" "length port = 2" "length alen = 2"
    and n: "unat (rd16 0 alen) = length acts" "length acts mod 8 = 0"
    and len: "16 \<le> hdr_length buf" "length buf \<le> 65527"
    and acts: "action_list acts = Some as" "\<forall>a\<in>set as. rd16 0 a \<le> 11"
  shows "normalizePacketOutV1 little junk buf = Inr (packet_out_new h port (norm_acts little (hd h) 0 as) rest)"
proof -
  from PacketOutV1_run [OF seg n len [unfolded buf_def], of little junk] obtain A where
    A: "length A = 24" "A \<noteq> []" "hd A = hd h"
    and run: "normalizePacketOutV1 little junk buf =
      (if acts \<noteq> [] then
         validated (ActionRange_validateInput (A @ acts @ rest) (24, length acts) null_context) (Inr (markInputInvalid (A @ acts @ rest)))
           (bindE (normActionsV1orV2 little junk (24, length acts) 0 (A @ acts @ rest)) (\<lambda>(lengthChange, buf).
            buf_put 16 (be16 (of_nat (length acts) + of_int lengthChange)) buf))
       else buf_put 16 (be16 0) (A @ rest))"
    and put: "\<And>x ys. buf_put 16 (be16 x) (A @ ys) = Inr (h @ be32 (port32 port) @ be16 x @ zeros 6 @ ys)"
    unfolding buf_def by metis
  have "acts = [] \<longleftrightarrow> as = []" using acts(1) by (rule action_list_Nil)
  with A show ?thesis
    unfolding run by (simp add: plain_actions_run [OF acts A(1) _ A(2)] put word_len_change packet_out_new_def norm_acts_def)
qed

definition flow_mod_fields :: "bytes \<Rightarrow> bytes \<Rightarrow> bytes \<Rightarrow> bytes \<Rightarrow> bytes \<Rightarrow> bytes" where
  "flow_mod_fields h cookie cmd port flags =
     h @ cookie @ replicate 8 0xFF @ cmd @ be32 (port32 port) @ zeros 4 @ flags @ zeros 2"

lemma FlowModV1_fields:
  fixes K :: "bytes \<Rightarrow> fault + bytes"
  assumes "length h = 8" "length m = 40" "length cookie = 8" "length cmd = 12" "length port = 2" "length flags = 2"
  shows "bindE (buf_copy 8 48 8 (h @ m @ cookie @ cmd @ port @ flags @ acts)) (\<lambda>buf.
      bindE (buf_put 16 (replicate 8 0xFF) buf) (\<lambda>buf. bindE (buf_copy 24 56 12 buf) (\<lambda>buf.
      bindE (buf_put 36 (be32 (port32 port)) buf) (\<lambda>buf. bindE (buf_put 40 (zeros 4) buf) (\<lambda>buf.
      bindE (buf_copy 44 70 2 buf) (\<lambda>buf. bindE (buf_put 46 (zeros 2) buf) K)))))) =
    K (flow_mod_fields h cookie cmd port flags @ (cookie @ cmd @ port @ flags) @ acts)"
  using assms by (simp add: buf_ops flow_mod_fields_def)

lemma FlowModV1_match:
  fixes K :: "bytes \<Rightarrow> fault + bytes"
  assumes "length pre = 48" "length old = 24" "length std = 88"
  shows "bindE (buf_insert 48 (uninit junk 64) (pre @ old @ acts)) (\<lambda>buf. bindE (buf_put 48 std buf) K) = K (pre @ std @ acts)"
    and "bindE (buf_insert 48 (uninit junk 72) (pre @ old @ acts)) (\<lambda>buf. bindE (buf_put 48 std buf) K) =
      K (pre @ std @ drop 16 old @ acts)"
  using assms by (simp_all add: buf_ops)

definition flow_mod_moved :: "bytes \<Rightarrow> bytes \<Rightarrow> bytes \<Rightarrow> bytes \<Rightarrow> bytes \<Rightarrow> bytes \<Rightarrow> bytes" where
  "flow_mod_moved h m cookie cmd port flags =
     flow_mod_fields h cookie cmd port flags @ StandardMatch_bytes (std_match_of m) @ drop 16 (cookie @ cmd @ port @ flags)"

lemma FlowModV1_run:
  fixes h m cookie cmd port flags acts :: bytes
  defines "buf \<equiv> h @ m @ cookie @ cmd @ port @ flags @ acts" and "A \<equiv> flow_mod_moved h m cookie cmd port flags"
  assumes seg: "length h = 8" "length m = 40" "length cookie = 8" "length cmd = 12" "length port = 2" "length flags = 2"
    and len: "72 \<le> hdr_length buf" "length buf \<le> 65463" and n: "length acts mod 8 = 0"
  shows "normalizeFlowModV1 little junk buf =
    (if acts = [] then Inr (flow_mod_fields h cookie cmd port flags @ StandardMatch_bytes (std_match_of m))
     else validated (ActionRange_validateInput (A @ acts @ []) (144, length acts) null_context)
       (Inr (markInputInvalid (A @ acts @ [])))
       (bindE (normActionsV1orV2 little junk (144, length acts) (sm_nw_proto (std_match_of m)) (A @ acts @ [])) (\<lambda>(delta, buf).
        buf_put 136 (be16 OFPIT_APPLY_ACTIONS @ be16 (of_int (int (length acts) + 8 + delta)) @ zeros 4) buf)))"
proof -
  define pre where "pre = flow_mod_fields h cookie cmd port flags"
  define std where "std = StandardMatch_bytes (std_match_of m)"
  define old where "old = cookie @ cmd @ port @ flags"
  have A: "A = pre @ std @ drop 16 old" by (simp add: A_def flow_mod_moved_def pre_def std_def old_def)
  have l: "length pre = 48" "length std = 88" "length old = 24"
    using seg by (auto simp: pre_def std_def old_def flow_mod_fields_def)
  have port: "normPortNumberV1 68 (h @ m @ cookie @ cmd @ port @ flags @ acts) = Inr (port32 port)"
    using seg normPortNumberV1_middle [of "h @ m @ cookie @ cmd" 68 port "flags @ acts"] by simp
  have n16: "length acts mod 65536 = length acts" using len by (simp add: buf_def)
  show ?thesis
    unfolding pre_def [symmetric] std_def [symmetric]
    using seg len n n16 port l
    by (simp add: normalizeFlowModV1_def buf_def original_match_middle FlowModV1_fields FlowModV1_match
        FlowModV1_match(1) [where acts = "[]", simplified] Let_def unat_of_nat A flip: pre_def std_def old_def)
qed

lemma flow_mod_moved_put:
  assumes "length h = 8" "length m = 40" "length cookie = 8" "length cmd = 12" "length port = 2" "length flags = 2"
  shows "buf_put 136 (be16 OFPIT_APPLY_ACTIONS @ be16 (of_int (int n + 8 + (int k - int n))) @ zeros 4)
      (flow_mod_moved h m cookie cmd port flags @ ys @ []) =
    Inr (flow_mod_fields h cookie cmd port flags @ StandardMatch_bytes (std_match_of m) @
      be16 OFPIT_APPLY_ACTIONS @ be16 (of_nat (8 + k)) @ zeros 4 @ ys)"
  using assms by (simp add: flow_mod_moved_def flow_mod_fields_def buf_ops add.commute)

lemma flow_mod_moved_props:
  assumes "length h = 8" "length m = 40" "length cookie = 8" "length cmd = 12" "length port = 2" "length flags = 2"
  shows "length (flow_mod_moved h m cookie cmd port flags) = 144" "flow_mod_moved h m cookie cmd port flags \<noteq> []"
    "hd (flow_mod_moved h m cookie cmd port flags) = hd h"
  using assms by (auto simp: flow_mod_moved_def flow_mod_fields_def hd_append)

text \<open>The message a version 1 flow mod becomes.\<close>

definition flow_mod_new :: "bytes \<Rightarrow> bytes \<Rightarrow> bytes \<Rightarrow> bytes \<Rightarrow> bytes \<Rightarrow> bytes \<Rightarrow> bytes list \<Rightarrow> bytes \<Rightarrow> bytes" where
  "flow_mod_new h m cookie cmd port flags as ys =
     flow_mod_fields h cookie cmd port flags @ StandardMatch_bytes (std_match_of m) @
     (if as = [] then [] else be16 OFPIT_APPLY_ACTIONS @ be16 (of_nat (8 + length ys)) @ zeros 4 @ ys)"

lemma FlowModV1_layout:
  fixes h m cookie cmd port flags acts :: bytes
  defines "buf \<equiv> h @ m @ cookie @ cmd @ port @ flags @ acts"
  assumes seg: "length h = 8" "length m = 40" "length cookie = 8" "length cmd = 12" "length port = 2" "length flags = 2"
    and len: "72 \<le> hdr_length buf" "length buf \<le> 65463" and n: "length acts mod 8 = 0"
  shows "(\<exists>as. action_list acts = Some as \<and> normalizeFlowModV1 little junk buf =
      Inr (flow_mod_new h m cookie cmd port flags as (norm_acts little (hd h) (sm_nw_proto (std_match_of m)) as))) \<or>
    (\<exists>b. normalizeFlowModV1 little junk buf = Inr (markInputInvalid b) \<and> length b = length buf + 72)"
proof (cases "acts = []")
  case True
  then show ?thesis
    using FlowModV1_run [OF seg len [unfolded buf_def] n] unfolding buf_def
    by (intro disjI1 exI [of _ "[]"]) (simp add: action_list.simps [of "[]"] flow_mod_new_def)
next
  case False
  have 144: "(144 :: nat) mod 8 = 0" by simp
  note A = flow_mod_moved_props [OF seg]
  have ne: "action_list acts = Some as \<Longrightarrow> as \<noteq> []" for as using False by (auto simp: action_list_eq)
  let ?A = "flow_mod_moved h m cookie cmd port flags" and ?p = "sm_nw_proto (std_match_of m)"
  let ?f = "\<lambda>(delta, buf). buf_put 136 (be16 OFPIT_APPLY_ACTIONS @ be16 (of_int (int (length acts) + 8 + delta)) @ zeros 4) buf"
  have r: "normalizeFlowModV1 little junk buf =
      validated (ActionRange_validateInput (?A @ acts @ []) (144, length acts) null_context) (Inr (markInputInvalid (?A @ acts @ [])))
        (bindE (normActionsV1orV2 little junk (144, length acts) ?p (?A @ acts @ [])) ?f)"
    using FlowModV1_run [OF seg len [unfolded buf_def] n] False unfolding buf_def by simp
  from validated_actions [OF refl A(1) refl 144 A(2), of acts "[]" null_context "Inr (markInputInvalid (?A @ acts @ []))" little junk ?p ?f]
  consider as where "action_list acts = Some as" "normalizeFlowModV1 little junk buf =
      Inr (flow_mod_fields h cookie cmd port flags @ StandardMatch_bytes (std_match_of m) @
        be16 OFPIT_APPLY_ACTIONS @ be16 (of_nat (8 + length (norm_acts little (hd h) ?p as))) @ zeros 4 @ norm_acts little (hd h) ?p as)"
    | "normalizeFlowModV1 little junk buf = Inr (markInputInvalid (?A @ acts))"
    unfolding r A(3) norm_acts_def prod.case flow_mod_moved_put [OF seg] by auto
  then show ?thesis
  proof cases
    case 1
    with ne [OF 1(1)] show ?thesis by (intro disjI1 exI [of _ as]) (simp add: flow_mod_new_def)
  next
    case 2
    then show ?thesis using A seg by (intro disjI2 exI [of _ "?A @ acts"]) (simp add: buf_def)
  qed
qed

lemma FlowModV1_plain:
  fixes h m cookie cmd port flags acts :: bytes
  defines "buf \<equiv> h @ m @ cookie @ cmd @ port @ flags @ acts"
  assumes seg: "length h = 8" "length m = 40" "length cookie = 8" "length cmd = 12" "length port = 2" "length flags = 2"
    and len: "72 \<le> hdr_length buf" "length buf \<le> 65463" and n: "length acts mod 8 = 0"
    and acts: "action_list acts = Some as" "\<forall>a\<in>set as. rd16 0 a \<le> 11"
  shows "normalizeFlowModV1 little junk buf =
    Inr (flow_mod_new h m cookie cmd port flags as (norm_acts little (hd h) (sm_nw_proto (std_match_of m)) as))"
proof -
  have 144: "(144 :: nat) mod 8 = 0" by simp
  note A = flow_mod_moved_props [OF seg]
  have "acts = [] \<longleftrightarrow> as = []" using acts(1) by (rule action_list_Nil)
  then show ?thesis
    unfolding buf_def FlowModV1_run [OF seg len [unfolded buf_def] n]
      plain_actions_run [OF acts A(1) 144 A(2)] prod.case flow_mod_moved_put [OF seg] A(3)
    by (simp add: flow_mod_new_def)
qed

end
