(* ===== verification/NormalizeSafety.thy ===== *)
theory NormalizeSafety
  imports Normalize
begin

text \<open>
  Normalization of every received message returns, without a fault, a framed message: the loops over
  the elements of a multipart reply, the queue configurations and the dispatch.
\<close>

declare add_2_eq_Suc [simp del] add_2_eq_Suc' [simp del] elem_params [simp del]

section \<open>Loops over the elements of a reply\<close>

declare norm_while.simps [code]

text \<open>
  The contract of an element handler of fixed size \<open>k\<close>: the element at the offset is replaced by its
  new form and the offset moves behind it; a rest that is too short for an element ends the loop,
  possibly with a mark in the header.
\<close>

locale element_rewriter =
  fixes f :: element_handler and k :: nat and g :: "bytes \<Rightarrow> bytes" and short :: "bytes \<Rightarrow> bytes"
  assumes size_pos: "0 < k"
    and step: "length A mod 8 = 0 \<Longrightarrow> A \<noteq> [] \<Longrightarrow> length e = k \<Longrightarrow>
      f (length A) (A @ e @ R) = Inr (length A + length (g e), A @ g e @ R)"
    and new_size: "length e = k \<Longrightarrow> length (g e) mod 8 = 0"
    and too_short: "A \<noteq> [] \<Longrightarrow> R \<noteq> [] \<Longrightarrow> length R < k \<Longrightarrow> f (length A) (A @ R) = Inr (length (A @ R), short (A @ R))"
    and short_size: "b \<noteq> [] \<Longrightarrow> length (short b) = length b"
begin

lemma while_map:
  assumes "length A mod 8 = 0" and "A \<noteq> []" and "\<forall>e\<in>set es. length e = k" and "length R < k"
  shows "norm_while f (length A) (A @ concat es @ R) =
    Some (Inr (if R = [] then A @ concat (map g es) else short (A @ concat (map g es) @ R)))"
  using assms
proof (induction es arbitrary: A)
  case Nil
  show ?case
  proof (cases "R = []")
    case False
    with Nil have "f (length A) (A @ R) = Inr (length (A @ R), short (A @ R))" by (intro too_short)
    with False show ?thesis
      using Nil by (subst norm_while.simps) (simp add: norm_while.simps short_size)
  qed (simp add: norm_while.simps)
next
  case (Cons e es)
  have e: "length e = k" using Cons.prems by simp
  have "norm_while f (length A) (A @ e @ concat es @ R) =
      norm_while f (length (A @ g e)) ((A @ g e) @ concat es @ R)"
    using Cons.prems size_pos e by (subst norm_while.simps) (auto simp: step)
  also have "\<dots> = Some (Inr (if R = [] then (A @ g e) @ concat (map g es) else short ((A @ g e) @ concat (map g es) @ R)))"
    using Cons.prems new_size [OF e] by (intro Cons.IH) (simp_all add: mod_add_multiple)
  finally show ?case by simp
qed

end

lemma split_elements:
  assumes "0 < k"
  obtains es R where "xs = concat es @ R" "\<forall>e\<in>set es. length e = k" "length R < (k :: nat)"
proof -
  have "\<exists>es R. xs = concat es @ R \<and> (\<forall>e\<in>set es. length e = k) \<and> length R < k"
  proof (induction xs rule: length_induct)
    case (1 xs)
    show ?case
    proof (cases "length xs < k")
      case True
      then show ?thesis by (intro exI [of _ "[]"] exI [of _ xs]) simp
    next
      case False
      with assms have "length (drop k xs) < length xs" by simp
      with 1 obtain es R where es: "drop k xs = concat es @ R" "\<forall>e\<in>set es. length e = k" "length R < k" by blast
      have "xs = concat (take k xs # es) @ R" using append_take_drop_id [of k xs] es(1) by simp
      with False es show ?thesis by (intro exI [of _ "take k xs # es"] exI [of _ R]) simp
    qed
  qed
  with that show ?thesis by blast
qed

definition new_table_stats :: "bytes \<Rightarrow> bytes" where
  "new_table_stats e = take 4 e @ zeros 40 @ drop 4 e"

definition new_queue_stats_v1 :: "bytes \<Rightarrow> bytes" where
  "new_queue_stats_v1 e = be32 (port32 (take 2 e)) @ drop 4 e @ zeros 8"

definition new_queue_stats_v3 :: "bytes \<Rightarrow> bytes" where
  "new_queue_stats_v3 e = e @ zeros 8"

definition new_port_stats :: "bytes \<Rightarrow> bytes" where
  "new_port_stats e =
     be16 120 @ sub_bytes 6 2 e @ sub_bytes 0 4 e @ sub_bytes 104 8 e @ sub_bytes 8 64 e @
     be16 0 @ be16 40 @ zeros 4 @ sub_bytes 72 32 e"

definition new_port_stats_v1 :: "bytes \<Rightarrow> bytes" where
  "new_port_stats_v1 e = new_port_stats (be32 (port32 (take 2 e)) @ drop 4 e @ zeros 8)"

definition new_port_stats_v2 :: "bytes \<Rightarrow> bytes" where
  "new_port_stats_v2 e = new_port_stats (e @ zeros 8)"

lemma port_at_start: "length e \<ge> 2 \<Longrightarrow> normPortNumberV1 (length A) (A @ e @ R) = Inr (port32 (take 2 e))"
  using normPortNumberV1_middle [of A "length A" "take 2 e" "drop 2 e @ R"]
  by (simp flip: append_assoc [of "take 2 e"])

lemma put_at_start: "length x \<le> length e \<Longrightarrow> buf_put (length A) x (A @ e @ R) = Inr (A @ (x @ drop (length x) e) @ R)"
  by (simp add: buf_put_def overwrite_def)

lemma insert_behind: "buf_insert (length A + length e) x (A @ e @ R) = Inr (A @ (e @ x) @ R)"
  by (simp add: buf_insert_def insert_at_def)

lemma length_new_port_stats: "length e = 112 \<Longrightarrow> length (new_port_stats e) = 120"
  by (simp add: new_port_stats_def)

interpretation table_stats: element_rewriter normalizeMPTableStatsReplyV4 24 new_table_stats markInputInvalid
  by unfold_locales
    (auto simp: normalizeMPTableStatsReplyV4_def new_table_stats_def insert_middle markInputInvalid_def setVersion_def
      Suc_le_eq)

interpretation queue_stats_v1: element_rewriter "normalizeMPPortOrQueueStatsReplyV1 32" 32 new_queue_stats_v1 "\<lambda>b. b"
proof unfold_locales
  fix A e R :: bytes
  assume e: "length e = 32"
  then show "normalizeMPPortOrQueueStatsReplyV1 32 (length A) (A @ e @ R) =
      Inr (length A + length (new_queue_stats_v1 e), A @ new_queue_stats_v1 e @ R)"
    using insert_behind [of A "be32 (port32 (take 2 e)) @ drop 4 e" "zeros 8" R]
    by (simp add: normalizeMPPortOrQueueStatsReplyV1_def Let_def port_at_start put_at_start new_queue_stats_v1_def)
qed (auto simp: normalizeMPPortOrQueueStatsReplyV1_def new_queue_stats_v1_def)

interpretation queue_stats_v3: element_rewriter "normalizeMPPortOrQueueStatsReplyV3 32" 32 new_queue_stats_v3 "\<lambda>b. b"
proof unfold_locales
  fix A e R :: bytes
  assume e: "length e = 32"
  then show "normalizeMPPortOrQueueStatsReplyV3 32 (length A) (A @ e @ R) =
      Inr (length A + length (new_queue_stats_v3 e), A @ new_queue_stats_v3 e @ R)"
    using insert_behind [of A e "zeros 8" R]
    by (simp add: normalizeMPPortOrQueueStatsReplyV3_def Let_def new_queue_stats_v3_def)
qed (auto simp: normalizeMPPortOrQueueStatsReplyV3_def new_queue_stats_v3_def)

lemma port_stats_v4_step:
  assumes "length A mod 8 = 0" and "length e = 112"
  shows "normalizeMPPortStatsReplyV4 junk (length A) (A @ e @ R) = Inr (length A + 120, A @ new_port_stats e @ R)"
  using assms
  by (simp add: normalizeMPPortStatsReplyV4_def Let_def IsPtrAligned_def buf_ops new_port_stats_def min_def drop_take)

interpretation port_stats_v4: element_rewriter "normalizeMPPortStatsReplyV4 junk" 112 new_port_stats "\<lambda>b. b" for junk
  by unfold_locales
    (simp_all add: port_stats_v4_step length_new_port_stats, simp_all add: normalizeMPPortStatsReplyV4_def)

interpretation port_stats_v2: element_rewriter "normalizeMPPortStatsReplyV2 junk" 104 new_port_stats_v2 "\<lambda>b. b" for junk
proof unfold_locales
  fix A e R :: bytes
  assume e: "length e = 104" and A: "length A mod 8 = 0"
  show "normalizeMPPortStatsReplyV2 junk (length A) (A @ e @ R) =
      Inr (length A + length (new_port_stats_v2 e), A @ new_port_stats_v2 e @ R)"
    using insert_behind [of A e "zeros 8" R] e port_stats_v4_step [OF A, of "e @ zeros 8" junk R]
    by (simp add: normalizeMPPortStatsReplyV2_def Let_def new_port_stats_v2_def length_new_port_stats)
qed (auto simp: normalizeMPPortStatsReplyV2_def new_port_stats_v2_def length_new_port_stats)

interpretation port_stats_v1: element_rewriter "normalizeMPPortStatsReplyV1 junk" 104 new_port_stats_v1 "\<lambda>b. b" for junk
proof unfold_locales
  fix A e R :: bytes
  assume e: "length e = 104" and A: "length A mod 8 = 0"
  let ?e = "be32 (port32 (take 2 e)) @ drop 4 e"
  show "normalizeMPPortStatsReplyV1 junk (length A) (A @ e @ R) =
      Inr (length A + length (new_port_stats_v1 e), A @ new_port_stats_v1 e @ R)"
    using insert_behind [of A ?e "zeros 8" R] e port_stats_v4_step [OF A, of "?e @ zeros 8" junk R]
    by (simp add: normalizeMPPortStatsReplyV1_def Let_def new_port_stats_v1_def length_new_port_stats
        port_at_start put_at_start)
qed (auto simp: normalizeMPPortStatsReplyV1_def new_port_stats_v1_def length_new_port_stats)

section \<open>Every handler returns a message\<close>

definition yields :: "fault + bytes \<Rightarrow> bool" where
  "yields r \<longleftrightarrow> (\<exists>b. r = Inr b \<and> 8 \<le> length b)"

lemma yields_Inr [simp]: "yields (Inr b) \<longleftrightarrow> 8 \<le> length b"
  by (simp add: yields_def)

lemma length_marks [simp]:
  "1 \<le> length b \<Longrightarrow> length (markInputInvalid b) = length b" "1 \<le> length b \<Longrightarrow> length (markInputTooBig b) = length b"
  by (simp_all add: markInputInvalid_def markInputTooBig_def setVersion_def)

lemma segment:
  assumes "n \<le> length xs"
  obtains a b where "xs = a @ b" "length a = n"
  using assms that [of "take n xs" "drop n xs"] by simp

lemma FlowModV1_yields:
  assumes "hdr_length buf = length buf" and "8 \<le> length buf"
  shows "yields (normalizeFlowModV1 little junk buf)"
proof (cases "length buf < 72 \<or> length buf > 65463")
  case True
  with assms show ?thesis by (auto simp: normalizeFlowModV1_def)
next
  case False
  then obtain h b1 where b1: "buf = h @ b1" "length h = 8" by (elim segment [of 8, rotated]) auto
  with False obtain m b2 where b2: "b1 = m @ b2" "length m = 40" by (elim segment [of 40 b1, rotated]) auto
  with False b1 obtain cookie b3 where b3: "b2 = cookie @ b3" "length cookie = 8" by (elim segment [of 8 b2, rotated]) auto
  with False b1 b2 obtain cmd b4 where b4: "b3 = cmd @ b4" "length cmd = 12" by (elim segment [of 12 b3, rotated]) auto
  with False b1 b2 b3 obtain port b5 where b5: "b4 = port @ b5" "length port = 2" by (elim segment [of 2 b4, rotated]) auto
  with False b1 b2 b3 b4 obtain flags acts where b6: "b5 = flags @ acts" "length flags = 2"
    by (elim segment [of 2 b5, rotated]) auto
  note seg = b1(2) b2(2) b3(2) b4(2) b5(2) b6(2)
  have buf: "buf = h @ m @ cookie @ cmd @ port @ flags @ acts" using b1 b2 b3 b4 b5 b6 by simp
  show ?thesis
  proof (cases "length acts mod 8 = 0")
    case True
    from FlowModV1_layout [OF seg _ _ True, of little junk] False assms buf seg show ?thesis
      by (auto simp: flow_mod_new_def flow_mod_fields_def)
  next
    case misaligned: False
    have port: "normPortNumberV1 68 buf = Inr (port32 port)"
      using seg normPortNumberV1_middle [of "h @ m @ cookie @ cmd" 68 port "flags @ acts"] by (simp add: buf)
    have "length acts mod 65536 = length acts" using False seg by (simp add: buf)
    then have "normalizeFlowModV1 little junk buf =
        Inr (markInputInvalid (flow_mod_fields h cookie cmd port flags @ (cookie @ cmd @ port @ flags) @ acts))"
      using seg False assms port misaligned
      by (simp add: normalizeFlowModV1_def buf original_match_middle FlowModV1_fields Let_def unat_of_nat)
    with seg show ?thesis by (simp add: flow_mod_fields_def)
  qed
qed

lemma PacketOutV1_yields:
  assumes "hdr_length buf = length buf" and "8 \<le> length buf"
  shows "yields (normalizePacketOutV1 little junk buf)"
proof (cases "length buf < 16 \<or> length buf > 65527 \<or> unat (rd16 14 buf) mod 8 \<noteq> 0 \<or> 16 + unat (rd16 14 buf) > length buf")
  case True
  with assms show ?thesis
    by (auto simp: normalizePacketOutV1_def normPortNumberV1_eq get16_def Let_def)
next
  case False
  then obtain h b1 where b1: "buf = h @ b1" "length h = 12" by (elim segment [of 12, rotated]) auto
  with False obtain port b2 where b2: "b1 = port @ b2" "length port = 2" by (elim segment [of 2 b1, rotated]) auto
  with False b1 obtain alen b3 where b3: "b2 = alen @ b3" "length alen = 2" by (elim segment [of 2 b2, rotated]) auto
  have alen: "rd16 14 buf = rd16 0 alen"
    using rd_middle(1) [of 0 alen "h @ port" b3] b1 b2 b3 by simp
  with False b1 b2 b3 obtain acts rest where b4: "b3 = acts @ rest" "length acts = unat (rd16 0 alen)"
    by (elim segment [of "unat (rd16 0 alen)" b3, rotated]) auto
  have buf: "buf = h @ port @ alen @ acts @ rest" using b1 b2 b3 b4 by simp
  have *: "unat (rd16 0 alen) = length acts" "length acts mod 8 = 0" using b4 False alen by auto
  from PacketOutV1_layout [OF b1(2) b2(2) b3(2) *, of rest little junk] False assms b1(2) show ?thesis
    unfolding buf by (auto simp: packet_out_new_def)
qed

lemma PortModV1_yields:
  assumes "hdr_length buf = length buf" and "8 \<le> length buf"
  shows "yields (normalizePortModV1 junk buf)"
proof (cases "length buf < 32")
  case True
  with assms show ?thesis by (auto simp: normalizePortModV1_def)
next
  case False
  then show ?thesis
    using assms by (simp add: normalizePortModV1_def normPortNumberV1_eq buf_ops field_reads)
qed

lemma plain_handlers_yield:
  assumes "hdr_length buf = length buf" and "8 \<le> length buf"
  shows "yields (normalizePortModV2 buf)" and "yields (normalizeFeaturesReplyV1 junk buf)"
    and "yields (normalizeFeaturesReplyV2 junk buf)" and "yields (normalizePortStatusV1 junk buf)"
    and "yields (normalizePortStatusV2 junk buf)" and "yields (normalizeExperimenterV1 buf)"
    and "yields (normalizeAsyncConfigV4 junk buf)"
  using assms
  by (simp_all add: FeaturesReplyV1_eq FeaturesReplyV2_eq PortStatusV1_eq PortStatusV2_eq)
    (simp_all add: normalizePortModV2_def normalizeExperimenterV1_def normalizeAsyncConfigV4_def buf_ops field_reads Let_def)

lemma original_match_yields:
  assumes "p + 40 \<le> length buf"
  obtains m where "original_match p buf = Inr m" "length (StandardMatch_bytes m) = 88"
  using assms by (simp add: original_match_def length_StandardMatch_bytes)

lemma FlowRemovedV1_yields:
  assumes "hdr_length buf = length buf" and "8 \<le> length buf"
  shows "yields (normalizeFlowRemovedV1 junk buf)"
proof (cases "length buf = 88")
  case True
  then obtain m where "original_match 8 buf = Inr m" "length (StandardMatch_bytes m) = 88"
    using original_match_yields [of 8 buf] by auto
  with True assms show ?thesis by (simp add: normalizeFlowRemovedV1_def buf_ops)
qed (use assms in \<open>simp add: normalizeFlowRemovedV1_def\<close>)

lemma MPFlowRequestV1_yields:
  assumes "8 \<le> length buf"
  shows "yields (normalizeMPFlowRequestV1 junk buf)"
proof (cases "length buf = 60")
  case True
  then obtain m where "original_match 16 (buf @ uninit junk 76) = Inr m" "length (StandardMatch_bytes m) = 88"
    using original_match_yields [of 16 "buf @ uninit junk 76"] by auto
  with True show ?thesis
    by (simp add: normalizeMPFlowRequestV1_def Let_def normPortNumberV1_eq get16_def buf_ops)
qed (use assms in \<open>simp add: normalizeMPFlowRequestV1_def\<close>)

lemma MultipartRequestV1_yields:
  assumes "hdr_length buf = length buf" and "8 \<le> length buf"
  shows "yields (normalizeMultipartRequestV1 junk buf)"
proof (cases "length buf < 12")
  case False
  let ?buf = "insert_at 12 (zeros 4) buf"
  have "yields (normalizeMPFlowRequestV1 junk ?buf)" using False by (intro MPFlowRequestV1_yields) simp
  moreover have "yields (normalizeMPPortStatsRequestV1 ?buf)"
    by (simp add: normalizeMPPortStatsRequestV1_def normPortNumberV1_eq get16_def buf_put_def overwrite_def) (use False in simp)
  ultimately show ?thesis
    using False assms by (simp add: normalizeMultipartRequestV1_def buf_insert_def get16_def)
qed (use assms in \<open>simp add: normalizeMultipartRequestV1_def\<close>)

text \<open>A reply whose body is rewritten element by element.\<close>

lemma loop_yields:
  assumes "element_rewriter f k g short" and "16 \<le> length buf"
  shows "\<exists>b. norm_while f 16 buf = Some (Inr b) \<and> 8 \<le> length b"
proof -
  have k: "0 < k" using assms(1) by (rule element_rewriter.size_pos)
  obtain h b where buf: "buf = h @ b" "length h = 16" using assms(2) by (rule segment)
  obtain es R where b: "b = concat es @ R" "\<forall>e\<in>set es. length e = k" "length R < k" by (rule split_elements [OF k])
  have "h \<noteq> []" using buf by auto
  with element_rewriter.while_map [OF assms(1), of h es R] buf b
  have "norm_while f 16 buf = Some (Inr (if R = [] then h @ concat (map g es) else short (h @ concat (map g es) @ R)))"
    by simp
  moreover have "length (short (h @ concat (map g es) @ R)) = length (h @ concat (map g es) @ R)"
    using element_rewriter.short_size [OF assms(1)] \<open>h \<noteq> []\<close> by simp
  ultimately show ?thesis using buf by auto
qed

lemmas loops_yield = loop_yields [OF table_stats.element_rewriter_axioms] loop_yields [OF queue_stats_v1.element_rewriter_axioms]
  loop_yields [OF queue_stats_v3.element_rewriter_axioms] loop_yields [OF port_stats_v4.element_rewriter_axioms]
  loop_yields [OF port_stats_v2.element_rewriter_axioms] loop_yields [OF port_stats_v1.element_rewriter_axioms]

definition returns :: "(fault + bytes) option \<Rightarrow> bool" where
  "returns r \<longleftrightarrow> (\<exists>b. r = Some (Inr b) \<and> 8 \<le> length b)"

lemma returns_Some [simp]: "returns (Some r) \<longleftrightarrow> yields r"
  by (auto simp: returns_def yields_def)

lemma replies_return:
  assumes "hdr_length buf = length buf" and "8 \<le> length buf"
  shows "\<not> (12 \<le> length buf \<and> rd16 8 buf = OFPMP_FLOW_DESC) \<Longrightarrow> returns (normalizeMultipartReplyV1 little junk buf)"
    and "returns (normalizeMultipartReplyV2 junk buf)"
    and "\<not> (16 \<le> length buf \<and> rd16 8 buf = OFPMP_GROUP_STATS) \<Longrightarrow> returns (normalizeMultipartReplyV3 junk buf)"
    and "returns (normalizeMultipartReplyV4 junk buf)" and "returns (normalizeMultipartReplyV5 buf)"
proof -
  have "rd16 8 (insert_at 12 (zeros 4) buf) = rd16 8 buf" if "12 \<le> length buf"
    using that rd_prefix(2) [of 8 "take 12 buf"] by (simp add: insert_at_def) (metis append_take_drop_id length_take min.absorb2 rd_prefix(2) numeral_plus_numeral order_refl)
  then show "\<not> (12 \<le> length buf \<and> rd16 8 buf = OFPMP_FLOW_DESC) \<Longrightarrow> returns (normalizeMultipartReplyV1 little junk buf)"
    using assms loops_yield [of "insert_at 12 (zeros 4) buf"]
    by (auto simp: normalizeMultipartReplyV1_def buf_insert_def get16_def returns_def PortDescReplyV1_eq)
qed (use assms loops_yield [of buf] in \<open>auto simp: normalizeMultipartReplyV2_def normalizeMultipartReplyV3_def
    normalizeMultipartReplyV4_def normalizeMultipartReplyV5_def get16_def returns_def PortDescReplyV4_eq\<close>)

lemma QueuePropsV2_loop_safe:
  "pos + left \<le> length buf \<Longrightarrow>
   \<exists>r. QueuePropsV2_loop buf pos left newBuf = Inr r \<and> (\<forall>nb p l. r = Some (nb, p, l) \<longrightarrow> p + l = pos + left)"
proof (induction buf pos left newBuf rule: QueuePropsV2_loop.induct)
  case (1 buf pos left newBuf)
  show ?case
  proof (cases "left > 4 \<and> \<not> (unat (rd16 (pos + 2) buf) > left \<or> unat (rd16 (pos + 2) buf) < 4)")
    case True
    let ?n = "unat (rd16 (pos + 2) buf)"
    have "get16 (pos + 2) buf = Inr (rd16 (pos + 2) buf)" "buf_get pos ?n buf = Inr (sub_bytes pos ?n buf)"
      using True "1.prems" by (auto simp: get16_def buf_get_def)
    moreover from True "1.IH" [OF _ this(1) refl _ this(2)] "1.prems" obtain r where
      "QueuePropsV2_loop buf (pos + ?n) (left - ?n)
        (newBuf @ sub_bytes pos ?n buf @ (if ?n mod 8 \<noteq> 0 then zeros (PadLength ?n - ?n) else [])) = Inr r"
      "\<forall>nb p l. r = Some (nb, p, l) \<longrightarrow> p + l = pos + ?n + (left - ?n)"
      by fastforce
    ultimately show ?thesis
      using True by (subst QueuePropsV2_loop.simps) (simp add: Let_def)
  next
    case False
    then show ?thesis
      using "1.prems" by (subst QueuePropsV2_loop.simps) (auto simp: get16_def Let_def)
  qed
qed

lemma QueuesV2_loop_safe: "ptr + remaining \<le> length buf \<Longrightarrow> \<exists>r. QueuesV2_loop buf ptr remaining newBuf = Inr r"
proof (induction remaining arbitrary: ptr newBuf rule: less_induct)
  case (less remaining)
  show ?case
  proof (cases "remaining > 16 \<and> \<not> (unat (rd16 (ptr + 8) buf) > remaining \<or> unat (rd16 (ptr + 8) buf) < 16)")
    case True
    let ?n = "unat (rd16 (ptr + 8) buf)" and ?h = "newBuf @ sub_bytes ptr 16 buf"
    obtain r where r: "QueuePropsV2_loop buf (ptr + 16) (?n - 16) ?h = Inr r"
      "\<forall>nb p l. r = Some (nb, p, l) \<longrightarrow> p + l = ptr + 16 + (?n - 16)"
      using QueuePropsV2_loop_safe [of "ptr + 16" "?n - 16" buf ?h] True less.prems by auto
    have g: "get16 (ptr + 8) buf = Inr (rd16 (ptr + 8) buf)" "buf_get ptr 16 buf = Inr (sub_bytes ptr 16 buf)"
      using True less.prems by (auto simp: get16_def buf_get_def)
    have IH: "\<exists>r. QueuesV2_loop buf (ptr + ?n) (remaining - ?n) nb = Inr r" for nb
      using True less.prems by (intro less.IH) auto
    have "QueuesV2_loop buf ptr remaining newBuf =
        (case r of None \<Rightarrow> Inr None
         | Some (nb, p, l) \<Rightarrow> if l \<noteq> 0 then Inr None else bindE (assertE (p = ptr + ?n)) (\<lambda>_.
             QueuesV2_loop buf (ptr + ?n) (remaining - ?n) nb))"
      using True g r(1) by (subst QueuesV2_loop.simps) (simp add: Let_def split: option.split prod.split)
    with IH r(2) True show ?thesis by (auto split: option.split)
  next
    case False
    then show ?thesis
      using less.prems by (subst QueuesV2_loop.simps) (auto simp: get16_def Let_def)
  qed
qed

lemma QueueGetConfigReplyV2_yields:
  assumes "hdr_length buf = length buf" and "8 \<le> length buf"
  shows "yields (normalizeQueueGetConfigReplyV2 buf)"
proof (cases "length buf < 16")
  case False
  then obtain r where "QueuesV2_loop buf 16 (length buf - 16) [] = Inr r"
    using QueuesV2_loop_safe [of 16 "length buf - 16" buf "[]"] by auto
  with False assms show ?thesis
    by (auto simp: normalizeQueueGetConfigReplyV2_def SafeByteRange_def Let_def split: option.split)
qed (use assms in \<open>simp add: normalizeQueueGetConfigReplyV2_def\<close>)

lemma QueueList_add_ok:
  assumes "elem_at QueueV1Elem buf b e p" and "e \<le> length buf" and "length buf \<le> 65535" and "16 \<le> b"
  shows "\<exists>s'. QueueList_add p buf s = Inr s'"
proof -
  let ?n = "unat (rd16 (p + 4) buf)"
  have size: "elem_size 8 4 buf p = ?n"
    by (simp add: elem_size_def PROTOCOL_ITERATOR_SIZE_CONDITIONAL_def PROTOCOL_ITERATOR_SIZE_FIXED_def)
  have n: "8 \<le> ?n" "p + ?n \<le> length buf"
    using assms elem.elem_size_le_jump [of QueueV1Elem buf p] by (auto simp: elem_params elem_ok_def Let_def size)
  then have "snd (SafeByteRange p ?n 8) = ?n - 8" by (simp add: SafeByteRange_def)
  with n assms show ?thesis
    by (simp add: QueueList_add_def get16_def Let_def assertE_def unat_of_nat del: of_nat_add)
qed

lemma foldE_total:
  "(\<And>p s. p \<in> set ps \<Longrightarrow> \<exists>s'. body p s = Inr s') \<Longrightarrow> \<exists>s'. foldE body ps s = Inr (s' :: 's)"
proof (induction ps arbitrary: s)
  case (Cons p ps)
  from Cons.prems [of p s] obtain s1 where "body p s = Inr s1" by auto
  with Cons show ?case by auto
qed simp

lemma QueueV1_validateInput_safe:
  "p + 6 \<le> length buf \<Longrightarrow> safely (\<lambda>c. c = ctx) (QueueV1_validateInput buf p ctx)"
  by (simp add: QueueV1_validateInput_def safe_simps)

lemma QueuesV1_yield:
  assumes "16 \<le> length buf" and "length buf \<le> 65535"
  shows "yields (validated (elems_validateInput QueueV1Elem (QueueV1_validateInput buf) buf (16, length buf - 16) null_context)
    (Inr (markInputInvalid buf))
    (bindE (for_range 8 4 8 buf (\<lambda>p. QueueList_add p buf) 16 (length buf) []) (\<lambda>newQueues.
     if length newQueues > 65535 - 16 then Inr (markInputTooBig buf) else Inr (take 16 buf @ newQueues))))"
proof -
  let ?rng = "(16, length buf - 16)" and ?r = "elems_validateInput QueueV1Elem (QueueV1_validateInput buf) buf (16, length buf - 16) null_context"
  have "safely (\<lambda>c. c = null_context \<and> elems_ok QueueV1Elem buf ?rng) ?r"
  proof (rule elems_validateInput_safe)
    fix p assume p: "elem_at QueueV1Elem buf (fst ?rng) (fst ?rng + snd ?rng) p"
    then have "p + 8 \<le> length buf"
      using assms elem.elem_size_le_jump [of QueueV1Elem buf p] by (auto simp: elem_params elem_ok_def Let_def)
    then show "safely (\<lambda>c. c = null_context) (QueueV1_validateInput buf p null_context)"
      by (intro QueueV1_validateInput_safe) simp
  qed (use assms in simp)
  then consider e where "?r = Inl (Invalid e)" | c where "?r = Inr c" "elems_ok QueueV1Elem buf ?rng"
    by (cases ?r) (auto simp: safely_def)
  then show ?thesis
  proof cases
    case 1
    with assms show ?thesis by (simp add: validated_def)
  next
    case 2
    then obtain ps where ps: "tiles (elem_jump 8 4 8 buf) 16 ps (length buf)" "\<forall>p\<in>set ps. elem_ok 8 4 8 buf p"
      using assms by (auto simp: elems_ok_def elem_params)
    have "\<exists>s'. foldE (\<lambda>p. QueueList_add p buf) ps [] = Inr s'"
    proof (rule foldE_total)
      fix p s assume "p \<in> set ps"
      then show "\<exists>s'. QueueList_add p buf s = Inr s'"
        using ps tiles_bounds [OF ps(1)] assms
        by (intro QueueList_add_ok [where b = 16 and e = "length buf"]) (auto simp: elem_params)
    qed
    moreover have "for_range 8 4 8 buf (\<lambda>p. QueueList_add p buf) 16 (length buf) [] = foldE (\<lambda>p. QueueList_add p buf) ps []"
      using elem.for_range_tiles [where t = QueueV1Elem, unfolded elem_params, OF ps(1) order_refl ps(2)] .
    ultimately show ?thesis using 2(1) assms by (auto simp: validated_def)
  qed
qed

lemma QueueGetConfigReplyV1_yields:
  assumes "hdr_length buf = length buf" and "8 \<le> length buf"
  shows "yields (normalizeQueueGetConfigReplyV1 buf)"
proof (cases "length buf < 16")
  case False
  define b where "b = (if Header_version buf = 1 then overwrite 8 (be32 (PortNumber_fromV1 (rd16 8 buf))) buf else buf)"
  have len: "length b = length buf" using False by (simp add: b_def)
  have "length buf \<le> 65535" using assms(1) unsigned_less [of "Header_length buf", where ?'a = nat] by (simp add: hdr_length_def)
  moreover have "bindE (if Header_version buf = 1 then bindE (get16 8 buf) (\<lambda>port. buf_put 8 (be32 (PortNumber_fromV1 port)) buf)
      else Inr buf) K = K b" for K :: "bytes \<Rightarrow> fault + bytes"
    using False by (simp add: b_def get16_def buf_put_def)
  ultimately show ?thesis
    using False assms len QueuesV1_yield [of b]
    by (simp add: normalizeQueueGetConfigReplyV1_def SafeByteRange_def Let_def cong: if_cong)
qed (use assms in \<open>simp add: normalizeQueueGetConfigReplyV1_def\<close>)

section \<open>Normalization of a message\<close>

text \<open>The two replies whose normalization is not safe: version 1 flow statistics and version 3 group
statistics.\<close>

definition norm_unsafe :: "bytes \<Rightarrow> bool" where
  "norm_unsafe msg \<longleftrightarrow>
     rd8 0 msg = 1 \<and> rd8 1 msg = 17 \<and> rd16 8 msg = OFPMP_FLOW_DESC \<or>
     rd8 0 msg = 3 \<and> rd8 1 msg = 19 \<and> rd16 8 msg = OFPMP_GROUP_STATS"

lemma translateType_total: "\<exists>t4. translateType v t 4 = Inr t4"
  using type_ok_all [of v t] by (cases "v = 0") (auto simp: translateType_def type_ok_def split: sum.splits)

lemma translateType_reply: "translateType 1 t 4 = Inr 19 \<Longrightarrow> t = 17"
proof -
  assume *: "translateType 1 t 4 = Inr 19"
  consider "t \<le> 14" | "14 < t" "t \<le> 25" | "25 < t" by (meson not_le)
  then show ?thesis
  proof cases
    case 1
    with * show ?thesis by (auto simp: translateType_def header_consts)
  next
    case 2
    from byte_range_cases [OF this] * show ?thesis by (elim disjE) (simp_all add: translate_defs)
  next
    case 3
    then have "\<not> t \<le> 14" "14 < t" "21 < t" by (auto simp: word_less_nat_alt word_le_nat_alt)
    with * show ?thesis by (simp add: translate_defs)
  qed
qed

lemma translateType_v3: "translateType 3 t 4 = Inr x \<Longrightarrow> x = t \<or> x = OFPT_UNSUPPORTED"
  by (auto simp: translateType_def translateTypeFromVersion_def bindE_eq_Inr split: if_splits)

lemma rd_mark_type:
  assumes "8 \<le> length msg"
  shows "rd16 2 (markInputInvalid msg) = rd16 2 msg" "rd16 2 (setType t msg) = rd16 2 msg"
    "rd16 8 (markInputInvalid msg) = rd16 8 msg" "rd16 8 (setType t msg) = rd16 8 msg"
    "length (setType t msg) = length msg"
  using assms by (simp_all add: markInputInvalid_def setVersion_def setType_def wr8_def rd16_def sub_bytes_overwrite)

lemma norm_begin_framed:
  assumes "framed msg"
  obtains t b where "norm_begin msg = Inr (rd8 0 msg, t, b)" "translateType (rd8 0 msg) (rd8 1 msg) 4 = Inr t"
    "length b = length msg" "hdr_length b = length b" "rd16 8 b = rd16 8 msg"
proof -
  obtain t where t: "translateType (rd8 0 msg) (rd8 1 msg) 4 = Inr t" using translateType_total by blast
  let ?b = "setType t (if t = OFPT_UNSUPPORTED then markInputInvalid msg else msg)"
  have len: "length ?b = length msg" and b: "rd16 2 ?b = rd16 2 msg" "rd16 8 ?b = rd16 8 msg"
    using assms by (auto simp: framed_def rd_mark_type)
  have "hdr_length ?b = length ?b" using assms b(1) len by (simp add: hdr_length_def Header_length_def framed_def)
  moreover from this have "norm_begin msg = Inr (rd8 0 msg, t, ?b)"
    using t assms by (simp add: norm_begin_def Header_version_def Header_type_def Let_def framed_def)
  ultimately show ?thesis using that t len b by blast
qed

lemma norm_finish_framed:
  assumes "8 \<le> length b"
  shows "\<exists>b'. norm_finish b = Inr b' \<and> framed b'"
proof -
  define c where "c = (if length b > OFP_MAX_SIZE then take OFP_MAX_SIZE (markInputTooBig b) else b)"
  have c: "8 \<le> length c" "length c \<le> 65535" using assms by (auto simp: c_def OFP_MAX_SIZE_def)
  then have "rd16 2 (wr16 2 (of_nat (length c)) c) = of_nat (length c)" by simp
  moreover have "unat (of_nat (length c) :: u16) = length c" using c by (simp add: unat_of_nat)
  ultimately have "framed (wr16 2 (of_nat (length c)) c)" "norm_finish b = Inr (wr16 2 (of_nat (length c)) c)"
    unfolding norm_finish_def c_def [symmetric] Let_def
    using c by (simp_all add: framed_def setLength_def hdr_length_def Header_length_def OFP_MAX_SIZE_def)
  then show ?thesis by blast
qed

lemma returns_if: "(c \<Longrightarrow> returns a) \<Longrightarrow> (\<not> c \<Longrightarrow> returns b) \<Longrightarrow> returns (if c then a else b)"
  by simp

lemma norm_dispatch_returns:
  assumes b: "hdr_length b = length b" "8 \<le> length b"
    and "v = 1 \<Longrightarrow> t = 19 \<Longrightarrow> rd16 8 b \<noteq> OFPMP_FLOW_DESC" and "v = 3 \<Longrightarrow> t = 19 \<Longrightarrow> rd16 8 b \<noteq> OFPMP_GROUP_STATS"
  shows "returns (norm_dispatch little junk v t b)"
  unfolding norm_dispatch_def
  by (intro returns_if; use assms(3,4) in \<open>simp add: plain_handlers_yield [OF b] FlowModV1_yields [OF b] PacketOutV1_yields [OF b]
      PortModV1_yields [OF b] FlowRemovedV1_yields [OF b] MultipartRequestV1_yields [OF b] replies_return [OF b]
      QueueGetConfigReplyV1_yields [OF b] QueueGetConfigReplyV2_yields [OF b] b(2) OFPT_MULTIPART_REPLY_def\<close>)

lemma normalize_framed:
  assumes "framed msg" and "\<not> norm_unsafe msg"
  shows "\<exists>msg'. normalize little junk msg = Some (Inr msg') \<and> framed msg'"
proof -
  from norm_begin_framed [OF assms(1)] obtain t b where begin_eq: "norm_begin msg = Inr (rd8 0 msg, t, b)"
    and t: "translateType (rd8 0 msg) (rd8 1 msg) 4 = Inr t"
    and b: "hdr_length b = length b" "8 \<le> length b" "rd16 8 b = rd16 8 msg"
    using assms(1) by (metis framed_def)
  have "rd8 1 msg = 17" if "rd8 0 msg = 1" "t = 19" using t that translateType_reply by simp
  moreover have "rd8 1 msg = 19" if "rd8 0 msg = 3" "t = 19"
    using t that translateType_v3 [of "rd8 1 msg" 19] by (simp add: OFPT_UNSUPPORTED_def)
  ultimately have "returns (norm_dispatch little junk (rd8 0 msg) t b)"
    using assms(2) b by (intro norm_dispatch_returns) (auto simp: norm_unsafe_def)
  then obtain c where "norm_dispatch little junk (rd8 0 msg) t b = Some (Inr c)" "8 \<le> length c" by (auto simp: returns_def)
  with norm_finish_framed [of c] begin_eq show ?thesis by (auto simp: normalize_def)
qed

text \<open>C7: Normalizing any framed message, whatever its version, type and content, returns and gives
again a framed message of at most 65535 bytes, without reading or writing outside of the buffer and
without a failing assertion; the only exceptions are version 1 flow statistics replies and version 3
group statistics replies.\<close>

theorem normalize_returns_framed:
  assumes "framed msg" and "\<not> norm_unsafe msg"
  shows "\<exists>msg'. normalize little junk msg = Some (Inr msg') \<and> framed msg'"
  by (rule normalize_framed [OF assms])

text \<open>What the normalization of a message with a correct length field does, by the first bytes of the
message: it sets the translated type, and finishes by setting the length.\<close>

lemma framed_message:
  assumes "n = 4 + length rest" and "n \<le> 65535" and "4 \<le> length rest"
  shows "framed ([v, t] @ be16 (of_nat n) @ rest)" "hdr_length ([v, t] @ be16 (of_nat n) @ rest) = n"
proof -
  have "rd16 2 (([v, t] @ be16 (of_nat n) @ rest) :: bytes) = of_nat n" by (simp add: rd16_def sub_bytes_def)
  moreover have "unat (of_nat n :: u16) = n" using assms(2) by (simp add: unat_of_nat)
  ultimately show "framed ([v, t] @ be16 (of_nat n) @ rest)" "hdr_length ([v, t] @ be16 (of_nat n) @ rest) = n"
    using assms(1,3) by (simp_all add: framed_def hdr_length_def Header_length_def)
qed

lemma translateType_examples:
  "translateType 1 14 4 = Inr 14" "translateType 1 17 4 = Inr 19" "translateType 3 19 4 = Inr 19"
  by code_simp+

lemma norm_begin_message:
  assumes "n = 4 + length rest" and "n \<le> 65535" and "4 \<le> length rest"
    and "translateType v t 4 = Inr t'" and "t' \<noteq> OFPT_UNSUPPORTED"
  shows "norm_begin ([v, t] @ be16 (of_nat n) @ rest) = Inr (v, t', [v, t'] @ be16 (of_nat n) @ rest)"
proof -
  have "setType t' (v # t # be16 (of_nat n) @ rest) = v # t' # be16 (of_nat n) @ rest"
    by (simp add: setType_def wr8_def overwrite_def)
  then show ?thesis
    using assms framed_message(2) [OF assms(1-3), of v t']
    by (simp add: norm_begin_def Header_version_def Header_type_def Let_def rd8_nth)
qed

lemma norm_finish_eq:
  assumes "4 \<le> length new" and "length new \<le> 65535"
  shows "norm_finish new = Inr (wr16 2 (of_nat (length new)) new)"
  using assms by (simp add: norm_finish_def Let_def OFP_MAX_SIZE_def setLength_def hdr_length_def Header_length_def unat_of_nat)

text \<open>C33: Normalizing a version 1 flow mod whose actions exist in version 1 gives exactly the message
of the new layout: the fields in their new places, the port widened to 32 bits, the match converted,
the actions rewritten one by one and wrapped in an apply-actions instruction, the length field
correct, and no uninitialized byte.\<close>

theorem flow_mod_v1_normalized:
  assumes "length xid = 4" "length m = 40" "length cookie = 8" "length cmd = 12" "length port = 2" "length flags = 2"
    and acts: "action_list acts = Some as" "\<forall>a\<in>set as. rd16 0 a \<le> 11" "length acts \<le> 65391"
    and h: "h = [1, 14] @ be16 (of_nat (72 + length acts)) @ xid"
    and new: "new = flow_mod_new h m cookie cmd port flags as (norm_acts little 1 (sm_nw_proto (std_match_of m)) as)"
      "length new \<le> 65535"
  shows "normalize little junk (h @ m @ cookie @ cmd @ port @ flags @ acts) = Some (Inr (wr16 2 (of_nat (length new)) new))"
proof -
  let ?msg = "h @ m @ cookie @ cmd @ port @ flags @ acts"
  have lh: "length h = 8" "hd h = 1" using assms(1) by (simp_all add: h)
  have hl: "hdr_length ?msg = 72 + length acts" and b: "norm_begin ?msg = Inr (1, 14, ?msg)"
    using framed_message(2) [of "72 + length acts" "xid @ m @ cookie @ cmd @ port @ flags @ acts" 1 14]
      norm_begin_message [of "72 + length acts" "xid @ m @ cookie @ cmd @ port @ flags @ acts" 1 14 14] assms(1-6) acts(3)
    by (simp_all add: h translateType_examples OFPT_UNSUPPORTED_def)
  have "length acts mod 8 = 0"
    using acts(1) action_wf_length(2) unfolding action_list_eq
    by (induction as arbitrary: acts) (auto simp: mod_add_multiple)
  then have "normalizeFlowModV1 little junk ?msg = Inr new"
    using FlowModV1_plain [OF lh(1) assms(2-6) _ _ _ acts(1,2), of little junk] hl acts(3) assms(2-6) lh new(1) by simp
  then have "norm_dispatch little junk 1 14 ?msg = Some (Inr new)"
    by (simp add: norm_dispatch_def OFPT_defs)
  moreover have "norm_finish new = Inr (wr16 2 (of_nat (length new)) new)"
    using new by (intro norm_finish_eq) (simp_all add: flow_mod_new_def flow_mod_fields_def lh)
  ultimately show ?thesis using b by (simp add: normalize_def)
qed

text \<open>A version 1 flow mod that sends every packet to the controller port.\<close>

theorem flow_mod_v1_normalized_witness:
  "normalize True (\<lambda>_. 0xAA) (([1, 14] @ be16 80 @ [0, 0, 0, 1]) @ ([0, 63, 0xFF, 0xFF] @ zeros 36) @ zeros 8 @ zeros 12 @
      [0xFF, 0xFF] @ [0, 1] @ [0, 0, 0, 8, 0xFF, 0xFD, 0, 64]) =
    Some (Inr (wr16 2 160 (flow_mod_new ([1, 14] @ be16 80 @ [0, 0, 0, 1]) ([0, 63, 0xFF, 0xFF] @ zeros 36) (zeros 8) (zeros 12)
      [0xFF, 0xFF] [0, 1] [[0, 0, 0, 8, 0xFF, 0xFD, 0, 64]] [0, 0, 0, 16, 0xFF, 0xFF, 0xFF, 0xFD, 0, 64, 0, 0, 0, 0, 0, 0])))"
proof -
  have r: "rd16 0 [0, 0, 0, 8, 0xFF, 0xFD, 0, 64] = 0" "rd32 0 [0, 0, 0, 8, 0xFF, 0xFD, 0, 64] = 8"
    "norm_output [0, 0, 0, 8, 0xFF, 0xFD, 0, 64] = [0, 0, 0, 16, 0xFF, 0xFF, 0xFF, 0xFD, 0, 64, 0, 0, 0, 0, 0, 0]"
    "action_list [0, 0, 0, 8, 0xFF, 0xFD, 0, 64] = Some [[0, 0, 0, 8, 0xFF, 0xFD, 0, 64]]" "(0 :: u16) \<le> 11"
    by code_simp+
  have n: "norm_acts True 1 p [[0, 0, 0, 8, 0xFF, 0xFD, 0, 64]] = [0, 0, 0, 16, 0xFF, 0xFF, 0xFF, 0xFD, 0, 64, 0, 0, 0, 0, 0, 0]" for p
    by (simp add: norm_acts_def norm_action_def version_type_def r)
  show ?thesis
    using flow_mod_v1_normalized [OF _ _ _ _ _ _ r(4) _ _ refl refl, of "[0, 0, 0, 1]" "[0, 63, 0xFF, 0xFF] @ zeros 36" "zeros 8" "zeros 12"
        "[0xFF, 0xFF]" "[0, 1]" True "\<lambda>_. 0xAA"]
    unfolding n by (simp add: r flow_mod_new_def flow_mod_fields_def)
qed

text \<open>A version 1 port modification cut off after two bytes.\<close>

theorem normalize_returns_framed_witness:
  "framed ([1, 15] @ be16 10 @ zeros 6) \<and>
    (\<exists>msg'. normalize True (\<lambda>_. 0xAA) ([1, 15] @ be16 10 @ zeros 6) = Some (Inr msg') \<and> framed msg')"
proof -
  have "framed ([1, 15] @ be16 10 @ zeros 6)" "\<not> norm_unsafe ([1, 15] @ be16 10 @ zeros 6)" by code_simp+
  with normalize_returns_framed [of "[1, 15] @ be16 10 @ zeros 6" True "\<lambda>_. 0xAA"] show ?thesis by blast
qed

lemma group_stats_step:
  assumes "32 \<le> n"
  shows "normalizeMPGroupStatsReplyV3 32 (length A) (A @ zeros n) =
    Inr (length (A @ [0, 8] @ zeros 6), (A @ [0, 8] @ zeros 6) @ zeros n)"
proof -
  define m where "m = n - 32"
  have m: "n = 2 + (30 + m)" using assms by (simp add: m_def)
  have z: "zeros n = zeros 2 @ zeros 30 @ zeros m" by (simp only: m zeros_def replicate_add)
  have e: "be16 8 @ zeros 6 @ zeros 24 @ zeros 8 = 0 # 8 # zeros 6 @ zeros 2 @ zeros 6 @ zeros 24" by code_simp
  have "zeros 30 = zeros 6 @ zeros 24" by (simp add: zeros_def flip: replicate_add)
  moreover have "get16 (length A) (A @ zeros 2 @ zeros 30 @ zeros m) = Inr 0"
    by (simp add: field_reads sub_bytes_def) (simp add: zeros_def eval_nat_numeral)
  ultimately show ?thesis
    unfolding z using e by (simp add: normalizeMPGroupStatsReplyV3_def Let_def buf_ops)
qed

lemma group_stats_loop:
  assumes n: "32 \<le> n" and "norm_while f off buf = Some y"
  shows "f = normalizeMPGroupStatsReplyV3 32 \<Longrightarrow> buf = A @ zeros n \<Longrightarrow> off \<noteq> length A"
  using assms(2)
proof (induction arbitrary: A rule: norm_while.raw_induct [rotated, consumes 1, case_names step])
  case (step w f off buf y)
  show ?case
  proof
    assume off: "off = length A"
    let ?A = "A @ [0, 8] @ zeros 6"
    have "f off buf = Inr (length ?A, ?A @ zeros n)" unfolding step.prems off by (rule group_stats_step [OF n])
    with step.hyps n off step.prems(2) have "w f (length ?A) (?A @ zeros n) = Some y" by simp
    from step.IH [OF this step.prems(1) refl] show False by simp
  qed
qed




text \<open>C35: A version 1 flow statistics reply that ends in the middle of the length field of an element is
normalized with a read behind the end of the buffer, whatever its other bytes are.\<close>

theorem flow_stats_reply_v1_overread:
  assumes "length xid = 4" and "length flags = 2"
  shows "normalize little junk ([1, 17] @ be16 13 @ xid @ be16 OFPMP_FLOW_DESC @ flags @ [b]) = Some (Inl (OutOfBounds 16 2))"
proof -
  let ?msg = "\<lambda>t. [1, t] @ be16 13 @ xid @ be16 OFPMP_FLOW_DESC @ flags @ [b]"
  have "hdr_length (?msg 19) = 13" and b: "norm_begin (?msg 17) = Inr (1, 19, ?msg 19)"
    using framed_message(2) [of 13 "xid @ be16 OFPMP_FLOW_DESC @ flags @ [b]" 1 19]
      norm_begin_message [of 13 "xid @ be16 OFPMP_FLOW_DESC @ flags @ [b]" 1 17 19] assms
    by (simp_all add: translateType_examples OFPT_UNSUPPORTED_def)
  moreover let ?buf = "[1, 19] @ be16 13 @ xid @ be16 OFPMP_FLOW_DESC @ flags @ zeros 4 @ [b]"
  have "norm_while (normalizeMPFlowReplyV1 little junk) 16 ?buf = Some (Inl (OutOfBounds 16 2))"
    using assms by (simp add: norm_while.simps normalizeMPFlowReplyV1_def get16_def)
  moreover have "buf_insert 12 (zeros 4) (?msg 19) = Inr ?buf" "get16 8 ?buf = Inr OFPMP_FLOW_DESC"
    using assms by (simp_all add: buf_ops field_reads)
  ultimately have "norm_dispatch little junk 1 19 (?msg 19) = Some (Inl (OutOfBounds 16 2))"
    by (simp add: norm_dispatch_def OFPT_defs normalizeMultipartReplyV1_def)
  then show ?thesis using b by (simp add: normalize_def)
qed

theorem flow_stats_reply_v1_overread_witness:
  "normalize True (\<lambda>_. 0) ([1, 17] @ be16 13 @ [0, 0, 0, 1] @ be16 OFPMP_FLOW_DESC @ [0, 0] @ [0]) =
    Some (Inl (OutOfBounds 16 2))"
  by (rule flow_stats_reply_v1_overread) simp_all

section \<open>Statistics replies\<close>

lemma reply_type: "length h = 12 \<Longrightarrow> get16 8 (h @ xs) = Inr (rd16 8 h)"
  by (simp add: field_reads sub_bytes_def)

lemma reply_nonempty: "length h = 12 \<Longrightarrow> h \<noteq> []"
  by auto

lemma reply_insert: "length h = 12 \<Longrightarrow> buf_insert 12 (zeros 4) (h @ xs) = Inr (h @ zeros 4 @ xs)"
  by (simp add: buf_ops)

lemmas reply_defs = normalizeMultipartReplyV1_def normalizeMultipartReplyV2_def normalizeMultipartReplyV3_def
  normalizeMultipartReplyV4_def OFPMP_defs

lemma queue_stats_replies:
  assumes "length h = 12" and "length pad = 4" and "hdr_length (h @ pad @ concat es) \<ge> 16" and "hdr_length (h @ concat es) \<ge> 12"
    and "rd16 8 h = OFPMP_QUEUE_STATS" and "\<forall>e\<in>set es. length e = 32"
  shows "normalizeMultipartReplyV1 little junk (h @ concat es) = Some (Inr (h @ zeros 4 @ concat (map new_queue_stats_v1 es)))"
    and "normalizeMultipartReplyV3 junk (h @ pad @ concat es) = Some (Inr (h @ pad @ concat (map new_queue_stats_v3 es)))"
  using assms reply_nonempty [OF assms(1)] queue_stats_v1.while_map [of "h @ zeros 4" es "[]"] queue_stats_v3.while_map [of "h @ pad" es "[]"]
  by (simp_all add: reply_defs reply_type reply_insert)

text \<open>C36: The port statistics of version 1 to 4 replies are rewritten element by element, in order, into
the version 5 layout; nothing else of a reply changes except the padding behind the header of a version
1 reply.\<close>

theorem port_stats_replies:
  assumes "length h = 12" and "length pad = 4" and "hdr_length (h @ pad @ concat es) \<ge> 16" and "hdr_length (h @ concat es) \<ge> 12"
    and "rd16 8 h = OFPMP_PORT_STATS" and "\<forall>e\<in>set es. length e = 104"
    and "hdr_length (h @ pad @ concat es4) \<ge> 16" and "\<forall>e\<in>set es4. length e = 112"
  shows "normalizeMultipartReplyV1 little junk (h @ concat es) = Some (Inr (h @ zeros 4 @ concat (map new_port_stats_v1 es))) \<and>
      normalizeMultipartReplyV2 junk (h @ pad @ concat es) = Some (Inr (h @ pad @ concat (map new_port_stats_v2 es))) \<and>
      normalizeMultipartReplyV3 junk (h @ pad @ concat es) = Some (Inr (h @ pad @ concat (map new_port_stats_v2 es))) \<and>
      normalizeMultipartReplyV4 junk (h @ pad @ concat es4) = Some (Inr (h @ pad @ concat (map new_port_stats es4)))"
  using assms reply_nonempty [OF assms(1)] port_stats_v1.while_map [of "h @ zeros 4" es "[]" junk] port_stats_v2.while_map [of "h @ pad" es "[]" junk]
    port_stats_v4.while_map [of "h @ pad" es4 "[]" junk]
  by (simp_all add: reply_defs reply_type reply_insert)

text \<open>A reply with two ports.\<close>

theorem port_stats_replies_witness:
  "normalizeMultipartReplyV4 (\<lambda>_. 0xAA) ([4, 19] @ be16 240 @ [0, 0, 0, 1] @ [0, 4] @ [0, 0] @ zeros 4 @ (be32 1 @ zeros 108) @ (be32 2 @ zeros 108)) =
    Some (Inr ([4, 19] @ be16 240 @ [0, 0, 0, 1] @ [0, 4] @ [0, 0] @ zeros 4 @
      (be16 120 @ zeros 2 @ be32 1 @ zeros 72 @ be16 0 @ be16 40 @ zeros 36) @
      (be16 120 @ zeros 2 @ be32 2 @ zeros 72 @ be16 0 @ be16 40 @ zeros 36)))"
proof -
  let ?h = "[4, 19] @ be16 240 @ [0, 0, 0, 1] @ [0, 4] @ [0, 0]" and ?es = "[be32 1 @ zeros 108, be32 2 @ zeros 108]"
  have h: "length ?h = 12" "rd16 8 ?h = OFPMP_PORT_STATS" "hdr_length (?h @ xs) = 240" for xs
  proof -
    show "length ?h = 12" "rd16 8 ?h = OFPMP_PORT_STATS" by code_simp+
    have "rd16 2 (?h @ xs) = 240" by (simp add: rd16_def sub_bytes_def)
    then show "hdr_length (?h @ xs) = 240" by (simp add: hdr_length_def Header_length_def)
  qed
  have "concat (map new_port_stats ?es) = (be16 120 @ zeros 2 @ be32 1 @ zeros 72 @ be16 0 @ be16 40 @ zeros 36) @
      (be16 120 @ zeros 2 @ be32 2 @ zeros 72 @ be16 0 @ be16 40 @ zeros 36)" by code_simp
  then show ?thesis
    using port_stats_replies [OF h(1) _ _ _ h(2) _ _ , of "zeros 4" "[]" ?es True "\<lambda>_. 0xAA"]
    by (simp add: h(3) [simplified])
qed

end
