(* ===== verification/MultipartSend.thy ===== *)
theory MultipartSend
  imports Header
begin

text \<open>
  Sending multipart requests and replies (\<^verbatim>\<open>src/ofp/multipartrequest.cpp\<close>, \<^verbatim>\<open>src/ofp/multipartreply.cpp\<close>):
  the split of a long body at element boundaries (\<^verbatim>\<open>ProtocolRangeSplitOffset\<close> in
  \<^verbatim>\<open>src/ofp/protocoliterator.cpp\<close>), the builders, and the memory channel they write to
  (\<^verbatim>\<open>include/ofp/memorychannel.h\<close>). \<^verbatim>\<open>log::fatal_if_false\<close> ends the program like a failing assertion and has the
  same value here. The loops terminate because every step takes at least one byte.
\<close>

declare add_2_eq_Suc [simp del] add_2_eq_Suc' [simp del] elem_params [simp del]

section \<open>Splitting a range of elements\<close>

function split_loop :: "nat \<Rightarrow> nat \<Rightarrow> nat \<Rightarrow> bytes \<Rightarrow> nat \<Rightarrow> nat \<Rightarrow> nat \<Rightarrow> fault + nat" where
  "split_loop chunkSize minSize sizeFieldOffset msg ptr len result =
     (if len > 0 then
        bindE (assertE (len \<ge> 8)) (\<lambda>_.
        bindE (get16 (ptr + sizeFieldOffset) msg) (\<lambda>size16.
        let elemSize = max minSize (unat size16) in
        bindE (assertE (elemSize > 0)) (\<lambda>_.
        let jumpSize = PadLength elemSize in
        if jumpSize > len then Inr result
        else if result + jumpSize > chunkSize then Inr result
        else
          bindE (assertE (jumpSize mod 8 = 0)) (\<lambda>_.
          split_loop chunkSize minSize sizeFieldOffset msg (ptr + jumpSize) (len - jumpSize) (result + jumpSize)))))
      else Inr result)"
  by pat_completeness auto
termination
  by (relation "measure (\<lambda>(_, _, _, _, _, len, _). len)") (auto simp: assertE_def PadLength_pos split: if_split_asm)

declare split_loop.simps [simp del]

definition ProtocolRangeSplitOffset :: "nat \<Rightarrow> nat \<Rightarrow> bytes \<Rightarrow> ByteRange \<Rightarrow> nat \<Rightarrow> fault + nat" where
  "ProtocolRangeSplitOffset chunkSize elementSize msg rng sizeFieldOffset =
     bindE (assertE (sizeFieldOffset < 32)) (\<lambda>_.
     bindE (assertE (chunkSize \<ge> 8)) (\<lambda>_.
     let ptr = fst rng; len = snd rng in
     bindE (assertE (len mod 8 = 0)) (\<lambda>_.
     bindE (assertE (IsPtrAligned ptr 8)) (\<lambda>_.
     if len \<le> chunkSize then Inr len
     else
       bindE (split_loop chunkSize (sizeFieldOffset + 2) sizeFieldOffset msg ptr len 0) (\<lambda>result.
       bindE (assertE (result mod 8 = 0)) (\<lambda>_.
       bindE (assertE (result \<noteq> 0)) (\<lambda>_. Inr result)))))))"

section \<open>The memory channel\<close>

record MemoryChannel =
  mc_buf :: bytes
  mc_nextXid :: u32
  mc_version :: byte
  mc_flushed :: bool

definition MemoryChannel_make :: "byte \<Rightarrow> MemoryChannel" where
  "MemoryChannel_make version = \<lparr>mc_buf = [], mc_nextXid = 1, mc_version = version, mc_flushed = False\<rparr>"

definition mc_data :: "MemoryChannel \<Rightarrow> fault + bytes" where
  "mc_data ch = bindE (assertE (mc_flushed ch \<or> mc_buf ch = [])) (\<lambda>_. Inr (mc_buf ch))"

definition mc_write :: "bytes \<Rightarrow> MemoryChannel \<Rightarrow> MemoryChannel" where
  "mc_write data ch = ch\<lparr>mc_buf := mc_buf ch @ data\<rparr>"

definition mc_flush :: "MemoryChannel \<Rightarrow> MemoryChannel" where
  "mc_flush ch = ch\<lparr>mc_flushed := True\<rparr>"

definition nextXid :: "MemoryChannel \<Rightarrow> u32 \<times> MemoryChannel" where
  "nextXid ch = (mc_nextXid ch, ch\<lparr>mc_nextXid := mc_nextXid ch + 1\<rparr>)"

definition setNextXid :: "u32 \<Rightarrow> MemoryChannel \<Rightarrow> MemoryChannel" where
  "setNextXid xid ch = ch\<lparr>mc_nextXid := xid\<rparr>"

definition mc_clear :: "MemoryChannel \<Rightarrow> MemoryChannel" where
  "mc_clear ch = ch\<lparr>mc_buf := []\<rparr>"

section \<open>The builders\<close>

text \<open>A builder is the fixed part of its message (16 bytes) and the body.\<close>

record MultipartBuilder =
  mb_msg :: bytes
  mb_body :: bytes

definition MAX_BODY_SIZE :: nat where "MAX_BODY_SIZE = OFP_MAX_SIZE - 16"
definition UnpaddedSizeVersion1 :: nat where "UnpaddedSizeVersion1 = 12"
definition OFPMPF_NONE :: u16 where "OFPMPF_NONE = 0"
definition OFPMPF_MORE :: u16 where "OFPMPF_MORE = 1"
definition v1_OFPT_STATS_REQUEST :: byte where "v1_OFPT_STATS_REQUEST = 16"
definition v1_OFPT_STATS_REPLY :: byte where "v1_OFPT_STATS_REPLY = 17"

definition setMultipartType :: "u16 \<Rightarrow> MultipartBuilder \<Rightarrow> MultipartBuilder" where
  "setMultipartType t b = b\<lparr>mb_msg := wr16 8 t (mb_msg b)\<rparr>"

definition setMultipartFlags :: "u16 \<Rightarrow> MultipartBuilder \<Rightarrow> MultipartBuilder" where
  "setMultipartFlags flags b = b\<lparr>mb_msg := wr16 10 flags (mb_msg b)\<rparr>"

definition setRequestBody :: "bytes \<Rightarrow> MultipartBuilder \<Rightarrow> fault + MultipartBuilder" where
  "setRequestBody data b = bindE (assertE (length data \<le> MAX_BODY_SIZE)) (\<lambda>_. Inr (b\<lparr>mb_body := data\<rparr>))"

definition setReplyBody :: "bytes \<Rightarrow> MultipartBuilder \<Rightarrow> fault + MultipartBuilder" where
  "setReplyBody data b = Inr (b\<lparr>mb_body := data\<rparr>)"

definition MultipartRequestBuilder_send ::
  "MultipartBuilder \<Rightarrow> MemoryChannel \<Rightarrow> fault + (u32 \<times> MultipartBuilder \<times> MemoryChannel)" where
  "MultipartRequestBuilder_send b ch =
     (let version = mc_version ch; (xid, ch) = nextXid ch;
          msgLen = length (mb_body b) + (if version = 1 then UnpaddedSizeVersion1 else 16) in
      bindE (setLength msgLen (setXid xid (setVersion version (mb_msg b)))) (\<lambda>msg.
      let (msg, ch) =
        (if version = 1 then
           let msg = setType v1_OFPT_STATS_REQUEST msg in (msg, mc_write (take UnpaddedSizeVersion1 msg) ch)
         else
           let msg = setType 18 msg in (msg, mc_write msg ch)) in
      Inr (xid, b\<lparr>mb_msg := msg\<rparr>, mc_flush (mc_write (mb_body b) ch))))"

definition MultipartReplyBuilder_send ::
  "MultipartBuilder \<Rightarrow> MemoryChannel \<Rightarrow> fault + (u32 \<times> MultipartBuilder \<times> MemoryChannel)" where
  "MultipartReplyBuilder_send b ch =
     (let version = mc_version ch; (xid, ch) = nextXid ch;
          msgLen = length (mb_body b) + (if version = 1 then UnpaddedSizeVersion1 else 16) in
      bindE (setLength msgLen (setXid xid (setVersion version (mb_msg b)))) (\<lambda>msg.
      let (msg, ch) =
        (if version = 1 then
           let msg = setType v1_OFPT_STATS_REPLY msg in (msg, mc_write (take UnpaddedSizeVersion1 msg) ch)
         else
           let msg = setType 19 msg in (msg, mc_write msg ch)) in
      Inr (xid, b\<lparr>mb_msg := msg\<rparr>, mc_flush (mc_write (mb_body b) ch))))"

text \<open>The loop of \<^verbatim>\<open>sendUsingRequestBody\<close> and \<^verbatim>\<open>sendUsingReplyBody\<close> over the rest of the body.\<close>

function RequestBody_loop :: "nat \<Rightarrow> bytes \<Rightarrow> ByteRange \<Rightarrow> MultipartBuilder \<Rightarrow> MemoryChannel \<Rightarrow>
    fault + (ByteRange \<times> MultipartBuilder \<times> MemoryChannel)" where
  "RequestBody_loop offset data body b ch =
     (if snd body > MAX_BODY_SIZE then
        bindE (ProtocolRangeSplitOffset MAX_BODY_SIZE 0 data body offset) (\<lambda>chunkSize.
        bindE (assertE (chunkSize \<le> MAX_BODY_SIZE)) (\<lambda>_.
        bindE (assertE (chunkSize \<le> snd body)) (\<lambda>_.
        bindE (assertE (chunkSize > 0)) (\<lambda>_.
        bindE (setRequestBody (sub_bytes (fst body) chunkSize data) (setMultipartFlags OFPMPF_MORE b)) (\<lambda>b.
        bindE (MultipartRequestBuilder_send b ch) (\<lambda>r.
        RequestBody_loop offset data (SafeByteRange (fst body) (snd body) chunkSize) (fst (snd r))
          (setNextXid (Header_xid (mb_msg (fst (snd r)))) (snd (snd r)))))))))
      else Inr (body, b, ch))"
  by pat_completeness auto
termination
  by (relation "measure (\<lambda>(_, _, body, _, _). snd body)") (auto simp: assertE_def SafeByteRange_def split: if_split_asm)

function ReplyBody_loop :: "nat \<Rightarrow> bytes \<Rightarrow> ByteRange \<Rightarrow> MultipartBuilder \<Rightarrow> MemoryChannel \<Rightarrow>
    fault + (ByteRange \<times> MultipartBuilder \<times> MemoryChannel)" where
  "ReplyBody_loop offset data body b ch =
     (if snd body > MAX_BODY_SIZE then
        bindE (ProtocolRangeSplitOffset MAX_BODY_SIZE 0 data body offset) (\<lambda>chunkSize.
        bindE (assertE (chunkSize \<le> MAX_BODY_SIZE)) (\<lambda>_.
        bindE (assertE (chunkSize \<le> snd body)) (\<lambda>_.
        bindE (assertE (chunkSize > 0)) (\<lambda>_.
        bindE (setReplyBody (sub_bytes (fst body) chunkSize data) (setMultipartFlags OFPMPF_MORE b)) (\<lambda>b.
        bindE (MultipartReplyBuilder_send b ch) (\<lambda>r.
        ReplyBody_loop offset data (SafeByteRange (fst body) (snd body) chunkSize) (fst (snd r))
          (setNextXid (Header_xid (mb_msg (fst (snd r)))) (snd (snd r)))))))))
      else Inr (body, b, ch))"
  by pat_completeness auto
termination
  by (relation "measure (\<lambda>(_, _, body, _, _). snd body)") (auto simp: assertE_def SafeByteRange_def split: if_split_asm)

declare RequestBody_loop.simps [simp del] ReplyBody_loop.simps [simp del]

definition sendUsingRequestBody ::
  "bytes \<Rightarrow> nat \<Rightarrow> MultipartBuilder \<Rightarrow> MemoryChannel \<Rightarrow> fault + (MultipartBuilder \<times> MemoryChannel)" where
  "sendUsingRequestBody data offset b ch =
     bindE (RequestBody_loop offset data (0, length data) b ch) (\<lambda>(body, b, ch).
     bindE (setRequestBody (sub_bytes (fst body) (snd body) data) (setMultipartFlags OFPMPF_NONE b)) (\<lambda>b.
     Inr (b, ch)))"

definition sendUsingReplyBody ::
  "bytes \<Rightarrow> nat \<Rightarrow> MultipartBuilder \<Rightarrow> MemoryChannel \<Rightarrow> fault + (MultipartBuilder \<times> MemoryChannel)" where
  "sendUsingReplyBody data offset b ch =
     bindE (ReplyBody_loop offset data (0, length data) b ch) (\<lambda>(body, b, ch).
     bindE (setReplyBody (sub_bytes (fst body) (snd body) data) (setMultipartFlags OFPMPF_NONE b)) (\<lambda>b.
     Inr (b, ch)))"

section \<open>Splitting at element boundaries\<close>

text \<open>An element whose length field is at \<open>off\<close>, and the longest prefix of a list of elements that fits
into \<open>k\<close> bytes.\<close>

definition sized_at :: "nat \<Rightarrow> bytes \<Rightarrow> bool" where
  "sized_at off e \<longleftrightarrow> length e = PadLength (max (off + 2) (unat (rd16 off e))) \<and> length e \<le> MAX_BODY_SIZE"

fun fit :: "nat \<Rightarrow> bytes list \<Rightarrow> bytes list" where
  "fit k [] = []"
| "fit k (e # es) = (if length e \<le> k then e # fit (k - length e) es else [])"

lemma fit_drop: "fit k es @ drop (length (fit k es)) es = es"
  by (induction k es rule: fit.induct) auto

lemma fit_subset: "e \<in> set (fit k es) \<Longrightarrow> e \<in> set es"
  by (induction k es rule: fit.induct) (auto split: if_split_asm)

lemma fit_size: "length (concat (fit k es)) \<le> k"
  by (induction k es rule: fit.induct) auto

lemma sized_at_length: "sized_at off e \<Longrightarrow> off + 2 \<le> length e" "sized_at off e \<Longrightarrow> length e mod 8 = 0"
  "sized_at off e \<Longrightarrow> 8 \<le> length e"
proof -
  assume "sized_at off e"
  then have e: "length e = PadLength (max (off + 2) (unat (rd16 off e)))" by (simp add: sized_at_def)
  show "off + 2 \<le> length e" using PadLength_ge [of "max (off + 2) (unat (rd16 off e))"] e by simp
  show m: "length e mod 8 = 0" by (simp only: e PadLength_mod8)
  show "8 \<le> length e" using m \<open>off + 2 \<le> length e\<close> by (cases "length e < 8") auto
qed

lemma sized_mod8: "\<forall>e\<in>set es. sized_at off e \<Longrightarrow> length (concat es) mod 8 = 0"
  by (induction es) (auto simp: sized_at_length mod_add_multiple)

lemma split_loop_fit:
  assumes "\<forall>e\<in>set es. sized_at off e" and "r \<le> k"
  shows "split_loop k (off + 2) off (A @ concat es) (length A) (length (concat es)) r = Inr (r + length (concat (fit (k - r) es)))"
  using assms
proof (induction es arbitrary: A r)
  case Nil
  show ?case by (simp add: split_loop.simps)
next
  case (Cons e es)
  have e: "sized_at off e" using Cons.prems by simp
  note l = sized_at_length [OF e]
  have "get16 (length A + off) (A @ e @ concat es) = Inr (rd16 off e)"
    using l(1) by (simp add: get16_def rd16_def sub_bytes_def)
  moreover have "PadLength (max (off + 2) (unat (rd16 off e))) = length e" using e by (simp add: sized_at_def)
  moreover have "0 < max (off + 2) (unat (rd16 off e))" by (simp add: less_max_iff_disj)
  moreover have "split_loop k (off + 2) off ((A @ e) @ concat es) (length (A @ e)) (length (concat es)) (r + length e) =
      Inr (r + length e + length (concat (fit (k - (r + length e)) es)))" if "r + length e \<le> k"
    using Cons.prems that by (intro Cons.IH) simp_all
  ultimately show ?case
    using l by (subst split_loop.simps) (auto simp: Let_def)
qed

lemma ProtocolRangeSplitOffset_fit:
  assumes "off < 32" and "\<forall>e\<in>set es. sized_at off e" and "length A mod 8 = 0" and "MAX_BODY_SIZE < length (concat es)"
  shows "ProtocolRangeSplitOffset MAX_BODY_SIZE 0 (A @ concat es) (length A, length (concat es)) off =
    Inr (length (concat (fit MAX_BODY_SIZE es)))" and "0 < length (concat (fit MAX_BODY_SIZE es))"
proof -
  have f: "\<forall>e\<in>set (fit MAX_BODY_SIZE es). sized_at off e"
    using assms(2) by (blast dest: fit_subset)
  obtain e es' where "es = e # es'" using assms(4) by (cases es) auto
  then have "e \<in> set es" "fit MAX_BODY_SIZE es = e # fit (MAX_BODY_SIZE - length e) es'"
    using assms(2) by (auto simp: sized_at_def)
  then show pos: "0 < length (concat (fit MAX_BODY_SIZE es))" using assms(2) sized_at_length(3) [of off e] by auto
  show "ProtocolRangeSplitOffset MAX_BODY_SIZE 0 (A @ concat es) (length A, length (concat es)) off =
    Inr (length (concat (fit MAX_BODY_SIZE es)))"
    using assms(1,3,4) sized_mod8 [OF assms(2)] sized_mod8 [OF f] pos
      split_loop_fit [OF assms(2), of 0 MAX_BODY_SIZE A]
    by (simp add: ProtocolRangeSplitOffset_def IsPtrAligned_def MAX_BODY_SIZE_def OFP_MAX_SIZE_def Let_def)
qed

text \<open>The chunks a list of elements is sent in.\<close>

function chunks :: "bytes list \<Rightarrow> bytes list list" where
  "chunks es =
     (if length (concat es) \<le> MAX_BODY_SIZE \<or> fit MAX_BODY_SIZE es = [] then [es]
      else fit MAX_BODY_SIZE es # chunks (drop (length (fit MAX_BODY_SIZE es)) es))"
  by pat_completeness auto
termination
proof (relation "measure length")
  fix es
  assume "\<not> (length (concat es) \<le> MAX_BODY_SIZE \<or> fit MAX_BODY_SIZE es = [])"
  then show "(drop (length (fit MAX_BODY_SIZE es)) es, es) \<in> measure length" by (cases es) auto
qed simp

declare chunks.simps [simp del]

lemma concat_chunks: "concat (chunks es) = es"
proof (induction es rule: chunks.induct)
  case (1 es)
  then show ?case by (subst chunks.simps) (simp add: fit_drop)
qed

lemma chunks_size:
  assumes "\<forall>e\<in>set es. length e \<le> MAX_BODY_SIZE"
  shows "\<forall>c\<in>set (chunks es). length (concat c) \<le> MAX_BODY_SIZE"
  using assms
proof (induction es rule: chunks.induct)
  case (1 es)
  show ?case
  proof (cases "length (concat es) \<le> MAX_BODY_SIZE")
    case True
    then show ?thesis by (subst chunks.simps) simp
  next
    case False
    then have n: "fit MAX_BODY_SIZE es \<noteq> []" using 1(2) by (cases es) auto
    have "\<forall>e\<in>set (drop (length (fit MAX_BODY_SIZE es)) es). length e \<le> MAX_BODY_SIZE" using 1(2) by (blast dest: in_set_dropD)
    with 1(1) False n have "\<forall>c\<in>set (chunks (drop (length (fit MAX_BODY_SIZE es)) es)). length (concat c) \<le> MAX_BODY_SIZE" by blast
    with False n show ?thesis using fit_size [of MAX_BODY_SIZE es] by (subst chunks.simps) simp
  qed
qed

section \<open>What the builders send\<close>

text \<open>The message a builder sends, by the fields of its fixed part.\<close>

definition mp_size :: "byte \<Rightarrow> nat" where
  "mp_size v = (if v = 1 then 12 else 16)"

definition mp_head :: "byte \<Rightarrow> byte \<Rightarrow> u32 \<Rightarrow> nat \<Rightarrow> bytes \<Rightarrow> u16 \<Rightarrow> bytes \<Rightarrow> bytes" where
  "mp_head t v xid n ty flags pad = [v, t] @ be16 (of_nat n) @ be32 xid @ ty @ be16 flags @ pad"

definition mp_message :: "byte \<Rightarrow> byte \<Rightarrow> u32 \<Rightarrow> bytes \<Rightarrow> bytes \<Rightarrow> u16 \<Rightarrow> bytes \<Rightarrow> bytes" where
  "mp_message t v xid ty pad flags body =
     take (mp_size v) (mp_head t v xid (length body + mp_size v) ty flags pad) @ body"

definition mp_fields :: "MultipartBuilder \<Rightarrow> bytes \<Rightarrow> bytes \<Rightarrow> bool" where
  "mp_fields b ty pad \<longleftrightarrow> length (mb_msg b) = 16 \<and> sub_bytes 8 2 (mb_msg b) = ty \<and> sub_bytes 12 4 (mb_msg b) = pad"

text \<open>
  The interface of the two builders. \<open>tv\<close> is the message type by version; the laws are the effect of sending,
  of setting the body and one turn of the loop over the body.
\<close>

locale multipart_sender =
  fixes send :: "MultipartBuilder \<Rightarrow> MemoryChannel \<Rightarrow> fault + (u32 \<times> MultipartBuilder \<times> MemoryChannel)"
    and set_body :: "bytes \<Rightarrow> MultipartBuilder \<Rightarrow> fault + MultipartBuilder"
    and body_loop :: "nat \<Rightarrow> bytes \<Rightarrow> ByteRange \<Rightarrow> MultipartBuilder \<Rightarrow> MemoryChannel \<Rightarrow>
      fault + (ByteRange \<times> MultipartBuilder \<times> MemoryChannel)"
    and tv :: "byte \<Rightarrow> byte"
  assumes send_law: "length h = 8 \<Longrightarrow> length ty = 2 \<Longrightarrow> length pad = 4 \<Longrightarrow> length (mb_body b) \<le> MAX_BODY_SIZE \<Longrightarrow>
      mb_msg b = h @ ty @ be16 flags @ pad \<Longrightarrow> v = mc_version ch \<Longrightarrow>
      send b ch = Inr (mc_nextXid ch,
        b\<lparr>mb_msg := mp_head (tv v) v (mc_nextXid ch) (length (mb_body b) + mp_size v) ty flags pad\<rparr>,
        ch\<lparr>mc_buf := mc_buf ch @ mp_message (tv v) v (mc_nextXid ch) ty pad flags (mb_body b),
          mc_nextXid := mc_nextXid ch + 1, mc_flushed := True\<rparr>)"
    and set_body_law: "length data \<le> MAX_BODY_SIZE \<Longrightarrow> set_body data b = Inr (b\<lparr>mb_body := data\<rparr>)"
    and loop_end: "n \<le> MAX_BODY_SIZE \<Longrightarrow> body_loop off data (p, n) b ch = Inr ((p, n), b, ch)"
    and loop_step: "MAX_BODY_SIZE < n \<Longrightarrow> ProtocolRangeSplitOffset MAX_BODY_SIZE 0 data (p, n) off = Inr k \<Longrightarrow>
      0 < k \<Longrightarrow> k \<le> MAX_BODY_SIZE \<Longrightarrow>
      set_body (sub_bytes p k data) (setMultipartFlags OFPMPF_MORE b) = Inr b1 \<Longrightarrow> send b1 ch = Inr (x, b2, ch2) \<Longrightarrow>
      body_loop off data (p, n) b ch = body_loop off data (p + k, n - k) b2 (setNextXid (Header_xid (mb_msg b2)) ch2)"
begin

lemma send_chunk:
  assumes "mp_fields b ty pad" and "length c \<le> MAX_BODY_SIZE"
  shows "\<exists>b1 b2. set_body c (setMultipartFlags flags b) = Inr b1 \<and> mp_fields b2 ty pad \<and>
    Header_xid (mb_msg b2) = mc_nextXid ch \<and>
    send b1 ch = Inr (mc_nextXid ch, b2, ch\<lparr>mc_buf := mc_buf ch @
      mp_message (tv (mc_version ch)) (mc_version ch) (mc_nextXid ch) ty pad flags c,
      mc_nextXid := mc_nextXid ch + 1, mc_flushed := True\<rparr>)"
proof -
  let ?b1 = "setMultipartFlags flags b\<lparr>mb_body := c\<rparr>"
  have l: "length ty = 2" "length pad = 4" using assms(1) by (auto simp: mp_fields_def)
  have m: "mb_msg ?b1 = take 8 (mb_msg b) @ ty @ be16 flags @ pad"
    using assms(1) by (auto simp: mp_fields_def setMultipartFlags_def wr16_def overwrite_def sub_bytes_def
        simp flip: take_add)
  let ?b2 = "?b1\<lparr>mb_msg := mp_head (tv (mc_version ch)) (mc_version ch) (mc_nextXid ch)
      (length c + mp_size (mc_version ch)) ty flags pad\<rparr>"
  have "mp_fields ?b2 ty pad" "Header_xid (mb_msg ?b2) = mc_nextXid ch"
    using l by (simp_all add: mp_fields_def mp_head_def sub_bytes_def Header_xid_def rd32_def)
  then show ?thesis
    using send_law [OF _ l _ m refl] assms set_body_law [OF assms(2)]
    by (intro exI [of _ ?b1] exI [of _ ?b2]) (simp add: mp_fields_def)
qed

lemma loop_chunks:
  assumes "off < 32" and "\<forall>e\<in>set es. sized_at off e" and "length A mod 8 = 0" and "mp_fields b ty pad"
  shows "\<exists>b' fl. mp_fields b' ty pad \<and> body_loop off (A @ concat es) (length A, length (concat es)) b ch =
    Inr ((length A + length (concat (concat (butlast (chunks es)))), length (concat (last (chunks es)))), b',
      ch\<lparr>mc_buf := mc_buf ch @ concat (map (\<lambda>c. mp_message (tv (mc_version ch)) (mc_version ch) (mc_nextXid ch) ty pad
        OFPMPF_MORE (concat c)) (butlast (chunks es))), mc_flushed := fl\<rparr>)"
  using assms(2-)
proof (induction es arbitrary: A b ch rule: chunks.induct)
  case (1 es)
  let ?f = "fit MAX_BODY_SIZE es"
  let ?rest = "drop (length ?f) es"
  let ?M = "\<lambda>c. mp_message (tv (mc_version ch)) (mc_version ch) (mc_nextXid ch) ty pad OFPMPF_MORE (concat c)"
  show ?case
  proof (cases "length (concat es) \<le> MAX_BODY_SIZE")
    case True
    then have "chunks es = [es]" by (subst chunks.simps) simp
    with True 1(4) show ?thesis by (intro exI [of _ b] exI [of _ "mc_flushed ch"]) (simp add: loop_end)
  next
    case False
    then have big: "MAX_BODY_SIZE < length (concat es)" by simp
    note split = ProtocolRangeSplitOffset_fit [OF assms(1) 1(2,3) big]
    then have f: "?f \<noteq> []" by auto
    have es: "concat es = concat ?f @ concat ?rest" by (simp flip: concat_append add: fit_drop)
    have ch: "chunks es = ?f # chunks ?rest" "chunks ?rest \<noteq> []"
      using False f by (subst chunks.simps, simp) (subst chunks.simps, simp)
    obtain b1 b2 where sent: "set_body (concat ?f) (setMultipartFlags OFPMPF_MORE b) = Inr b1" "mp_fields b2 ty pad"
        "Header_xid (mb_msg b2) = mc_nextXid ch" "send b1 ch = Inr (mc_nextXid ch, b2,
          ch\<lparr>mc_buf := mc_buf ch @ ?M ?f, mc_nextXid := mc_nextXid ch + 1, mc_flushed := True\<rparr>)"
      using send_chunk [OF 1(4) fit_size [of MAX_BODY_SIZE es]] by blast
    let ?ch = "ch\<lparr>mc_buf := mc_buf ch @ ?M ?f, mc_flushed := True\<rparr>"
    have "body_loop off (A @ concat es) (length A, length (concat es)) b ch =
        body_loop off (A @ concat es) (length A + length (concat ?f), length (concat es) - length (concat ?f)) b2 ?ch"
      using loop_step [OF big split(1) _ fit_size, of b b1 ch] split(2) sent es
      by (simp add: sub_bytes_def setNextXid_def)
    also have "\<dots> = body_loop off ((A @ concat ?f) @ concat ?rest) (length (A @ concat ?f), length (concat ?rest)) b2 ?ch"
      by (simp add: es)
    finally have step: "body_loop off (A @ concat es) (length A, length (concat es)) b ch = \<dots>" .
    have sz: "\<forall>e\<in>set ?rest. sized_at off e" "\<forall>e\<in>set ?f. sized_at off e"
      using 1(2) by (blast dest: in_set_dropD fit_subset)+
    then have "length (A @ concat ?f) mod 8 = 0" using 1(3) sized_mod8 by (simp add: mod_add_multiple)
    from 1(1) [OF _ sz(1) this sent(2), of ?ch] f False obtain b' fl where "mp_fields b' ty pad"
      "body_loop off ((A @ concat ?f) @ concat ?rest) (length (A @ concat ?f), length (concat ?rest)) b2 ?ch =
      Inr ((length (A @ concat ?f) + length (concat (concat (butlast (chunks ?rest)))), length (concat (last (chunks ?rest)))), b',
        ?ch\<lparr>mc_buf := mc_buf ?ch @ concat (map ?M (butlast (chunks ?rest))), mc_flushed := fl\<rparr>)" by auto
    with step ch show ?thesis by (intro exI [of _ b'] exI [of _ fl]) simp
  qed
qed

lemma send_all:
  assumes "off < 32" and "\<forall>e\<in>set es. sized_at off e" and "mp_fields b ty pad"
  shows "bindE (body_loop off (concat es) (0, length (concat es)) b ch) (\<lambda>(body, b, ch).
      bindE (set_body (sub_bytes (fst body) (snd body) (concat es)) (setMultipartFlags OFPMPF_NONE b)) (\<lambda>b.
      bindE (send b ch) (\<lambda>(_, _, ch). Inr (mc_buf ch)))) =
    Inr (mc_buf ch @
      concat (map (\<lambda>c. mp_message (tv (mc_version ch)) (mc_version ch) (mc_nextXid ch) ty pad OFPMPF_MORE (concat c)) (butlast (chunks es))) @
      mp_message (tv (mc_version ch)) (mc_version ch) (mc_nextXid ch) ty pad OFPMPF_NONE (concat (last (chunks es))))"
proof -
  have ne: "chunks es \<noteq> []" by (subst chunks.simps) simp
  have "concat es = concat (concat (butlast (chunks es) @ [last (chunks es)]))"
    using ne by (simp del: butlast.simps last.simps add: concat_chunks)
  then have es: "concat es = concat (concat (butlast (chunks es))) @ concat (last (chunks es))" by simp
  have "\<forall>e\<in>set es. length e \<le> MAX_BODY_SIZE" using assms(2) unfolding sized_at_def by blast
  then have sz: "length (concat (last (chunks es))) \<le> MAX_BODY_SIZE" using chunks_size ne by auto
  let ?M = "mp_message (tv (mc_version ch)) (mc_version ch) (mc_nextXid ch) ty pad"
  let ?ms = "concat (map (\<lambda>c. ?M OFPMPF_MORE (concat c)) (butlast (chunks es)))"
  obtain b' fl where b': "mp_fields b' ty pad" and loop: "body_loop off (concat es) (0, length (concat es)) b ch =
    Inr ((length (concat (concat (butlast (chunks es)))), length (concat (last (chunks es)))), b',
      ch\<lparr>mc_buf := mc_buf ch @ ?ms, mc_flushed := fl\<rparr>)"
    using loop_chunks [OF assms(1,2) _ assms(3), of "[]" ch] by auto
  have "sub_bytes (length (concat (concat (butlast (chunks es))))) (length (concat (last (chunks es)))) (concat es) =
      concat (last (chunks es))"
    by (subst es) (simp add: sub_bytes_def)
  moreover from send_chunk [OF b' sz, of OFPMPF_NONE "ch\<lparr>mc_buf := mc_buf ch @ ?ms, mc_flushed := fl\<rparr>"]
  obtain b1 b2 where "set_body (concat (last (chunks es))) (setMultipartFlags OFPMPF_NONE b') = Inr b1"
    "send b1 (ch\<lparr>mc_buf := mc_buf ch @ ?ms, mc_flushed := fl\<rparr>) = Inr (mc_nextXid ch, b2,
      ch\<lparr>mc_buf := mc_buf ch @ ?ms @ ?M OFPMPF_NONE (concat (last (chunks es))),
      mc_nextXid := mc_nextXid ch + 1, mc_flushed := True\<rparr>)"
    by auto
  ultimately show ?thesis using loop by simp
qed

end

lemmas send_defs = Let_def nextXid_def setLength_def setXid_def setVersion_def setType_def mc_write_def mc_flush_def
  UnpaddedSizeVersion1_def MAX_BODY_SIZE_def OFP_MAX_SIZE_def mp_size_def mp_message_def mp_head_def

lemma set_header:
  assumes "length h = 8"
  shows "wr8 (Suc 0) t (wr16 2 n (wr32 4 x (wr8 0 v (h @ r)))) = [v, t] @ be16 n @ be32 x @ r"
  using assms by (simp add: wr8_def wr16_def wr32_def overwrite_def take_Cons' drop_Cons')

interpretation requests: multipart_sender MultipartRequestBuilder_send setRequestBody RequestBody_loop
  "\<lambda>v. if v = 1 then v1_OFPT_STATS_REQUEST else 18"
  by unfold_locales
    (auto simp: MultipartRequestBuilder_send_def send_defs set_header setRequestBody_def RequestBody_loop.simps SafeByteRange_def)

interpretation replies: multipart_sender MultipartReplyBuilder_send setReplyBody ReplyBody_loop
  "\<lambda>v. if v = 1 then v1_OFPT_STATS_REPLY else 19"
  by unfold_locales
    (auto simp: MultipartReplyBuilder_send_def send_defs set_header setReplyBody_def ReplyBody_loop.simps SafeByteRange_def)

lemma sending:
  "bindE (sendUsingRequestBody data off b ch) (\<lambda>(b, ch). bindE (MultipartRequestBuilder_send b ch) (\<lambda>(_, _, ch). Inr (mc_buf ch))) =
    bindE (RequestBody_loop off data (0, length data) b ch) (\<lambda>(body, b, ch).
      bindE (setRequestBody (sub_bytes (fst body) (snd body) data) (setMultipartFlags OFPMPF_NONE b)) (\<lambda>b.
      bindE (MultipartRequestBuilder_send b ch) (\<lambda>(_, _, ch). Inr (mc_buf ch))))"
  "bindE (sendUsingReplyBody data off b ch) (\<lambda>(b, ch). bindE (MultipartReplyBuilder_send b ch) (\<lambda>(_, _, ch). Inr (mc_buf ch))) =
    bindE (ReplyBody_loop off data (0, length data) b ch) (\<lambda>(body, b, ch).
      bindE (setReplyBody (sub_bytes (fst body) (snd body) data) (setMultipartFlags OFPMPF_NONE b)) (\<lambda>b.
      bindE (MultipartReplyBuilder_send b ch) (\<lambda>(_, _, ch). Inr (mc_buf ch))))"
  by (simp_all add: sendUsingRequestBody_def sendUsingReplyBody_def bindE_assoc split_def)

text \<open>C9: A multipart request or reply of any length, whose body is a list of elements with a correct length
field of at most the maximal body size each, is sent as a sequence of messages without a fault and without
endless loop: the bodies of the messages are chunks of whole elements that fit into a message and give the
list of elements when put together; every message has the type of the channel's version, its own length
and the same transaction id, all but the last one announce more to come, and the last one does not.\<close>

theorem multipart_chunks:
  assumes "off < 32" and "\<forall>e\<in>set es. sized_at off e" and "mp_fields b ty pad"
    and v: "v = mc_version ch" and x: "x = mc_nextXid ch" and css: "css = chunks es"
  shows "concat css = es \<and> (\<forall>c\<in>set css. length (concat c) \<le> MAX_BODY_SIZE) \<and>
    bindE (sendUsingRequestBody (concat es) off b ch) (\<lambda>(b, ch). bindE (MultipartRequestBuilder_send b ch) (\<lambda>(_, _, ch). Inr (mc_buf ch))) =
      Inr (mc_buf ch @ concat (map (\<lambda>c. mp_message (if v = 1 then 16 else 18) v x ty pad OFPMPF_MORE (concat c)) (butlast css)) @
        mp_message (if v = 1 then 16 else 18) v x ty pad OFPMPF_NONE (concat (last css))) \<and>
    bindE (sendUsingReplyBody (concat es) off b ch) (\<lambda>(b, ch). bindE (MultipartReplyBuilder_send b ch) (\<lambda>(_, _, ch). Inr (mc_buf ch))) =
      Inr (mc_buf ch @ concat (map (\<lambda>c. mp_message (if v = 1 then 17 else 19) v x ty pad OFPMPF_MORE (concat c)) (butlast css)) @
        mp_message (if v = 1 then 17 else 19) v x ty pad OFPMPF_NONE (concat (last css)))"
proof -
  have "\<forall>e\<in>set es. length e \<le> MAX_BODY_SIZE" using assms(2) unfolding sized_at_def by blast
  then show ?thesis
    unfolding v x css sending requests.send_all [OF assms(1-3)] replies.send_all [OF assms(1-3)]
    by (simp add: concat_chunks chunks_size v1_OFPT_STATS_REQUEST_def v1_OFPT_STATS_REPLY_def)
qed

text \<open>Two elements of 40000 bytes do not fit into one message.\<close>

definition large_element :: bytes where
  "large_element = be16 40000 @ replicate 39998 0"

theorem multipart_chunks_witness:
  "bindE (sendUsingReplyBody (concat [large_element, large_element]) 0
      \<lparr>mb_msg = [0, 0, 0, 0, 0, 0, 0, 0, 0, 1, 0, 0, 0, 0, 0, 0], mb_body = []\<rparr> (MemoryChannel_make 4))
      (\<lambda>(b, ch). bindE (MultipartReplyBuilder_send b ch) (\<lambda>(_, _, ch). Inr (mc_buf ch))) =
    Inr (mp_message 19 4 1 [0, 1] [0, 0, 0, 0] OFPMPF_MORE large_element @
      mp_message 19 4 1 [0, 1] [0, 0, 0, 0] OFPMPF_NONE large_element)"
proof -
  have l: "length large_element = 40000" "rd16 0 large_element = 40000"
    by (simp_all add: large_element_def rd16_def sub_bytes_def)
  have s: "\<forall>e\<in>set [large_element, large_element]. sized_at 0 e"
    by (simp add: sized_at_def l PadLength_def MAX_BODY_SIZE_def OFP_MAX_SIZE_def)
  have c: "chunks [large_element, large_element] = [[large_element], [large_element]]"
    by (simp add: chunks.simps l MAX_BODY_SIZE_def OFP_MAX_SIZE_def)
  have f: "mp_fields \<lparr>mb_msg = [0, 0, 0, 0, 0, 0, 0, 0, 0, 1, 0, 0, 0, 0, 0, 0], mb_body = []\<rparr> [0, 1] [0, 0, 0, 0]" by code_simp
  show ?thesis
    using multipart_chunks [OF _ s f refl refl c [symmetric], of "MemoryChannel_make 4"]
    by (simp add: MemoryChannel_make_def)
qed

end
