(* ===== verification/Versions.thy ===== *)
theory Versions
  imports NormalizeActions MultipartSend
begin

text \<open>
  Protocol versions and their negotiation (\<^verbatim>\<open>src/ofp/protocolversions.cpp\<close>) and the hello message
  (\<^verbatim>\<open>src/ofp/hello.cpp\<close>). A set of versions is its bitmap. A shift by 32 or more, which C++ leaves
  undefined, is a fault; so is a signed shift or subtraction that overflows.
\<close>

declare add_2_eq_Suc [simp del] add_2_eq_Suc' [simp del] elem_params [simp del]

section \<open>Sets of versions\<close>

type_synonym ProtocolVersions = u32

definition MinVersionSupported :: byte where "MinVersionSupported = 1"
definition MaxVersionSupported :: nat where "MaxVersionSupported = 30"
definition OFP_VERSION_4 :: byte where "OFP_VERSION_4 = 4"
definition OFP_VERSION_LAST :: byte where "OFP_VERSION_LAST = 6"

definition VersionBitmapAll :: u32 where
  "VersionBitmapAll = NOT (push_bit (unat OFP_VERSION_LAST + 1) (NOT 0)) AND NOT 1"

definition VersionBitmapNone :: u32 where
  "VersionBitmapNone = 0"

fun addVersions :: "byte list \<Rightarrow> u32 \<Rightarrow> u32" where
  "addVersions [] bitmap = bitmap"
| "addVersions (v # vs) bitmap =
     addVersions vs (if v \<ge> MinVersionSupported \<and> unat v \<le> MaxVersionSupported
                     then bitmap OR push_bit (unat v) 1 else bitmap)"

definition ProtocolVersions_make :: "byte list \<Rightarrow> ProtocolVersions" where
  "ProtocolVersions_make versions = addVersions versions 0"

definition fromVector :: "byte list \<Rightarrow> ProtocolVersions" where
  "fromVector versions = addVersions versions (ProtocolVersions_make [])"

definition shift_right :: "u32 \<Rightarrow> nat \<Rightarrow> fault + u32" where
  "shift_right bits n = bindE (assertE (n < 32)) (\<lambda>_. Inr (drop_bit n bits))"

definition containsVersion :: "ProtocolVersions \<Rightarrow> byte \<Rightarrow> fault + bool" where
  "containsVersion bitmap version = bindE (shift_right bitmap (unat version)) (\<lambda>b. Inr (b AND 1 \<noteq> 0))"

fun highestVersion_loop :: "nat \<Rightarrow> u32 \<Rightarrow> byte" where
  "highestVersion_loop 0 bits = 0"
| "highestVersion_loop (Suc i) bits =
     (if drop_bit (Suc i) bits AND 1 \<noteq> 0 then of_nat (Suc i) else highestVersion_loop i bits)"

definition highestVersion :: "ProtocolVersions \<Rightarrow> byte" where
  "highestVersion bitmap = highestVersion_loop MaxVersionSupported bitmap"

definition intersection :: "ProtocolVersions \<Rightarrow> ProtocolVersions \<Rightarrow> ProtocolVersions" where
  "intersection bitmap versions = bitmap AND versions"

definition negotiateVersion :: "ProtocolVersions \<Rightarrow> byte \<Rightarrow> ProtocolVersions \<Rightarrow> fault + byte" where
  "negotiateVersion bitmap msgVersion msgVersions =
     (if msgVersion \<ge> OFP_VERSION_4 \<and> msgVersions \<noteq> 0
      then Inr (highestVersion (intersection bitmap msgVersions))
      else
        let myVersion = highestVersion bitmap in
        if myVersion \<le> msgVersion then Inr myVersion
        else bindE (containsVersion bitmap msgVersion) (\<lambda>c. Inr (if c then msgVersion else 0)))"

text \<open>\<^verbatim>\<open>(1 << (version + 1)) - 2\<close> is computed with signed integers: the shift and the subtraction
are defined for a result below \<open>2 ^ 31\<close>.\<close>

definition includeInHelloMsg :: "ProtocolVersions \<Rightarrow> byte \<Rightarrow> fault + bool" where
  "includeInHelloMsg bitmap version =
     (if version < OFP_VERSION_4 then Inr False
      else
        bindE (assertE (unat version < 32)) (\<lambda>_.
        if bitmap = push_bit (unat version) 1 then Inr False
        else
          bindE (assertE (unat version + 1 < 31)) (\<lambda>_.
          let allVersions = push_bit (unat version + 1) 1 - 2 in
          Inr (bitmap \<noteq> allVersions))))"

definition versions :: "ProtocolVersions \<Rightarrow> byte list" where
  "versions bitmap = map of_nat (filter (\<lambda>i. drop_bit i bitmap AND 1 \<noteq> 0) [1..<MaxVersionSupported + 1])"

section \<open>The hello message\<close>

definition OFPHET_VERSIONBITMAP :: u16 where "OFPHET_VERSIONBITMAP = 1"

definition versionBitMap :: "bytes \<Rightarrow> nat \<Rightarrow> fault + ProtocolVersions" where
  "versionBitMap msg p =
     bindE (get16 (p + 2) msg) (\<lambda>len.
     if unat len \<ge> 8 then get32 (p + 4) msg else Inr 0)"

function protocolVersions_loop :: "bytes \<Rightarrow> nat \<Rightarrow> nat \<Rightarrow> fault + ProtocolVersions" where
  "protocolVersions_loop msg pos e =
     (if pos = e then Inr VersionBitmapNone
      else if pos \<ge> length msg then Inl (OutOfBounds pos 1)
      else bindE (get16 pos msg) (\<lambda>t.
        if t = OFPHET_VERSIONBITMAP then versionBitMap msg pos
        else bindE (iter_jump 4 2 8 msg pos) (\<lambda>n.
          if n = 0 then Inl AssertFailed else protocolVersions_loop msg (pos + n) e)))"
  by pat_completeness auto
termination by (relation "measure (\<lambda>(msg, pos, _). length msg - pos)") auto

declare protocolVersions_loop.simps [simp del]

text \<open>\<^verbatim>\<open>helloElements\<close> gives the empty range for an invalid list of elements.\<close>

definition Hello_protocolVersions :: "bytes \<Rightarrow> fault + ProtocolVersions" where
  "Hello_protocolVersions msg =
     (let body = (8, unat (Header_length msg) - 8) in
      validated (elems_validateInput HelloElem (\<lambda>_. Inr) msg body null_context)
        (Inr VersionBitmapNone)
        (protocolVersions_loop msg (fst body) (fst body + snd body)))"

record HelloBuilder =
  hb_msg :: bytes
  hb_elem :: bytes
  hb_bitmap :: u32

definition HelloBuilder_make :: "ProtocolVersions \<Rightarrow> HelloBuilder" where
  "HelloBuilder_make vs =
     \<lparr>hb_msg = setVersion (highestVersion vs) (zeros 8), hb_elem = zeros 4, hb_bitmap = vs\<rparr>"

definition HelloBuilder_fromVersion :: "byte \<Rightarrow> HelloBuilder" where
  "HelloBuilder_fromVersion v =
     \<lparr>hb_msg = setVersion v (zeros 8), hb_elem = zeros 4, hb_bitmap = ProtocolVersions_make [v]\<rparr>"

definition HelloBuilder_fromMessage :: "bytes \<Rightarrow> fault + HelloBuilder" where
  "HelloBuilder_fromMessage msg =
     bindE (Hello_protocolVersions msg) (\<lambda>vs.
     Inr \<lparr>hb_msg = take 8 msg, hb_elem = zeros 4, hb_bitmap = vs\<rparr>)"

definition HelloBuilder_send :: "HelloBuilder \<Rightarrow> MemoryChannel \<Rightarrow> fault + (u32 \<times> HelloBuilder \<times> MemoryChannel)" where
  "HelloBuilder_send b ch =
     (let version = Header_version (hb_msg b); vs = hb_bitmap b;
          (version, vs, msg) =
            (if version = 0 then
               let (version, vs) =
                 (if vs = 0 then (OFP_VERSION_LAST, VersionBitmapAll) else (highestVersion vs, vs)) in
               (version, vs, setVersion version (hb_msg b))
             else if version \<ge> OFP_VERSION_4 \<and> vs = 0 then (version, ProtocolVersions_make [version], hb_msg b)
             else (version, vs, hb_msg b)) in
      bindE (includeInHelloMsg vs version) (\<lambda>include.
      let bitmap = (if include then vs else hb_bitmap b);
          msgLen = 8 + (if include then 8 else 0);
          (xid, ch) = nextXid ch in
      bindE (setLength msgLen msg) (\<lambda>msg.
      let msg = setXid xid msg;
          elem = be16 OFPHET_VERSIONBITMAP @ be16 8 in
      Inr (xid, \<lparr>hb_msg = msg, hb_elem = elem, hb_bitmap = bitmap\<rparr>,
        mc_flush (mc_write (take msgLen (msg @ elem @ be32 bitmap)) ch)))))"

section \<open>The highest version\<close>

lemma shifted_bit: "drop_bit i b AND 1 \<noteq> (0 :: u32) \<longleftrightarrow> bit b i"
  by (simp add: and_one_eq bit_iff_odd_drop_bit odd_iff_mod_2_eq_one)

lemma byte_of_small: "n \<le> 30 \<Longrightarrow> unat (of_nat n :: byte) = n"
  by (simp add: unat_of_nat)

lemma highestVersion_loop_spec:
  assumes "n \<le> 30"
  shows "unat (highestVersion_loop n b) \<le> n \<and> (highestVersion_loop n b \<noteq> 0 \<longrightarrow> bit b (unat (highestVersion_loop n b))) \<and>
    (\<forall>i. unat (highestVersion_loop n b) < i \<and> i \<le> n \<longrightarrow> \<not> bit b i)"
  using assms
proof (induction n)
  case (Suc n)
  then show ?case
    by (cases "bit b (Suc n)") (auto simp: shifted_bit byte_of_small le_Suc_eq simp del: of_nat_Suc)
qed simp

lemma highestVersion_spec:
  "unat (highestVersion b) \<le> 30" "highestVersion b \<noteq> 0 \<Longrightarrow> bit b (unat (highestVersion b))"
  "unat (highestVersion b) < i \<Longrightarrow> i \<le> 30 \<Longrightarrow> \<not> bit b i"
  using highestVersion_loop_spec [of 30 b] by (auto simp: highestVersion_def MaxVersionSupported_def)

lemma highestVersion_unique:
  assumes "v \<noteq> 0 \<Longrightarrow> bit b (unat v)" and "\<And>i. unat v < i \<Longrightarrow> i \<le> 30 \<Longrightarrow> \<not> bit b i" and "unat v \<le> 30"
  shows "highestVersion b = v"
proof -
  have "unat (highestVersion b) = unat v"
    using assms highestVersion_spec [of b] by (metis linorder_neqE_nat unat_0 zero_less_iff_neq_zero not_less_zero)
  then show ?thesis by (simp add: word_unat_eq_iff)
qed

text \<open>Supported versions: a nonempty set of versions 1 to 29. Version 30 is left out: the bitmap of all versions up to
30 overflows the signed integer it is computed with.\<close>

definition supported :: "ProtocolVersions \<Rightarrow> bool" where
  "supported vs \<longleftrightarrow> vs \<noteq> 0 \<and> vs AND NOT (push_bit 30 1 - 2) = 0"

lemma bit_all_versions:
  assumes "n \<le> 29"
  shows "bit (push_bit (n + 1) 1 - 2 :: u32) i \<longleftrightarrow> 1 \<le> i \<and> i \<le> n"
proof -
  have "push_bit (n + 1) 1 - 2 = push_bit 1 (mask n :: u32)"
    by (simp add: mask_eq_exp_minus_1 push_bit_eq_mult algebra_simps)
  then show ?thesis
    using assms by (simp only: bit_push_bit_iff bit_mask_iff possible_bit_word) auto
qed

lemma supported_iff: "supported vs \<longleftrightarrow> vs \<noteq> 0 \<and> (\<forall>i. bit vs i \<longrightarrow> 1 \<le> i \<and> i \<le> 29)"
  using bit_all_versions [of 29] bit_imp_le_length [of vs]
  by (auto simp: supported_def bit_eq_iff [of "vs AND _"] bit_and_iff bit_not_iff simp del: push_bit_of_1)

lemma supported_highest:
  assumes "supported vs"
  shows "highestVersion vs \<noteq> 0" "unat (highestVersion vs) \<le> 29" "bit vs (unat (highestVersion vs))"
    "bit vs i \<Longrightarrow> i \<le> unat (highestVersion vs)"
proof -
  obtain k where k: "bit vs k" using assms by (auto simp: supported_iff bit_eq_iff)
  have le: "j \<le> unat (highestVersion vs)" if "bit vs j" for j
    using that assms highestVersion_spec(3) [of vs j] by (force simp: supported_iff)
  have "1 \<le> k" using k assms by (auto simp: supported_iff)
  with le [OF k] show n: "highestVersion vs \<noteq> 0" by auto
  then show b: "bit vs (unat (highestVersion vs))" by (rule highestVersion_spec(2))
  with assms show "unat (highestVersion vs) \<le> 29" by (auto simp: supported_iff)
  show "bit vs i \<Longrightarrow> i \<le> unat (highestVersion vs)" by (rule le)
qed

section \<open>Hello messages\<close>

definition hello_bitmap :: "ProtocolVersions \<Rightarrow> ProtocolVersions" where
  "hello_bitmap vs =
     (let v = highestVersion vs in
      if v < 4 \<or> vs = push_bit (unat v) 1 \<or> vs = push_bit (unat v + 1) 1 - 2 then 0 else vs)"

definition hello_message :: "ProtocolVersions \<Rightarrow> u32 \<Rightarrow> bytes" where
  "hello_message vs xid =
     (let e = (if hello_bitmap vs = 0 then [] else be16 1 @ be16 8 @ be32 vs) in
      [highestVersion vs, 0] @ be16 (of_nat (8 + length e)) @ be32 xid @ e)"

lemma HelloBuilder_send_eq:
  assumes "supported vs"
  shows "\<exists>b'. HelloBuilder_send (HelloBuilder_make vs) ch = Inr (mc_nextXid ch, b',
    ch\<lparr>mc_buf := mc_buf ch @ hello_message vs (mc_nextXid ch), mc_nextXid := mc_nextXid ch + 1, mc_flushed := True\<rparr>)"
proof -
  note h = supported_highest [OF assms]
  have vs: "vs \<noteq> 0" using assms by (simp add: supported_iff)
  have b: "hb_msg (HelloBuilder_make vs) = [highestVersion vs, 0, 0, 0, 0, 0, 0, 0]" "hb_bitmap (HelloBuilder_make vs) = vs"
    by (simp_all add: HelloBuilder_make_def setVersion_def wr8_def overwrite_def zeros_def eval_nat_numeral)
  have i: "includeInHelloMsg vs (highestVersion vs) = Inr (hello_bitmap vs \<noteq> 0)"
    using vs h(2) by (simp add: includeInHelloMsg_def hello_bitmap_def OFP_VERSION_4_def Let_def)
  show ?thesis
    using h(1) vs
    by (simp add: HelloBuilder_send_def b i Header_version_def rd8_nth Let_def nextXid_def setLength_def OFP_MAX_SIZE_def
        mc_write_def mc_flush_def hello_message_def OFPHET_VERSIONBITMAP_def setXid_def wr16_def wr32_def overwrite_def)
qed

lemma Hello_protocolVersions_eq: "Hello_protocolVersions (hello_message vs xid) = Inr (hello_bitmap vs)"
proof (cases "hello_bitmap vs = 0")
  case True
  define msg where "msg = hello_message vs xid"
  have "Header_length msg = 8"
    using True by (simp add: msg_def hello_message_def Header_length_def rd16_def sub_bytes_def)
  with True show ?thesis
    unfolding msg_def [symmetric]
    by (simp add: Hello_protocolVersions_def ProtocolRange_validateInput_def IsProtocolRangeValid_def IsPtrAligned_def
        IsProtocolRangeValid_loop.simps for_range.simps validated_def protocolVersions_loop.simps
        VersionBitmapNone_def elem_params Let_def PROTOCOL_ITERATOR_SIZE_FIXED_def)
next
  case False
  then have b: "hello_bitmap vs = vs" by (simp add: hello_bitmap_def Let_def split: if_split_asm)
  define msg where "msg = hello_message vs xid"
  have m: "length msg = 16" "Header_length msg = 16" "get16 8 msg = Inr 1" "get16 10 msg = Inr 8" "get32 12 msg = Inr vs"
    using False by (simp_all add: msg_def hello_message_def Header_length_def get16_def get32_def rd16_def rd32_def sub_bytes_def)
  have "IsProtocolRangeValid_loop 4 2 8 msg 8 8 = Inr ()"
    using m by (subst IsProtocolRangeValid_loop.simps)
      (simp add: range_elemSize_def range_jumpSize_def PadLength_def IsProtocolRangeValid_loop.simps PROTOCOL_ITERATOR_SIZE_CONDITIONAL_def)
  moreover have "for_range 4 2 8 msg (\<lambda>_. Inr) 8 16 null_context = Inr null_context"
    using m by (subst for_range.simps)
      (simp add: iter_jump_def ProtocolElement_size_def PadLength_def for_range.simps
        PROTOCOL_ITERATOR_SIZE_CONDITIONAL_def PROTOCOL_ITERATOR_SIZE_FIXED_def)
  moreover have "protocolVersions_loop msg 8 16 = Inr vs"
    using m by (subst protocolVersions_loop.simps) (simp add: OFPHET_VERSIONBITMAP_def versionBitMap_def)
  ultimately show ?thesis
    unfolding msg_def [symmetric] using b m
    by (simp add: Hello_protocolVersions_def ProtocolRange_validateInput_def IsProtocolRangeValid_def IsPtrAligned_def
        validated_def elem_params Let_def PROTOCOL_ITERATOR_SIZE_FIXED_def)
qed

lemma hello_message_fields:
  "Header_version (hello_message vs xid) = highestVersion vs" "Header_type (hello_message vs xid) = 0"
  "Header_xid (hello_message vs xid) = xid" "framed (hello_message vs xid)"
  by (simp_all add: hello_message_def Let_def Header_version_def Header_type_def Header_xid_def framed_def rd8_nth
      rd16_def rd32_def sub_bytes_def)

section \<open>Negotiation\<close>

definition negotiated :: "ProtocolVersions \<Rightarrow> ProtocolVersions \<Rightarrow> byte" where
  "negotiated A B =
     (let a = highestVersion A; b = highestVersion B in
      if hello_bitmap B \<noteq> 0 then highestVersion (A AND B)
      else if a \<le> b then a else if bit A (unat b) then b else 0)"

lemma hello_bitmap_sent: "hello_bitmap B \<noteq> 0 \<Longrightarrow> hello_bitmap B = B \<and> 4 \<le> highestVersion B"
  by (simp add: hello_bitmap_def Let_def not_less split: if_split_asm)

lemma negotiateVersion_eq:
  assumes "supported A" "supported B"
  shows "negotiateVersion A (highestVersion B) (hello_bitmap B) = Inr (negotiated A B)"
proof -
  have "unat (highestVersion B) < 32" using supported_highest(2) [OF assms(2)] by simp
  then show ?thesis
    using hello_bitmap_sent [of B]
    by (auto simp: negotiateVersion_def negotiated_def Let_def OFP_VERSION_4_def intersection_def containsVersion_def
        shift_right_def shifted_bit)
qed

lemma not_sent:
  assumes "supported B" and "hello_bitmap B = 0" and "i \<le> unat (highestVersion B)" and "1 \<le> i" and "4 \<le> highestVersion B"
  shows "bit B i \<or> (\<forall>j. bit B j \<longrightarrow> j = unat (highestVersion B))"
proof -
  have "B = push_bit (unat (highestVersion B)) 1 \<or> B = push_bit (unat (highestVersion B) + 1) 1 - 2"
    using assms by (auto simp: hello_bitmap_def Let_def supported_iff not_less split: if_split_asm)
  then show ?thesis
  proof
    assume "B = push_bit (unat (highestVersion B)) 1"
    then have "bit B j \<longleftrightarrow> bit (push_bit (unat (highestVersion B)) 1 :: u32) j" for j by simp
    then show ?thesis by (auto simp: bit_exp_iff)
  next
    assume "B = push_bit (unat (highestVersion B) + 1) 1 - 2"
    then have "bit B i \<longleftrightarrow> bit (push_bit (unat (highestVersion B) + 1) 1 - 2 :: u32) i" by simp
    with bit_all_versions [OF supported_highest(2) [OF assms(1)]] assms show ?thesis by simp
  qed
qed

text \<open>The lower one of the two highest versions, when both peers support it, is what both negotiate.\<close>

lemma negotiated_common:
  assumes "supported A" "supported B" and m: "m = min (highestVersion A) (highestVersion B)" "bit A (unat m)" "bit B (unat m)"
  shows "negotiated A B = m" "highestVersion (A AND B) = m"
proof -
  have um: "unat m = min (unat (highestVersion A)) (unat (highestVersion B))"
    using m(1) by (simp add: min_def word_le_nat_alt)
  show h: "highestVersion (A AND B) = m"
  proof (rule highestVersion_unique)
    show "\<not> bit (A AND B) i" if "unat m < i" for i
      using that supported_highest(4) [OF assms(1), of i] supported_highest(4) [OF assms(2), of i] um by (auto simp: bit_and_iff)
  qed (use m um supported_highest(2) [OF assms(1)] in \<open>auto simp: bit_and_iff\<close>)
  show "negotiated A B = m" using h m by (auto simp: negotiated_def Let_def min_def split: if_split_asm)
qed

lemma negotiated_disjoint:
  assumes "supported A" "supported B" and m: "m = min (highestVersion A) (highestVersion B)" "\<not> (bit A (unat m) \<and> bit B (unat m))"
    and "hello_bitmap A = 0 \<or> hello_bitmap B = 0"
  shows "negotiated A B = 0 \<or> negotiated B A = 0"
proof -
  note hA = supported_highest [OF assms(1)] and hB = supported_highest [OF assms(2)]
  have low: "negotiated X Y = 0 \<or> negotiated Y X = 0" if XY: "supported X" "supported Y" "highestVersion X \<le> highestVersion Y"
      "\<not> (bit X (unat (highestVersion X)) \<and> bit Y (unat (highestVersion X)))" "hello_bitmap X = 0 \<or> hello_bitmap Y = 0" for X Y
  proof -
    note x = supported_highest [OF XY(1)] and y = supported_highest [OF XY(2)]
    have nb: "\<not> bit Y (unat (highestVersion X))" using XY(4) x(3) by blast
    then have less: "highestVersion X < highestVersion Y" using y(3) XY(3) by (auto simp: order_less_le)
    show ?thesis
    proof (cases "hello_bitmap X = 0")
      case True
      moreover have "\<not> highestVersion Y \<le> highestVersion X" using less by simp
      ultimately have "negotiated Y X = 0" using nb by (simp add: negotiated_def Let_def)
      then show ?thesis ..
    next
      case False
      with XY(5) have "hello_bitmap Y = 0" by simp
      moreover have "4 \<le> highestVersion Y" using hello_bitmap_sent [OF False] less by auto
      moreover have "unat (highestVersion X) \<le> unat (highestVersion Y)" "1 \<le> unat (highestVersion X)"
        using less x(1) by (auto simp: word_less_nat_alt Suc_le_eq unat_gt_0)
      ultimately have "\<forall>j. bit Y j \<longrightarrow> j = unat (highestVersion Y)" using not_sent [OF XY(2)] nb by blast
      with x(4) less have "\<not> bit (X AND Y) j" for j by (force simp: bit_and_iff word_less_nat_alt)
      then have "highestVersion (Y AND X) = 0" by (intro highestVersion_unique) (auto simp: bit_and_iff and.commute)
      with False show ?thesis by (simp add: negotiated_def Let_def)
    qed
  qed
  show ?thesis
  proof (cases "highestVersion A \<le> highestVersion B")
    case True
    with low [OF assms(1,2)] m assms(5) show ?thesis by (simp add: min_def)
  next
    case False
    with low [OF assms(2,1)] m assms(5) show ?thesis by (auto simp: min_def)
  qed
qed

text \<open>A peer that supports \<open>A\<close> negotiates with the hello message of a peer that supports \<open>B\<close>.\<close>

definition receive_hello :: "ProtocolVersions \<Rightarrow> bytes \<Rightarrow> fault + byte" where
  "receive_hello A msg =
     bindE (Hello_protocolVersions msg) (\<lambda>vs. negotiateVersion A (Header_version msg) vs)"

lemma receive_hello_eq:
  "supported A \<Longrightarrow> supported B \<Longrightarrow> receive_hello A (hello_message B xid) = Inr (negotiated A B)"
  by (simp add: receive_hello_def Hello_protocolVersions_eq hello_message_fields negotiateVersion_eq)

text \<open>C38: Sending a hello message for a nonempty set of versions 1 to 29 makes no undefined shift and
writes one framed hello message, from which the receiver reads the highest version of the set and the set
itself, or no set at all; the set is left out exactly when the highest version is below 4, the only one, or
comes with all lower ones.\<close>

theorem hello_round_trip:
  assumes "supported vs"
  shows "\<exists>b' msg. HelloBuilder_send (HelloBuilder_make vs) ch = Inr (mc_nextXid ch, b',
      ch\<lparr>mc_buf := mc_buf ch @ msg, mc_nextXid := mc_nextXid ch + 1, mc_flushed := True\<rparr>) \<and>
    framed msg \<and> Header_type msg = 0 \<and> Header_xid msg = mc_nextXid ch \<and> Header_version msg = highestVersion vs \<and>
    Hello_protocolVersions msg =
      Inr (if highestVersion vs < 4 \<or> vs = push_bit (unat (highestVersion vs)) 1 \<or>
             vs = push_bit (unat (highestVersion vs) + 1) 1 - 2 then 0 else vs)"
  using HelloBuilder_send_eq [OF assms, of ch] hello_message_fields [of vs "mc_nextXid ch"]
    Hello_protocolVersions_eq [of vs "mc_nextXid ch"]
  by (auto simp: hello_bitmap_def Let_def)

text \<open>Versions 1, 4 and 5.\<close>

theorem hello_round_trip_witness:
  "\<exists>b' msg. HelloBuilder_send (HelloBuilder_make 0x32) (MemoryChannel_make 5) = Inr (1, b',
      \<lparr>mc_buf = msg, mc_nextXid = 2, mc_version = 5, mc_flushed = True\<rparr>) \<and>
    framed msg \<and> Header_version msg = 5 \<and> Hello_protocolVersions msg = Inr 0x32"
proof -
  have "supported 0x32" "highestVersion 0x32 = 5" "0x32 \<noteq> (push_bit (unat (5 :: byte)) 1 :: u32)"
    "0x32 \<noteq> (push_bit (unat (5 :: byte) + 1) 1 - 2 :: u32)" by code_simp+
  with hello_round_trip [of "0x32" "MemoryChannel_make 5"] show ?thesis by (auto simp: MemoryChannel_make_def)
qed

text \<open>C8: Two peers never settle on different versions: when both exchange hello messages and both
negotiations give a version, it is the same one, and it is the highest version both support; no
negotiation makes an undefined shift.\<close>

theorem negotiation_agrees:
  assumes "supported A" and "supported B"
  shows "\<exists>ra rb. receive_hello A (hello_message B xb) = Inr ra \<and> receive_hello B (hello_message A xa) = Inr rb \<and>
    (ra \<noteq> 0 \<and> rb \<noteq> 0 \<longrightarrow> ra = rb \<and> ra = highestVersion (intersection A B))"
proof -
  let ?m = "min (highestVersion A) (highestVersion B)"
  consider "bit A (unat ?m)" "bit B (unat ?m)" | "hello_bitmap A \<noteq> 0" "hello_bitmap B \<noteq> 0" |
    "negotiated A B = 0 \<or> negotiated B A = 0" using negotiated_disjoint [OF assms refl] by blast
  then have "negotiated A B \<noteq> 0 \<and> negotiated B A \<noteq> 0 \<longrightarrow>
      negotiated A B = negotiated B A \<and> negotiated A B = highestVersion (A AND B)"
  proof cases
    case 1
    with negotiated_common [OF assms refl] negotiated_common [OF assms(2,1), of ?m] show ?thesis by (simp add: min.commute)
  next
    case 2
    then show ?thesis by (simp add: negotiated_def Let_def and.commute)
  qed auto
  then show ?thesis by (simp add: receive_hello_eq assms intersection_def)
qed

theorem negotiation_agrees_witness:
  "supported 0x12 \<and> supported 0x32 \<and> (\<exists>ra rb. receive_hello 0x12 (hello_message 0x32 7) = Inr ra \<and>
    receive_hello 0x32 (hello_message 0x12 9) = Inr rb \<and> (ra \<noteq> 0 \<and> rb \<noteq> 0 \<longrightarrow> ra = rb \<and> ra = highestVersion (intersection 0x12 0x32)))"
proof -
  have "supported 0x12" "supported 0x32" by code_simp+
  with negotiation_agrees [of "0x12" "0x32" 7 9] show ?thesis by blast
qed

text \<open>C37: Negotiation succeeds on both sides with the highest common version whenever both peers support the
lower one of their two highest versions, and also whenever both send their set of versions and have
a version in common.\<close>

theorem negotiation_succeeds:
  assumes "supported A" and "supported B" and m: "m = min (highestVersion A) (highestVersion B)"
    and "bit A (unat m) \<and> bit B (unat m) \<or> hello_bitmap A \<noteq> 0 \<and> hello_bitmap B \<noteq> 0 \<and> intersection A B \<noteq> 0"
  shows "\<exists>v. v \<noteq> 0 \<and> v = highestVersion (intersection A B) \<and> bit A (unat v) \<and> bit B (unat v) \<and>
    receive_hello A (hello_message B xb) = Inr v \<and> receive_hello B (hello_message A xa) = Inr v"
  using assms(4)
proof
  assume b: "bit A (unat m) \<and> bit B (unat m)"
  moreover have "m \<noteq> 0" using m supported_highest(1) [OF assms(1)] supported_highest(1) [OF assms(2)] by (simp add: min_def)
  ultimately show ?thesis
    using negotiated_common [OF assms(1-3)] negotiated_common [OF assms(2,1), of m] m
    by (intro exI [of _ m]) (simp add: receive_hello_eq assms(1,2) intersection_def min.commute)
next
  assume b: "hello_bitmap A \<noteq> 0 \<and> hello_bitmap B \<noteq> 0 \<and> intersection A B \<noteq> 0"
  then have "supported (intersection A B)" using assms(1) by (auto simp: supported_iff intersection_def bit_and_iff)
  note c = supported_highest [OF this]
  show ?thesis
    using b c(1,3) by (intro exI [of _ "highestVersion (intersection A B)"])
      (simp add: receive_hello_eq assms(1,2) negotiated_def Let_def intersection_def and.commute bit_and_iff)
qed

text \<open>Versions 1, 4 and versions 1, 3, 4, 6.\<close>

theorem negotiation_succeeds_witness:
  "\<exists>v. v \<noteq> 0 \<and> v = highestVersion (intersection 0x12 0x5A) \<and> bit (0x12 :: u32) (unat v) \<and> bit (0x5A :: u32) (unat v) \<and>
    receive_hello 0x12 (hello_message 0x5A 7) = Inr v \<and> receive_hello 0x5A (hello_message 0x12 9) = Inr v"
proof -
  have "supported 0x12" "supported 0x5A" "4 = min (highestVersion 0x12) (highestVersion 0x5A)"
    "bit (0x12 :: u32) (unat (4 :: byte)) \<and> bit (0x5A :: u32) (unat (4 :: byte))" by code_simp+
  then show ?thesis using negotiation_succeeds [of "0x12" "0x5A" 4 7 9] by blast
qed

end
