(* ===== verification/Connections.thy ===== *)
theory Connections
  imports Addresses Normalize Versions
begin

text \<open>
  Connections, their registry and the opening handshake (\<^verbatim>\<open>src/ofp/sys/connection.cpp\<close>,
  \<^verbatim>\<open>src/ofp/sys/engine.cpp\<close>, \<^verbatim>\<open>src/ofp/sys/defaulthandshake.cpp\<close>). A pointer to a connection is the number of the
  connection; following a pointer to a deleted connection is the fault \<open>Dangling\<close>. The part of a connection that is
  written to is a \<^verbatim>\<open>Writable\<close> like the memory channel and has the same record. The sockets, the timer and the
  log are not modelled; the listener that the application installs after the handshake is seen
  only through the messages it gets. The bytes of the error reply to an incompatible hello message are an
  argument, as are the uninitialized bytes of the normalization. Connections with the flag
  \<^verbatim>\<open>kManualDelete\<close> (UDP) are left out.
\<close>

declare add_2_eq_Suc [simp del] add_2_eq_Suc' [simp del] elem_params [simp del]

section \<open>State\<close>

type_synonym connid = nat

datatype conn_fault = Dangling connid | MsgFault fault

definition liftE :: "fault + 'a \<Rightarrow> conn_fault + 'a" where
  "liftE r = (case r of Inl e \<Rightarrow> Inl (MsgFault e) | Inr x \<Rightarrow> Inr x)"

datatype HandshakeState = kHandshakeInit | kSentHello | kSentFeaturesRequest | kSentPortRequest

primrec handshake_rank :: "HandshakeState \<Rightarrow> nat" where
  "handshake_rank kHandshakeInit = 0"
| "handshake_rank kSentHello = 1"
| "handshake_rank kSentFeaturesRequest = 2"
| "handshake_rank kSentPortRequest = 3"

instantiation HandshakeState :: linorder
begin

definition less_eq_HandshakeState :: "HandshakeState \<Rightarrow> HandshakeState \<Rightarrow> bool" where
  "s \<le> t \<longleftrightarrow> handshake_rank s \<le> handshake_rank t"

definition less_HandshakeState :: "HandshakeState \<Rightarrow> HandshakeState \<Rightarrow> bool" where
  "s < t \<longleftrightarrow> handshake_rank s < handshake_rank t"

instance
proof
  fix s t :: HandshakeState
  show "s \<le> t \<Longrightarrow> t \<le> s \<Longrightarrow> s = t" by (cases s; cases t) (simp_all add: less_eq_HandshakeState_def)
qed (auto simp: less_eq_HandshakeState_def less_HandshakeState_def)

end

record DefaultHandshake =
  hs_versions :: ProtocolVersions
  hs_wantFeatures :: bool
  hs_auxiliary :: bool
  hs_factory :: bool
  hs_startingXid :: u32
  hs_state :: HandshakeState
  hs_timeStarted :: nat
  hs_featuresReply :: bytes

datatype listener = NoListener | HandshakeListener DefaultHandshake | NewListener

record Connection =
  cn_channel :: MemoryChannel
  cn_listener :: listener
  cn_main :: connid
  cn_auxList :: "connid list"
  cn_datapathId :: DatapathID
  cn_auxiliaryId :: byte
  cn_permitsAuxiliary :: bool
  cn_keepAliveTimeout :: nat
  cn_shutdown :: bool
  cn_connectionUp :: bool
  cn_channelUp :: bool
  cn_idle :: bool
  cn_timeReadStarted :: nat
  cn_delivered :: "bytes list"

record Engine =
  en_conns :: "connid \<rightharpoonup> Connection"
  en_dpidMap :: "DatapathID \<rightharpoonup> connid"
  en_nextId :: connid

definition conn :: "Engine \<Rightarrow> connid \<Rightarrow> conn_fault + Connection" where
  "conn E c = (case en_conns E c of None \<Rightarrow> Inl (Dangling c) | Some k \<Rightarrow> Inr k)"

definition modify :: "connid \<Rightarrow> (Connection \<Rightarrow> Connection) \<Rightarrow> Engine \<Rightarrow> conn_fault + Engine" where
  "modify c f E = bindE (conn E c) (\<lambda>k. Inr (E\<lparr>en_conns := (en_conns E)(c \<mapsto> f k)\<rparr>))"

definition assertC :: "bool \<Rightarrow> conn_fault + unit" where
  "assertC b = liftE (assertE b)"

definition on_channel :: "connid \<Rightarrow> (MemoryChannel \<Rightarrow> fault + MemoryChannel) \<Rightarrow> Engine \<Rightarrow> conn_fault + Engine" where
  "on_channel c f E =
     bindE (conn E c) (\<lambda>k. bindE (liftE (f (cn_channel k))) (\<lambda>ch. modify c (cn_channel_update (\<lambda>_. ch)) E))"

definition shutdown :: "connid \<Rightarrow> Engine \<Rightarrow> conn_fault + Engine" where
  "shutdown c E = modify c (cn_shutdown_update (\<lambda>_. True)) E"

section \<open>The registry of data paths\<close>

text \<open>The search for an auxiliary connection with the same id.\<close>

fun find_aux :: "byte \<Rightarrow> connid list \<Rightarrow> Engine \<Rightarrow> conn_fault + connid option" where
  "find_aux auxID [] E = Inr None"
| "find_aux auxID (x # xs) E =
     bindE (conn E x) (\<lambda>k. if cn_auxiliaryId k = auxID then Inr (Some x) else find_aux auxID xs E)"

definition setMainConnection :: "connid \<Rightarrow> connid \<Rightarrow> byte \<Rightarrow> Engine \<Rightarrow> conn_fault + Engine" where
  "setMainConnection this channel auxID E =
     bindE (conn E this) (\<lambda>k.
     bindE (assertC (cn_main k = this)) (\<lambda>_.
     bindE (assertC (channel \<noteq> this)) (\<lambda>_.
     bindE (assertC (auxID \<noteq> 0)) (\<lambda>_.
     bindE (conn E channel) (\<lambda>p.
     bindE (modify this (\<lambda>k. k\<lparr>cn_main := channel, cn_datapathId := cn_datapathId p, cn_auxiliaryId := auxID\<rparr>) E) (\<lambda>E.
     bindE (find_aux auxID (cn_auxList p) E) (\<lambda>found.
     bindE (case found of None \<Rightarrow> Inr E | Some x \<Rightarrow> shutdown x E) (\<lambda>E.
     modify channel (\<lambda>p. p\<lparr>cn_auxList := cn_auxList p @ [this]\<rparr>) E))))))))"

definition registerDatapath :: "connid \<Rightarrow> Engine \<Rightarrow> conn_fault + (bool \<times> Engine)" where
  "registerDatapath channel E =
     bindE (conn E channel) (\<lambda>k.
     let dpid = cn_datapathId k; auxID = cn_auxiliaryId k in
     if auxID = 0 then
       (case en_dpidMap E dpid of
          None \<Rightarrow> Inr (True, E\<lparr>en_dpidMap := (en_dpidMap E)(dpid \<mapsto> channel)\<rparr>)
        | Some old \<Rightarrow>
            if old \<noteq> channel then
              bindE (shutdown old (E\<lparr>en_dpidMap := (en_dpidMap E)(dpid \<mapsto> channel)\<rparr>)) (\<lambda>E. Inr (True, E))
            else Inr (True, E))
     else
       (case en_dpidMap E dpid of
          None \<Rightarrow> Inr (False, E)
        | Some parent \<Rightarrow>
            bindE (conn E parent) (\<lambda>p.
            if cn_permitsAuxiliary p then bindE (setMainConnection channel parent auxID E) (\<lambda>E. Inr (True, E))
            else Inr (False, E))))"

definition releaseDatapath :: "connid \<Rightarrow> Engine \<Rightarrow> conn_fault + Engine" where
  "releaseDatapath channel E =
     bindE (conn E channel) (\<lambda>k.
     Inr (if cn_auxiliaryId k = 0 \<and> en_dpidMap E (cn_datapathId k) = Some channel
          then E\<lparr>en_dpidMap := (en_dpidMap E)(cn_datapathId k := None)\<rparr> else E))"

definition dpid_empty :: "DatapathID \<Rightarrow> bool" where
  "dpid_empty dpid = (rd64 0 dpid = 0)"

definition postDatapath :: "connid \<Rightarrow> DatapathID \<Rightarrow> byte \<Rightarrow> Engine \<Rightarrow> conn_fault + (bool \<times> Engine)" where
  "postDatapath c datapathId auxiliaryId E =
     (if dpid_empty datapathId then Inr (False, E)
      else bindE (modify c (\<lambda>k. k\<lparr>cn_datapathId := datapathId, cn_auxiliaryId := auxiliaryId\<rparr>) E) (registerDatapath c))"

text \<open>\<^verbatim>\<open>~Connection\<close>: a main connection detaches and shuts down its auxiliary connections, an auxiliary
connection leaves the list of its main connection.\<close>

fun detach_aux :: "connid list \<Rightarrow> Engine \<Rightarrow> conn_fault + Engine" where
  "detach_aux [] E = Inr E"
| "detach_aux (x # xs) E =
     bindE (modify x (\<lambda>k. k\<lparr>cn_main := x\<rparr>) E) (\<lambda>E. bindE (shutdown x E) (detach_aux xs))"

definition Connection_delete :: "connid \<Rightarrow> Engine \<Rightarrow> conn_fault + Engine" where
  "Connection_delete this E =
     bindE (conn E this) (\<lambda>k.
     bindE (if \<not> dpid_empty (cn_datapathId k) then
              bindE (releaseDatapath this E) (\<lambda>E.
              if cn_main k = this then detach_aux (cn_auxList k) E
              else modify (cn_main k) (\<lambda>p. p\<lparr>cn_auxList := remove1 this (cn_auxList p)\<rparr>) E)
            else Inr E) (\<lambda>E.
     Inr (E\<lparr>en_conns := (en_conns E)(this := None)\<rparr>)))"

section \<open>The handshake\<close>

definition kKeepAliveDefaultTimeout :: nat where "kKeepAliveDefaultTimeout = 10000"
definition kControllerKeepAliveTimeout :: nat where "kControllerKeepAliveTimeout = 10000"
definition kRawKeepAliveTimeout :: nat where "kRawKeepAliveTimeout = 6000"
definition kHandshakeTimeout :: nat where "kHandshakeTimeout = 5000"

text \<open>\<^verbatim>\<open>cast\<close>: a rejected message is the null pointer.\<close>

definition if_cast :: "msg_class \<Rightarrow> bytes \<Rightarrow> conn_fault + 'a \<Rightarrow> conn_fault + 'a \<Rightarrow> conn_fault + 'a" where
  "if_cast c msg null ok =
     (case castMessage c msg of Inr _ \<Rightarrow> ok | Inl (Invalid _) \<Rightarrow> null | Inl e \<Rightarrow> Inl (MsgFault e))"

definition set_handshake :: "connid \<Rightarrow> DefaultHandshake \<Rightarrow> Engine \<Rightarrow> conn_fault + Engine" where
  "set_handshake c h E = modify c (cn_listener_update (\<lambda>_. HandshakeListener h)) E"

definition sendHello :: "nat \<Rightarrow> connid \<Rightarrow> DefaultHandshake \<Rightarrow> Engine \<Rightarrow> conn_fault + Engine" where
  "sendHello now c h E =
     bindE (on_channel c (\<lambda>ch. bindE (HelloBuilder_send (HelloBuilder_make (hs_versions h)) ch) (\<lambda>(_, _, ch). Inr ch)) E) (\<lambda>E.
     set_handshake c (h\<lparr>hs_state := kSentHello, hs_timeStarted := now\<rparr>) E)"

text \<open>\<^verbatim>\<open>HeaderOnlyBuilder::send\<close> of a message that is not a reply.\<close>

definition HeaderOnlyBuilder_send :: "byte \<Rightarrow> MemoryChannel \<Rightarrow> fault + MemoryChannel" where
  "HeaderOnlyBuilder_send origType ch =
     (let (xid, ch) = nextXid ch; version = mc_version ch in
      bindE (translateType 4 origType version) (\<lambda>newType.
      if newType \<noteq> OFPT_UNSUPPORTED then
        bindE (setLength 8 (setVersion version (setType newType (zeros 8)))) (\<lambda>msg.
        Inr (mc_flush (mc_write (setXid xid msg) ch)))
      else Inr ch))"

definition sendFeaturesRequest :: "nat \<Rightarrow> connid \<Rightarrow> DefaultHandshake \<Rightarrow> Engine \<Rightarrow> conn_fault + Engine" where
  "sendFeaturesRequest now c h E =
     bindE (on_channel c (HeaderOnlyBuilder_send (msg_type FeaturesRequest)) E) (\<lambda>E.
     set_handshake c (h\<lparr>hs_state := kSentFeaturesRequest, hs_timeStarted := now\<rparr>) E)"

definition sendPortDescRequest :: "nat \<Rightarrow> connid \<Rightarrow> DefaultHandshake \<Rightarrow> Engine \<Rightarrow> conn_fault + Engine" where
  "sendPortDescRequest now c h E =
     bindE (on_channel c (\<lambda>ch. bindE (MultipartRequestBuilder_send
         (setMultipartType OFPMP_PORT_DESC \<lparr>mb_msg = setType 18 (zeros 16), mb_body = []\<rparr>) ch) (\<lambda>(_, _, ch). Inr ch)) E) (\<lambda>E.
     set_handshake c (h\<lparr>hs_state := kSentPortRequest, hs_timeStarted := now\<rparr>) E)"

definition appendPortsToFeaturesReply :: "bytes \<Rightarrow> DefaultHandshake \<Rightarrow> fault + DefaultHandshake" where
  "appendPortsToFeaturesReply ports h =
     bindE (assertE (hs_featuresReply h \<noteq> [])) (\<lambda>_.
     if ports = [] then Inr h
     else
       bindE (get16 2 (hs_featuresReply h)) (\<lambda>len.
       bindE (assertE (unat len mod 8 = 0)) (\<lambda>_.
       bindE (setLength (unat len + length ports) (hs_featuresReply h)) (\<lambda>msg.
       Inr (h\<lparr>hs_featuresReply := msg @ ports\<rparr>)))))"

text \<open>The application's listener, or none without a factory, takes the place of the handshake.\<close>

definition installNewChannelListener :: "connid \<Rightarrow> DefaultHandshake \<Rightarrow> Engine \<Rightarrow> conn_fault + Engine" where
  "installNewChannelListener c h E =
     modify c (cn_listener_update (\<lambda>_. if hs_factory h then NewListener else NoListener)) E"

definition clearChannelListener :: "connid \<Rightarrow> Engine \<Rightarrow> conn_fault + Engine" where
  "clearChannelListener c E = modify c (cn_listener_update (\<lambda>_. NoListener)) E"

definition onChannelUp :: "nat \<Rightarrow> connid \<Rightarrow> DefaultHandshake \<Rightarrow> Engine \<Rightarrow> conn_fault + Engine" where
  "onChannelUp now c h E =
     bindE (assertC (hs_state h = kHandshakeInit)) (\<lambda>_.
     bindE (on_channel c (\<lambda>ch. Inr (setNextXid (hs_startingXid h) ch)) E) (sendHello now c h))"

definition onTickle :: "nat \<Rightarrow> connid \<Rightarrow> DefaultHandshake \<Rightarrow> Engine \<Rightarrow> conn_fault + Engine" where
  "onTickle now c h E = (if now - hs_timeStarted h \<ge> kHandshakeTimeout then shutdown c E else Inr E)"

text \<open>\<open>source\<close> is the connection the message came from; \<open>err\<close> gives the error message for it.\<close>

definition onHello ::
  "(bytes \<Rightarrow> MemoryChannel \<Rightarrow> bytes) \<Rightarrow> nat \<Rightarrow> connid \<Rightarrow> DefaultHandshake \<Rightarrow> connid \<Rightarrow> bytes \<Rightarrow> Engine \<Rightarrow> conn_fault + Engine" where
  "onHello err now c h source msg E =
     (if hs_state h > kSentHello then Inr E
      else if_cast Hello msg (Inr E)
        (bindE (liftE (Hello_protocolVersions msg)) (\<lambda>msgVersionSet.
         bindE (liftE (negotiateVersion (hs_versions h) (Header_version msg) msgVersionSet)) (\<lambda>version.
         if version = 0 then
           bindE (on_channel c (\<lambda>ch. Inr (ch\<lparr>mc_version := highestVersion (hs_versions h)\<rparr>)) E) (\<lambda>E.
           bindE (if \<not> hs_wantFeatures h then on_channel source (\<lambda>ch. Inr (mc_flush (mc_write (err msg ch) ch))) E
                  else Inr E) (shutdown c))
         else
           bindE (on_channel c (\<lambda>ch. Inr (ch\<lparr>mc_version := version\<rparr>)) E) (\<lambda>E.
           if hs_wantFeatures h then
             bindE (modify c (cn_keepAliveTimeout_update (\<lambda>_. kControllerKeepAliveTimeout)) E) (sendFeaturesRequest now c h)
           else
             bindE (modify c (cn_keepAliveTimeout_update (\<lambda>_. kRawKeepAliveTimeout)) E) (installNewChannelListener c h))))))"

definition onFeaturesReply :: "nat \<Rightarrow> connid \<Rightarrow> DefaultHandshake \<Rightarrow> bytes \<Rightarrow> Engine \<Rightarrow> conn_fault + Engine" where
  "onFeaturesReply now c h msg E =
     (if hs_state h \<noteq> kSentFeaturesRequest then Inr E
      else if_cast FeaturesReply msg (Inr E)
        (let auxiliaryId = rd8 21 msg in
         bindE (postDatapath c (sub_bytes 8 8 msg) auxiliaryId E) (\<lambda>(ok, E).
         if ok then
           bindE (conn E c) (\<lambda>k.
           if hs_auxiliary h \<and> cn_main k \<noteq> c then
             bindE (assertC (auxiliaryId \<noteq> 0)) (\<lambda>_. clearChannelListener c E)
           else
             let h = h\<lparr>hs_featuresReply := msg\<rparr> in
             if mc_version (cn_channel k) > 1 then sendPortDescRequest now c h E
             else installNewChannelListener c h E)
         else shutdown c E)))"

definition onPortDescReply :: "connid \<Rightarrow> DefaultHandshake \<Rightarrow> bytes \<Rightarrow> Engine \<Rightarrow> conn_fault + Engine" where
  "onPortDescReply c h msg E =
     (if hs_state h \<noteq> kSentPortRequest then Inr E
      else if_cast MultipartReply msg (Inr E)
        (bindE (liftE (appendPortsToFeaturesReply (drop 16 msg) h)) (\<lambda>h. installNewChannelListener c h E)))"

definition Message_subtype :: "bytes \<Rightarrow> u16 option" where
  "Message_subtype msg =
     (if (Header_type msg = 18 \<or> Header_type msg = 19) \<and> length msg \<ge> 12 then Some (rd16 8 msg) else None)"

definition onMessage ::
  "(bytes \<Rightarrow> MemoryChannel \<Rightarrow> bytes) \<Rightarrow> nat \<Rightarrow> connid \<Rightarrow> DefaultHandshake \<Rightarrow> connid \<Rightarrow> bytes \<Rightarrow> Engine \<Rightarrow> conn_fault + Engine" where
  "onMessage err now c h source msg E =
     (if Header_type msg = msg_type Hello then onHello err now c h source msg E
      else if Header_type msg = msg_type FeaturesReply then onFeaturesReply now c h msg E
      else if Header_type msg = msg_type MultipartReply \<and> Message_subtype msg = Some OFPMP_PORT_DESC
        then onPortDescReply c h msg E
      else Inr E)"

section \<open>Received messages\<close>

definition kPassThruData :: bytes where "kPassThruData = map of_char ''__OFTR__''"
definition kKeepAliveData :: bytes where "kKeepAliveData = map of_char ''??OFTR??''"
definition kKeepAliveXID :: u32 where "kKeepAliveXID = 0xFBD0FF86"

text \<open>Whether the message was handled, and what was written.\<close>

definition echoMessageHandled :: "connid \<Rightarrow> bytes \<Rightarrow> Engine \<Rightarrow> conn_fault + (bool \<times> Engine)" where
  "echoMessageHandled c msg E =
     (let reply = bindE (on_channel c (\<lambda>ch. Inr (mc_flush (mc_write (setType (msg_type EchoReply) msg) ch))) E) (\<lambda>E. Inr (True, E)) in
      if Header_type msg = msg_type EchoRequest then
        if_cast EchoRequest msg reply
          (if 16 \<le> length msg \<and> sub_bytes 8 8 msg = kPassThruData then Inr (False, E) else reply)
      else if Header_type msg = msg_type EchoReply then
        if_cast EchoReply msg (Inr (False, E))
          (Inr (Header_xid msg = kKeepAliveXID \<and> drop 8 msg = kKeepAliveData, E))
      else Inr (False, E))"

definition postMessage ::
  "bool \<Rightarrow> (nat \<Rightarrow> byte) \<Rightarrow> (bytes \<Rightarrow> MemoryChannel \<Rightarrow> bytes) \<Rightarrow> nat \<Rightarrow> connid \<Rightarrow> bytes \<Rightarrow> Engine \<Rightarrow> (conn_fault + Engine) option" where
  "postMessage little junk err now this msg E =
     (case bindE (conn E this) (\<lambda>k.
         bindE (if mc_version (cn_channel k) \<ge> 1 then echoMessageHandled this msg E else Inr (False, E)) (\<lambda>(handled, E).
         if handled then Inr (cn_main k, NoListener, E)
         else bindE (conn E (cn_main k)) (\<lambda>p. Inr (cn_main k, cn_listener p, E)))) of
        Inl e \<Rightarrow> Some (Inl e)
      | Inr (c, l, E) \<Rightarrow>
          if l = NoListener then Some (Inr E)
          else
            map_option (\<lambda>r. bindE (liftE r) (\<lambda>msg.
              case l of
                HandshakeListener h \<Rightarrow> onMessage err now c h this msg E
              | _ \<Rightarrow> modify c (\<lambda>p. p\<lparr>cn_delivered := cn_delivered p @ [msg]\<rparr>) E))
              (normalize little junk msg))"

section \<open>Up, down and idle\<close>

text \<open>Of the application's listener, \<open>taken\<close> tells whether it took the tickle. The clock is monotonic.\<close>

definition updateTimeReadStarted :: "nat \<Rightarrow> connid \<Rightarrow> Engine \<Rightarrow> conn_fault + Engine" where
  "updateTimeReadStarted now c E = modify c (\<lambda>k. k\<lparr>cn_timeReadStarted := now, cn_idle := False\<rparr>) E"

definition channelUp :: "nat \<Rightarrow> connid \<Rightarrow> Engine \<Rightarrow> conn_fault + Engine" where
  "channelUp now c E =
     bindE (conn E c) (\<lambda>k.
     if \<not> cn_channelUp k then
       bindE (modify c (cn_channelUp_update (\<lambda>_. True)) E) (\<lambda>E.
       case cn_listener k of HandshakeListener h \<Rightarrow> onChannelUp now c h E | _ \<Rightarrow> Inr E)
     else Inr E)"

definition channelDown :: "connid \<Rightarrow> Engine \<Rightarrow> conn_fault + Engine" where
  "channelDown c E =
     bindE (conn E c) (\<lambda>k. if cn_channelUp k then modify c (cn_channelUp_update (\<lambda>_. False)) E else Inr E)"

text \<open>The message and the data of an \<^verbatim>\<open>EchoRequestBuilder\<close>.\<close>

type_synonym EchoRequestBuilder = "bytes \<times> bytes"

definition EchoRequestBuilder_make :: "u32 \<Rightarrow> EchoRequestBuilder" where
  "EchoRequestBuilder_make xid = (setXid xid (setType (msg_type EchoRequest) (zeros 8)), [])"

definition setKeepAlive :: "EchoRequestBuilder \<Rightarrow> EchoRequestBuilder" where
  "setKeepAlive b = (setXid kKeepAliveXID (fst b), kKeepAliveData)"

definition EchoRequestBuilder_send :: "EchoRequestBuilder \<Rightarrow> MemoryChannel \<Rightarrow> fault + (u32 \<times> MemoryChannel)" where
  "EchoRequestBuilder_send b ch =
     (let (msg, data) = b in
      bindE (setLength (8 + length data) (setVersion (mc_version ch) msg)) (\<lambda>msg.
      let (msg, ch) = (if Header_xid msg = 0 then let (xid, ch) = nextXid ch in (setXid xid msg, ch) else (msg, ch)) in
      Inr (Header_xid msg, mc_flush (mc_write data (mc_write msg ch)))))"

definition tickle :: "nat \<Rightarrow> bool \<Rightarrow> connid \<Rightarrow> Engine \<Rightarrow> conn_fault + Engine" where
  "tickle now taken c E =
     bindE (conn E c) (\<lambda>k.
     bindE (assertC (cn_connectionUp k)) (\<lambda>_.
     case cn_listener k of
       HandshakeListener h \<Rightarrow> onTickle now c h E
     | l \<Rightarrow>
         let age = now - cn_timeReadStarted k in
         if l = NewListener \<and> taken then Inr E
         else if age < cn_keepAliveTimeout k then Inr E
         else if mc_version (cn_channel k) < 1 \<or> age \<ge> 2 * cn_keepAliveTimeout k then shutdown c E
         else if \<not> cn_idle k then
           bindE (modify c (cn_idle_update (\<lambda>_. True)) E) (\<lambda>E.
           on_channel c (\<lambda>ch. bindE (EchoRequestBuilder_send (setKeepAlive (EchoRequestBuilder_make 0)) ch) (\<lambda>(_, ch). Inr ch)) E)
         else Inr E))"

end
