(* ===== verification/ConnectionSafety.thy ===== *)
theory ConnectionSafety
  imports Connections
begin

text \<open>
  The runs of an engine with any number of connections, and what holds in all of them: no pointer between
  connections or from the registry of data paths is left dangling, and a connection that is past the
  exchange of hello messages runs a version it supports.
\<close>

declare add_2_eq_Suc [simp del] add_2_eq_Suc' [simp del] elem_params [simp del]

section \<open>Runs\<close>

definition Connection_make :: "connid \<Rightarrow> nat \<Rightarrow> bool \<Rightarrow> DefaultHandshake \<Rightarrow> Connection" where
  "Connection_make this now permitsAuxiliary h =
     \<lparr>cn_channel = (MemoryChannel_make 0)\<lparr>mc_nextXid := 0\<rparr>, cn_listener = HandshakeListener h, cn_main = this, cn_auxList = [],
      cn_datapathId = zeros 8, cn_auxiliaryId = 0, cn_permitsAuxiliary = permitsAuxiliary,
      cn_keepAliveTimeout = kKeepAliveDefaultTimeout, cn_shutdown = False, cn_connectionUp = False, cn_channelUp = False,
      cn_idle = False, cn_timeReadStarted = now, cn_delivered = []\<rparr>"

definition DefaultHandshake_make :: "ProtocolVersions \<Rightarrow> bool \<Rightarrow> bool \<Rightarrow> bool \<Rightarrow> u32 \<Rightarrow> DefaultHandshake" where
  "DefaultHandshake_make vs wantFeatures auxiliary factory xid =
     \<lparr>hs_versions = vs, hs_wantFeatures = wantFeatures, hs_auxiliary = auxiliary, hs_factory = factory,
      hs_startingXid = xid, hs_state = kHandshakeInit, hs_timeStarted = 0, hs_featuresReply = []\<rparr>"

text \<open>What happens to an engine: a connection is made and comes up, starts to read, gets a message, is checked by the
timer, goes down, is deleted.\<close>

datatype event =
    ConnUp nat bool ProtocolVersions bool bool bool u32
  | ReadStarted nat connid
  | Receive nat connid bytes
  | Tickle nat bool connid
  | Down connid
  | Delete connid

definition live :: "Engine \<Rightarrow> event \<Rightarrow> bool" where
  "live E ev =
     (case ev of
        ConnUp _ _ _ _ _ _ _ \<Rightarrow> True
      | ReadStarted _ c \<Rightarrow> \<not> Option.is_none (en_conns E c)
      | Receive _ c _ \<Rightarrow> \<not> Option.is_none (en_conns E c)
      | Tickle _ _ c \<Rightarrow> \<not> Option.is_none (en_conns E c)
      | Down c \<Rightarrow> \<not> Option.is_none (en_conns E c)
      | Delete c \<Rightarrow> \<not> Option.is_none (en_conns E c))"

definition run :: "bool \<Rightarrow> (nat \<Rightarrow> byte) \<Rightarrow> (bytes \<Rightarrow> MemoryChannel \<Rightarrow> bytes) \<Rightarrow> event \<Rightarrow> Engine \<Rightarrow> (conn_fault + Engine) option" where
  "run little junk err ev E =
     (case ev of
        ConnUp now permitsAuxiliary vs wantFeatures auxiliary factory xid \<Rightarrow>
          (let c = en_nextId E;
               k = Connection_make c now permitsAuxiliary (DefaultHandshake_make vs wantFeatures auxiliary factory xid) in
           Some (channelUp now c (E\<lparr>en_conns := (en_conns E)(c \<mapsto> k\<lparr>cn_connectionUp := True\<rparr>), en_nextId := c + 1\<rparr>)))
      | ReadStarted now c \<Rightarrow> Some (updateTimeReadStarted now c E)
      | Receive now c msg \<Rightarrow> postMessage little junk err now c msg E
      | Tickle now taken c \<Rightarrow> Some (tickle now taken c E)
      | Down c \<Rightarrow> Some (channelDown c E)
      | Delete c \<Rightarrow> Some (Connection_delete c E))"

definition Engine_init :: Engine where
  "Engine_init = \<lparr>en_conns = Map.empty, en_dpidMap = Map.empty, en_nextId = 1\<rparr>"

inductive reachable :: "bool \<Rightarrow> (nat \<Rightarrow> byte) \<Rightarrow> (bytes \<Rightarrow> MemoryChannel \<Rightarrow> bytes) \<Rightarrow> Engine \<Rightarrow> bool"
  for little junk err where
  reachable_init: "reachable little junk err Engine_init"
| reachable_step: "reachable little junk err E \<Longrightarrow> live E ev \<Longrightarrow> run little junk err ev E = Some (Inr E') \<Longrightarrow>
    reachable little junk err E'"

section \<open>The invariant\<close>

text \<open>The pointers of the connections: main connection, auxiliary connections, data path and auxiliary id.\<close>

type_synonym pointers = "connid \<rightharpoonup> connid \<times> connid list \<times> DatapathID \<times> byte"

definition ptrs :: "Engine \<Rightarrow> pointers" where
  "ptrs E = (\<lambda>c. map_option (\<lambda>k. (cn_main k, cn_auxList k, cn_datapathId k, cn_auxiliaryId k)) (en_conns E c))"

text \<open>Every registered data path belongs to a live main connection with this data path; the main connection
of an auxiliary connection is live and lists it; listed connections are live and point back.\<close>

definition ptr_inv :: "pointers \<Rightarrow> (DatapathID \<rightharpoonup> connid) \<Rightarrow> bool" where
  "ptr_inv P D \<longleftrightarrow>
     (\<forall>d c. D d = Some c \<longrightarrow> \<not> dpid_empty d \<and> (\<exists>xs. P c = Some (c, xs, d, 0))) \<and>
     (\<forall>c m xs d a. P c = Some (m, xs, d, a) \<longrightarrow>
        (m \<noteq> c \<longrightarrow> xs = [] \<and> \<not> dpid_empty d \<and> (\<exists>m' xs' d' a'. P m = Some (m', xs', d', a') \<and> c \<in> set xs')) \<and>
        (xs \<noteq> [] \<longrightarrow> \<not> dpid_empty d) \<and> distinct xs \<and>
        (\<forall>x\<in>set xs. x \<noteq> c \<and> (\<exists>xs' d' a'. P x = Some (c, xs', d', a'))))"

text \<open>A connection whose handshake has not asked for the ports yet is not registered; one that has asked for the
features runs a version it supports.\<close>

definition hs_ok :: "(DatapathID \<rightharpoonup> connid) \<Rightarrow> connid \<Rightarrow> Connection \<Rightarrow> bool" where
  "hs_ok D c k \<longleftrightarrow>
     (\<forall>h. cn_listener k = HandshakeListener h \<longrightarrow>
        (hs_state h \<noteq> kSentPortRequest \<longrightarrow> cn_main k = c \<and> cn_auxList k = [] \<and> c \<notin> ran D) \<and>
        (hs_state h \<ge> kSentFeaturesRequest \<longrightarrow> mc_version (cn_channel k) \<noteq> 0 \<and> bit (hs_versions h) (unat (mc_version (cn_channel k)))))"

definition engine_inv :: "Engine \<Rightarrow> bool" where
  "engine_inv E \<longleftrightarrow> ptr_inv (ptrs E) (en_dpidMap E) \<and> (\<forall>c\<in>dom (en_conns E). c < en_nextId E) \<and>
     (\<forall>c k. en_conns E c = Some k \<longrightarrow> hs_ok (en_dpidMap E) c k)"

section \<open>Results without dangling pointers\<close>

definition nd :: "('a \<Rightarrow> bool) \<Rightarrow> conn_fault + 'a \<Rightarrow> bool" where
  "nd Q r = (case r of Inr x \<Rightarrow> Q x | Inl (MsgFault _) \<Rightarrow> True | Inl (Dangling _) \<Rightarrow> False)"

lemma nd_simps [simp]: "nd Q (Inr x) = Q x" "nd Q (Inl (MsgFault e))" "\<not> nd Q (Inl (Dangling c))"
  by (simp_all add: nd_def)

lemma nd_bind: "nd P r \<Longrightarrow> (\<And>x. P x \<Longrightarrow> nd Q (f x)) \<Longrightarrow> nd Q (bindE r f)"
  by (cases r) (auto simp: nd_def split: conn_fault.split_asm)

lemma nd_mono: "nd P r \<Longrightarrow> (\<And>x. P x \<Longrightarrow> Q x) \<Longrightarrow> nd Q r"
  by (auto simp: nd_def split: sum.splits conn_fault.splits)

lemma nd_lift: "(\<And>x. r = Inr x \<Longrightarrow> nd Q (f x)) \<Longrightarrow> nd Q (bindE (liftE r) f)"
  by (cases r) (simp_all add: liftE_def)

lemma nd_assert: "(b \<Longrightarrow> nd Q (f ())) \<Longrightarrow> nd Q (bindE (assertC b) f)"
  unfolding assertC_def by (intro nd_lift) (auto simp: assertE_def split: if_split_asm)

lemma nd_conn: "en_conns E c = Some k \<Longrightarrow> nd Q (f k) \<Longrightarrow> nd Q (bindE (conn E c) f)"
  by (simp add: conn_def)

lemma nd_modify: "en_conns E c = Some k \<Longrightarrow> Q (E\<lparr>en_conns := (en_conns E)(c \<mapsto> f k)\<rparr>) \<Longrightarrow> nd Q (modify c f E)"
  by (simp add: modify_def conn_def)

lemma nd_if_cast: "nd Q null \<Longrightarrow> (castMessage t msg = Inr () \<Longrightarrow> nd Q ok) \<Longrightarrow> nd Q (if_cast t msg null ok)"
  by (auto simp: if_cast_def split: sum.splits fault.splits)

section \<open>Steps that keep the pointers\<close>

text \<open>The invariant without the condition on the handshake of one connection.\<close>

definition inv_but :: "connid \<Rightarrow> Engine \<Rightarrow> bool" where
  "inv_but c E \<longleftrightarrow> ptr_inv (ptrs E) (en_dpidMap E) \<and> (\<forall>c\<in>dom (en_conns E). c < en_nextId E) \<and>
     (\<forall>c' k. en_conns E c' = Some k \<longrightarrow> c' \<noteq> c \<longrightarrow> hs_ok (en_dpidMap E) c' k)"

definition same_ptrs :: "Connection \<Rightarrow> Connection \<Rightarrow> bool" where
  "same_ptrs k k' \<longleftrightarrow> cn_main k' = cn_main k \<and> cn_auxList k' = cn_auxList k \<and> cn_datapathId k' = cn_datapathId k \<and>
     cn_auxiliaryId k' = cn_auxiliaryId k"

lemma engine_inv_but: "engine_inv E \<Longrightarrow> inv_but c E"
  by (simp add: engine_inv_def inv_but_def)

lemma ptrs_set:
  assumes "en_conns E c = Some k" and "same_ptrs k k'"
  shows "ptrs (E\<lparr>en_conns := (en_conns E)(c \<mapsto> k')\<rparr>) = ptrs E"
  using assms by (auto simp: ptrs_def same_ptrs_def)

lemma inv_but_set:
  assumes "inv_but c E" and "en_conns E c = Some k" and "same_ptrs k k'"
  shows "inv_but c (E\<lparr>en_conns := (en_conns E)(c \<mapsto> k')\<rparr>)"
  using assms(1,2) ptrs_set [OF assms(2,3)] by (auto simp: inv_but_def)

lemma inv_set:
  assumes "inv_but c E" and "en_conns E c = Some k" and "same_ptrs k k'" and "hs_ok (en_dpidMap E) c k'"
  shows "engine_inv (E\<lparr>en_conns := (en_conns E)(c \<mapsto> k')\<rparr>)"
  using assms(1,2,4) ptrs_set [OF assms(2,3)] by (auto simp: inv_but_def engine_inv_def)

lemma inv_hs: "engine_inv E \<Longrightarrow> en_conns E c = Some k \<Longrightarrow> hs_ok (en_dpidMap E) c k"
  by (simp add: engine_inv_def)

lemma nd_on_channel:
  assumes "en_conns E c = Some k"
    and "\<And>ch. f (cn_channel k) = Inr ch \<Longrightarrow> Q (E\<lparr>en_conns := (en_conns E)(c \<mapsto> k\<lparr>cn_channel := ch\<rparr>)\<rparr>)"
  shows "nd Q (on_channel c f E)"
  unfolding on_channel_def using assms by (intro nd_conn [OF assms(1)] nd_lift nd_modify) auto

lemma nd_shutdown:
  assumes "engine_inv E" and "en_conns E c = Some k"
  shows "nd engine_inv (shutdown c E)"
  unfolding shutdown_def using inv_hs [OF assms]
  by (intro nd_modify [OF assms(2)] inv_set [OF engine_inv_but [OF assms(1)] assms(2)]) (auto simp: same_ptrs_def hs_ok_def)

lemma nd_write:
  assumes "engine_inv E" and "en_conns E c = Some k" and "\<And>ch ch'. f ch = Inr ch' \<Longrightarrow> mc_version ch' = mc_version ch"
  shows "nd (\<lambda>E'. engine_inv E' \<and> (\<exists>ch. E' = E\<lparr>en_conns := (en_conns E)(c \<mapsto> k\<lparr>cn_channel := ch\<rparr>)\<rparr>)) (on_channel c f E)"
  using assms inv_hs [OF assms(1,2)]
  by (intro nd_on_channel) (auto simp: same_ptrs_def hs_ok_def intro!: inv_set [OF engine_inv_but])

lemma HelloBuilder_send_version: "HelloBuilder_send b ch = Inr (x, b', ch') \<Longrightarrow> mc_version ch' = mc_version ch"
  by (auto simp: HelloBuilder_send_def Let_def bindE_eq_Inr nextXid_def mc_flush_def mc_write_def split: prod.split_asm)

lemma HeaderOnlyBuilder_send_version: "HeaderOnlyBuilder_send t ch = Inr ch' \<Longrightarrow> mc_version ch' = mc_version ch"
  by (auto simp: HeaderOnlyBuilder_send_def Let_def bindE_eq_Inr nextXid_def mc_flush_def mc_write_def split: if_split_asm)

lemma MultipartRequestBuilder_send_version: "MultipartRequestBuilder_send b ch = Inr (x, b', ch') \<Longrightarrow> mc_version ch' = mc_version ch"
  by (auto simp: MultipartRequestBuilder_send_def Let_def bindE_eq_Inr nextXid_def mc_flush_def mc_write_def split: if_split_asm)

section \<open>The registry\<close>

lemma ptr_invD:
  assumes "ptr_inv P D"
  shows "D d = Some c \<Longrightarrow> \<not> dpid_empty d \<and> (\<exists>xs. P c = Some (c, xs, d, 0))"
    and "P c = Some (m, xs, d, a) \<Longrightarrow> m \<noteq> c \<Longrightarrow>
      xs = [] \<and> \<not> dpid_empty d \<and> (\<exists>m' xs' d' a'. P m = Some (m', xs', d', a') \<and> c \<in> set xs')"
    and "P c = Some (m, xs, d, a) \<Longrightarrow> xs \<noteq> [] \<Longrightarrow> \<not> dpid_empty d"
    and "P c = Some (m, xs, d, a) \<Longrightarrow> distinct xs"
    and "P c = Some (m, xs, d, a) \<Longrightarrow> x \<in> set xs \<Longrightarrow> x \<noteq> c \<and> (\<exists>xs' d' a'. P x = Some (c, xs', d', a'))"
  using assms unfolding ptr_inv_def by blast+

lemma ptr_invI:
  assumes "\<And>d c. D d = Some c \<Longrightarrow> \<not> dpid_empty d \<and> (\<exists>xs. P c = Some (c, xs, d, 0))"
    and "\<And>c m xs d a. P c = Some (m, xs, d, a) \<Longrightarrow> m \<noteq> c \<Longrightarrow>
      xs = [] \<and> \<not> dpid_empty d \<and> (\<exists>m' xs' d' a'. P m = Some (m', xs', d', a') \<and> c \<in> set xs')"
    and "\<And>c m xs d a. P c = Some (m, xs, d, a) \<Longrightarrow> (xs \<noteq> [] \<longrightarrow> \<not> dpid_empty d) \<and> distinct xs"
    and "\<And>c m xs d a x. P c = Some (m, xs, d, a) \<Longrightarrow> x \<in> set xs \<Longrightarrow> x \<noteq> c \<and> (\<exists>xs' d' a'. P x = Some (c, xs', d', a'))"
  shows "ptr_inv P D"
proof -
  have *: "(m \<noteq> c \<longrightarrow> xs = [] \<and> \<not> dpid_empty d \<and> (\<exists>m' xs' d' a'. P m = Some (m', xs', d', a') \<and> c \<in> set xs')) \<and>
        (xs \<noteq> [] \<longrightarrow> \<not> dpid_empty d) \<and> distinct xs \<and>
        (\<forall>x\<in>set xs. x \<noteq> c \<and> (\<exists>xs' d' a'. P x = Some (c, xs', d', a')))" if "P c = Some (m, xs, d, a)" for c m xs d a
    using assms(2,3,4) [OF that] by blast
  then show ?thesis unfolding ptr_inv_def using assms(1) by blast
qed

text \<open>A connection that is its own main connection is in no list.\<close>

lemma main_not_listed:
  assumes "ptr_inv P D" and "P c = Some (c, ys, d, a)" and "P m = Some (m', xs, d', a')"
  shows "c \<notin> set xs"
  using ptr_invD(5) [OF assms(1,3), of c] assms(2) by auto

lemma ptr_inv_datapath:
  assumes "ptr_inv P D" and "P c = Some (c, [], d0, a0)" and "c \<notin> ran D"
  shows "ptr_inv (P(c \<mapsto> (c, [], d, a))) D"
proof (rule ptr_invI)
  fix d' c'
  assume "D d' = Some c'"
  with assms(3) ptr_invD(1) [OF assms(1) this] show "\<not> dpid_empty d' \<and> (\<exists>xs. (P(c \<mapsto> (c, [], d, a))) c' = Some (c', xs, d', 0))"
    by (auto simp: ran_def)
next
  fix c' m xs d' a'
  assume P: "(P(c \<mapsto> (c, [], d, a))) c' = Some (m, xs, d', a')" and "m \<noteq> c'"
  then have "P c' = Some (m, xs, d', a')" "c' \<noteq> c" by (auto split: if_split_asm)
  with ptr_invD(2) [OF assms(1) this(1) \<open>m \<noteq> c'\<close>] assms(2)
  show "xs = [] \<and> \<not> dpid_empty d' \<and> (\<exists>m' xs' d'' a'. (P(c \<mapsto> (c, [], d, a))) m = Some (m', xs', d'', a') \<and> c' \<in> set xs')"
    by auto
next
  fix c' m xs d' a'
  assume P: "(P(c \<mapsto> (c, [], d, a))) c' = Some (m, xs, d', a')"
  then show "(xs \<noteq> [] \<longrightarrow> \<not> dpid_empty d') \<and> distinct xs"
    using ptr_invD(3,4) [OF assms(1), of c' m xs d' a'] by (auto split: if_split_asm)
  show "x \<noteq> c' \<and> (\<exists>xs' d' a'. (P(c \<mapsto> (c, [], d, a))) x = Some (c', xs', d', a'))" if "x \<in> set xs" for x
    using P that ptr_invD(5) [OF assms(1), of c' m xs d' a' x] assms(2) by (auto split: if_split_asm)
qed

lemma ptr_inv_register:
  assumes "ptr_inv P D" and "P c = Some (c, [], d, 0)" and "\<not> dpid_empty d"
  shows "ptr_inv P (D(d \<mapsto> c))"
  using assms unfolding ptr_inv_def by auto

lemma ptr_inv_aux:
  assumes "ptr_inv P D" and c: "P c = Some (c, [], d0, a0)" "c \<notin> ran D" and m: "P m = Some (m, xs, d, b)" "c \<noteq> m" "\<not> dpid_empty d"
  shows "ptr_inv (P(c \<mapsto> (m, [], d, a), m \<mapsto> (m, xs @ [c], d, b))) D" (is "ptr_inv ?P D")
proof (rule ptr_invI)
  fix d' c'
  assume D: "D d' = Some c'"
  then have "c' \<noteq> c" using c(2) by (auto simp: ran_def)
  with ptr_invD(1) [OF assms(1) D] m show "\<not> dpid_empty d' \<and> (\<exists>xs. ?P c' = Some (c', xs, d', 0))" by auto
next
  fix c' m' ys d' a'
  assume P: "?P c' = Some (m', ys, d', a')" "m' \<noteq> c'"
  show "ys = [] \<and> \<not> dpid_empty d' \<and> (\<exists>m'' xs' d'' a''. ?P m' = Some (m'', xs', d'', a'') \<and> c' \<in> set xs')"
  proof (cases "c' = c")
    case True
    with P m show ?thesis by auto
  next
    case False
    with P m have old: "P c' = Some (m', ys, d', a')" by (auto split: if_split_asm)
    with ptr_invD(2) [OF assms(1) this P(2)] c(1) m show ?thesis by (cases "m' = m") auto
  qed
next
  fix c' m' ys d' a'
  assume P: "?P c' = Some (m', ys, d', a')"
  have cm: "c \<notin> set xs" by (rule main_not_listed [OF assms(1) c(1) m(1)])
  show "(ys \<noteq> [] \<longrightarrow> \<not> dpid_empty d') \<and> distinct ys"
    using P m cm ptr_invD(3,4) [OF assms(1), of c' m' ys d' a'] ptr_invD(4) [OF assms(1) m(1)] by (auto split: if_split_asm)
  show "x \<noteq> c' \<and> (\<exists>xs' d' a'. ?P x = Some (c', xs', d', a'))" if x: "x \<in> set ys" for x
  proof (cases "c' = m")
    case True
    with P m x ptr_invD(5) [OF assms(1) m(1), of x] show ?thesis by auto
  next
    case False
    with P x have old: "P c' = Some (m', ys, d', a')" by (auto split: if_split_asm)
    from ptr_invD(5) [OF assms(1) old x] main_not_listed [OF assms(1) c(1) old] main_not_listed [OF assms(1) m(1) old] x
    show ?thesis by (cases "x = c"; cases "x = m") auto
  qed
qed

text \<open>Deleting a main connection and deleting an auxiliary connection.\<close>

lemma ptr_inv_delete_main:
  assumes "ptr_inv P D" and c: "P c = Some (c, xs, d, a)"
    and D': "D' = (if a = 0 \<and> D d = Some c then D(d := None) else D)"
    and P': "P' = (\<lambda>x. if x = c then None else if x \<in> set xs then map_option (\<lambda>(m, r). (x, r)) (P x) else P x)"
  shows "ptr_inv P' D'"
proof (rule ptr_invI)
  fix d' c'
  assume "D' d' = Some c'"
  then have D: "D d' = Some c'" and "a = 0 \<and> D d = Some c \<longrightarrow> d' \<noteq> d" by (auto simp: D' split: if_split_asm)
  moreover have "c' \<noteq> c" using calculation ptr_invD(1) [OF assms(1) D] c by auto
  moreover obtain ys where "\<not> dpid_empty d'" "P c' = Some (c', ys, d', 0)" using ptr_invD(1) [OF assms(1) D] by blast
  ultimately show "\<not> dpid_empty d' \<and> (\<exists>xs. P' c' = Some (c', xs, d', 0))" by (auto simp: P')
next
  fix c' m ys d' a'
  assume P: "P' c' = Some (m, ys, d', a')" "m \<noteq> c'"
  then have old: "P c' = Some (m, ys, d', a')" "c' \<noteq> c" "c' \<notin> set xs" by (auto simp: P' split: if_split_asm)
  from ptr_invD(2) [OF assms(1) old(1) P(2)] obtain m' zs e b where
    m: "ys = []" "\<not> dpid_empty d'" "P m = Some (m', zs, e, b)" "c' \<in> set zs" by blast
  have "m \<noteq> c" using m(3,4) old(3) c by auto
  moreover have "m \<notin> set xs" using ptr_invD(5) [OF assms(1) c, of m] ptr_invD(2) [OF assms(1) m(3)] m(3,4) by auto
  ultimately show "ys = [] \<and> \<not> dpid_empty d' \<and> (\<exists>m' xs' d' a'. P' m = Some (m', xs', d', a') \<and> c' \<in> set xs')"
    using m by (simp add: P')
next
  fix c' m ys d' a'
  assume P: "P' c' = Some (m, ys, d', a')"
  then obtain m0 where old: "P c' = Some (m0, ys, d', a')" "c' \<noteq> c" by (auto simp: P' split: if_split_asm)
  show "(ys \<noteq> [] \<longrightarrow> \<not> dpid_empty d') \<and> distinct ys" using ptr_invD(3,4) [OF assms(1) old(1)] by simp
  show "x \<noteq> c' \<and> (\<exists>xs' d' a'. P' x = Some (c', xs', d', a'))" if x: "x \<in> set ys" for x
  proof -
    from ptr_invD(5) [OF assms(1) old(1) x] obtain zs e b where "x \<noteq> c'" "P x = Some (c', zs, e, b)" by blast
    moreover have "x \<noteq> c" using main_not_listed [OF assms(1) c old(1)] x by auto
    moreover have "x \<notin> set xs" using ptr_invD(5) [OF assms(1) c, of x] calculation old(2) by auto
    ultimately show ?thesis by (simp add: P')
  qed
qed

lemma ptr_inv_delete_aux:
  assumes "ptr_inv P D" and c: "P c = Some (m, ys, d, a)" "m \<noteq> c" and m: "P m = Some (m', xs, e, b)"
  shows "c \<notin> ran D" and "ptr_inv (P(m \<mapsto> (m', remove1 c xs, e, b), c := None)) D" (is "ptr_inv ?P D")
proof -
  show nD: "c \<notin> ran D" using ptr_invD(1) [OF assms(1)] c by (force simp: ran_def)
  have cx: "c \<in> set xs" using ptr_invD(2) [OF assms(1) c] m by auto
  have ys: "ys = []" using ptr_invD(2) [OF assms(1) c] by simp
  show "ptr_inv ?P D"
  proof (rule ptr_invI)
    fix d' c'
    assume D: "D d' = Some c'"
    then have "c' \<noteq> c" using nD by (auto simp: ran_def)
    with ptr_invD(1) [OF assms(1) D] m show "\<not> dpid_empty d' \<and> (\<exists>xs. ?P c' = Some (c', xs, d', 0))" by auto
  next
    fix c' n zs d' a'
    assume P: "?P c' = Some (n, zs, d', a')" "n \<noteq> c'"
    then have nc: "c' \<noteq> c" by auto
    have old: "\<exists>zs'. P c' = Some (n, zs', d', a')" using P m by (auto split: if_split_asm)
    then obtain zs' where old: "P c' = Some (n, zs', d', a')" by blast
    from ptr_invD(2) [OF assms(1) old P(2)] obtain n' ws f g where
      n: "zs' = []" "\<not> dpid_empty d'" "P n = Some (n', ws, f, g)" "c' \<in> set ws" by blast
    have "c' \<noteq> m" using n(1) old m cx by auto
    then have "zs = []" using P old n(1) by (auto split: if_split_asm)
    moreover have "n \<noteq> c" using n ys c by auto
    ultimately show "zs = [] \<and> \<not> dpid_empty d' \<and> (\<exists>m' xs' d' a'. ?P n = Some (m', xs', d', a') \<and> c' \<in> set xs')"
      using n nc m by (cases "n = m") (auto simp: in_set_remove1)
  next
    fix c' n zs d' a'
    assume P: "?P c' = Some (n, zs, d', a')"
    then have nc: "c' \<noteq> c" by auto
    obtain zs' where old: "P c' = Some (n, zs', d', a')" "set zs \<subseteq> set zs'" "distinct zs' \<longrightarrow> distinct zs" "c' = m \<longrightarrow> zs = remove1 c zs'"
      using P m set_remove1_subset [of c xs] by (auto split: if_split_asm)
    show "(zs \<noteq> [] \<longrightarrow> \<not> dpid_empty d') \<and> distinct zs" using ptr_invD(3,4) [OF assms(1) old(1)] old(2,3) by (cases zs') auto
    show "x \<noteq> c' \<and> (\<exists>xs' d' a'. ?P x = Some (c', xs', d', a'))" if x: "x \<in> set zs" for x
    proof -
      have x': "x \<in> set zs'" using x old(2) by blast
      from ptr_invD(5) [OF assms(1) old(1) x'] obtain ws f g where px: "x \<noteq> c'" "P x = Some (c', ws, f, g)" by blast
      have "x \<noteq> c"
      proof
        assume "x = c"
        with px c have "c' = m" by simp
        with old x \<open>x = c\<close> show False using ptr_invD(4) [OF assms(1) old(1)] by simp
      qed
      with px m show ?thesis by auto
    qed
  qed
qed

lemma ptrs_upd: "ptrs (E\<lparr>en_conns := (en_conns E)(c \<mapsto> k)\<rparr>) =
    (ptrs E)(c \<mapsto> (cn_main k, cn_auxList k, cn_datapathId k, cn_auxiliaryId k))"
  by (auto simp: ptrs_def)

lemma ptrs_dpid: "ptrs (E\<lparr>en_dpidMap := D\<rparr>) = ptrs E"
  by (simp add: ptrs_def)

lemma ptrs_Some: "ptrs E c = Some (m, xs, d, a) \<longleftrightarrow>
    (\<exists>k. en_conns E c = Some k \<and> cn_main k = m \<and> cn_auxList k = xs \<and> cn_datapathId k = d \<and> cn_auxiliaryId k = a)"
  by (auto simp: ptrs_def)

lemma inv_but_ptr: "inv_but c E \<Longrightarrow> ptr_inv (ptrs E) (en_dpidMap E)"
  by (simp add: inv_but_def)

lemma inv_but_shutdown:
  assumes "inv_but c E" and "en_conns E x = Some k"
  shows "inv_but c (E\<lparr>en_conns := (en_conns E)(x \<mapsto> k\<lparr>cn_shutdown := True\<rparr>)\<rparr>)"
proof -
  have "ptrs (E\<lparr>en_conns := (en_conns E)(x \<mapsto> k\<lparr>cn_shutdown := True\<rparr>)\<rparr>) = ptrs E"
    using assms(2) by (intro ptrs_set) (simp_all add: same_ptrs_def)
  moreover have "hs_ok D c' (k\<lparr>cn_shutdown := True\<rparr>) = hs_ok D c' k" for D c' by (simp add: hs_ok_def)
  ultimately show ?thesis using assms by (auto simp: inv_but_def)
qed

lemma find_aux_ok:
  assumes "\<forall>x\<in>set xs. x \<in> dom (en_conns E)"
  shows "\<exists>r. find_aux auxID xs E = Inr r \<and> (\<forall>x. r = Some x \<longrightarrow> x \<in> set xs)"
  using assms by (induction xs) (auto simp: conn_def)

text \<open>Before it registers, a connection is its own main connection, has no auxiliary connections and is in no list.\<close>

definition unregistered :: "connid \<Rightarrow> Engine \<Rightarrow> bool" where
  "unregistered c E \<longleftrightarrow> c \<notin> ran (en_dpidMap E) \<and> (\<exists>k. en_conns E c = Some k \<and> cn_main k = c \<and> cn_auxList k = [])"

definition kept :: "connid \<Rightarrow> Connection \<Rightarrow> Engine \<Rightarrow> bool" where
  "kept c k E \<longleftrightarrow> (\<exists>k'. en_conns E c = Some k' \<and> cn_listener k' = cn_listener k \<and> cn_channel k' = cn_channel k)"

lemma setMainConnection_ok:
  assumes inv: "inv_but c E" and un: "unregistered c E" and k: "en_conns E c = Some k"
    and p: "en_dpidMap E d = Some p" and "auxID \<noteq> 0"
  shows "nd (\<lambda>E'. inv_but c E' \<and> kept c k E') (setMainConnection c p auxID E)"
proof -
  note I = inv_but_ptr [OF inv]
  from ptr_invD(1) [OF I p] obtain kp xs where kp: "en_conns E p = Some kp" "cn_main kp = p" "cn_auxList kp = xs"
    "cn_datapathId kp = d" "cn_auxiliaryId kp = 0" "\<not> dpid_empty d" by (auto simp: ptrs_Some)
  have cp: "c \<noteq> p" using un p by (auto simp: unregistered_def ran_def)
  have c: "cn_main k = c" "cn_auxList k = []" "c \<notin> ran (en_dpidMap E)" using un k by (auto simp: unregistered_def)
  let ?k = "k\<lparr>cn_main := p, cn_datapathId := d, cn_auxiliaryId := auxID\<rparr>"
  let ?E1 = "E\<lparr>en_conns := (en_conns E)(c \<mapsto> ?k)\<rparr>"
  have listed: "x \<in> dom (en_conns E)" "x \<noteq> p" "x \<noteq> c" if "x \<in> set xs" for x
    using ptr_invD(5) [OF I, of p p xs d 0 x] main_not_listed [OF I, of c "[]" _ _ p p xs d 0] that kp k c
    by (auto simp: ptrs_Some)
  then obtain r where r: "find_aux auxID xs ?E1 = Inr r" "\<And>x. r = Some x \<Longrightarrow> x \<in> set xs"
    using find_aux_ok [of xs ?E1 auxID] by (auto simp: dom_def)
  let ?S = "\<lambda>E. case r of None \<Rightarrow> Inr E | Some x \<Rightarrow> shutdown x E"
  let ?kp = "kp\<lparr>cn_auxList := xs @ [c]\<rparr>"
  let ?E2 = "?E1\<lparr>en_conns := (en_conns ?E1)(p \<mapsto> ?kp)\<rparr>"
  have "ptrs ?E2 = (ptrs E)(c \<mapsto> (p, [], d, auxID), p \<mapsto> (p, xs @ [c], d, 0))"
    using kp c cp by (auto simp: ptrs_def fun_eq_iff)
  then have "ptr_inv (ptrs ?E2) (en_dpidMap E)"
    using ptr_inv_aux [OF I, of c _ _ p xs d 0 auxID] k kp cp c by (simp add: ptrs_Some)
  moreover have "p \<in> ran (en_dpidMap E)" using p by (auto simp: ran_def)
  ultimately have inv2: "inv_but c ?E2"
    using inv kp(1) k unfolding inv_but_def by (auto simp: hs_ok_def)
  show ?thesis
  proof (cases r)
    case None
    then show ?thesis
      using r k kp cp c \<open>auxID \<noteq> 0\<close> inv2
      by (simp add: setMainConnection_def conn_def modify_def assertC_def liftE_def kept_def)
  next
    case (Some x)
    with r have x: "x \<in> set xs" by simp
    obtain kx where kx: "en_conns E x = Some kx" using listed(1) [OF x] by blast
    have "inv_but c (?E2\<lparr>en_conns := (en_conns ?E2)(x \<mapsto> kx\<lparr>cn_shutdown := True\<rparr>)\<rparr>)"
      using inv2 kx listed [OF x] by (intro inv_but_shutdown) auto
    then show ?thesis
      using r k kp cp c \<open>auxID \<noteq> 0\<close> kx listed [OF x] Some
      by (simp add: setMainConnection_def conn_def modify_def assertC_def liftE_def kept_def shutdown_def fun_upd_twist)
  qed
qed

lemma registerDatapath_ok:
  assumes inv: "inv_but c E" and un: "unregistered c E" and k: "en_conns E c = Some k" and ne: "\<not> dpid_empty (cn_datapathId k)"
  shows "nd (\<lambda>(ok, E'). inv_but c E' \<and> kept c k E' \<and> (\<not> ok \<longrightarrow> E' = E)) (registerDatapath c E)"
proof -
  note I = inv_but_ptr [OF inv]
  let ?d = "cn_datapathId k"
  have c: "cn_main k = c" "cn_auxList k = []" "c \<notin> ran (en_dpidMap E)" using un k by (auto simp: unregistered_def)
  have kept: "kept c k E" using k by (simp add: kept_def)
  show ?thesis
  proof (cases "cn_auxiliaryId k = 0")
    case True
    let ?E1 = "E\<lparr>en_dpidMap := (en_dpidMap E)(?d \<mapsto> c)\<rparr>"
    have "ptr_inv (ptrs E) ((en_dpidMap E)(?d \<mapsto> c))"
      using ptr_inv_register [OF I _ ne, of c] k c True by (auto simp: ptrs_Some)
    moreover have "ran ((en_dpidMap E)(?d \<mapsto> c)) \<subseteq> insert c (ran (en_dpidMap E))" by (auto simp: ran_def)
    ultimately have inv1: "inv_but c ?E1" using inv unfolding inv_but_def hs_ok_def ptrs_dpid by auto
    show ?thesis
    proof (cases "en_dpidMap E ?d")
      case None
      then show ?thesis using k True inv1 kept by (simp add: registerDatapath_def conn_def kept_def)
    next
      case (Some old)
      then have "old \<noteq> c" using c by (auto simp: ran_def)
      moreover obtain ko where "en_conns E old = Some ko" using ptr_invD(1) [OF I Some] by (auto simp: ptrs_Some)
      ultimately show ?thesis
        using inv_but_shutdown [OF inv1, of old ko] k True Some kept
        by (simp add: registerDatapath_def conn_def modify_def shutdown_def kept_def)
    qed
  next
    case False
    show ?thesis
    proof (cases "en_dpidMap E ?d")
      case None
      then show ?thesis using k False inv kept by (simp add: registerDatapath_def conn_def)
    next
      case (Some p)
      then obtain kp where kp: "en_conns E p = Some kp" using ptr_invD(1) [OF I Some] by (auto simp: ptrs_Some)
      show ?thesis
        using False Some kp inv kept nd_bind [OF setMainConnection_ok [OF inv un k Some False]]
        by (simp add: registerDatapath_def conn_def k nd_bind [OF setMainConnection_ok [OF inv un k Some False]])
    qed
  qed
qed

lemma postDatapath_ok:
  assumes inv: "engine_inv E" and k: "en_conns E c = Some k" and h: "cn_listener k = HandshakeListener h" "hs_state h \<noteq> kSentPortRequest"
  shows "nd (\<lambda>(ok, E'). inv_but c E' \<and> kept c k E' \<and> (\<not> ok \<longrightarrow> engine_inv E')) (postDatapath c d a E)"
proof (cases "dpid_empty d")
  case True
  then show ?thesis using inv k by (simp add: postDatapath_def engine_inv_but kept_def)
next
  case False
  let ?k = "k\<lparr>cn_datapathId := d, cn_auxiliaryId := a\<rparr>"
  let ?E = "E\<lparr>en_conns := (en_conns E)(c \<mapsto> ?k)\<rparr>"
  have c: "cn_main k = c" "cn_auxList k = []" "c \<notin> ran (en_dpidMap E)" using inv_hs [OF inv k] h by (auto simp: hs_ok_def)
  have "ptr_inv (ptrs ?E) (en_dpidMap E)"
    using ptr_inv_datapath [of "ptrs E" "en_dpidMap E" c _ _ d a] inv k c unfolding ptrs_upd by (auto simp: engine_inv_def ptrs_Some)
  moreover have "hs_ok D c' ?k = hs_ok D c' k" for D c' by (simp add: hs_ok_def)
  ultimately have inv1: "engine_inv ?E" using inv k by (auto simp: engine_inv_def)
  have un: "unregistered c ?E" using c by (simp add: unregistered_def)
  have "nd (\<lambda>(ok, E'). inv_but c E' \<and> kept c ?k E' \<and> (\<not> ok \<longrightarrow> E' = ?E)) (registerDatapath c ?E)"
    using False by (intro registerDatapath_ok [OF engine_inv_but [OF inv1] un]) simp_all
  then have "nd (\<lambda>(ok, E'). inv_but c E' \<and> kept c k E' \<and> (\<not> ok \<longrightarrow> engine_inv E')) (registerDatapath c ?E)"
    by (rule nd_mono) (auto simp: kept_def inv1)
  then show ?thesis using False k by (simp add: postDatapath_def modify_def conn_def)
qed

section \<open>Deleting a connection\<close>

lemma detach_aux_eq:
  assumes "\<forall>x\<in>set xs. x \<in> dom (en_conns E)"
  shows "detach_aux xs E = Inr (E\<lparr>en_conns := (\<lambda>x. if x \<in> set xs
    then map_option (\<lambda>k. k\<lparr>cn_main := x, cn_shutdown := True\<rparr>) (en_conns E x) else en_conns E x)\<rparr>)"
  using assms
proof (induction xs arbitrary: E)
  case (Cons x xs)
  then obtain k where k: "en_conns E x = Some k" by auto
  let ?E = "E\<lparr>en_conns := (en_conns E)(x \<mapsto> k\<lparr>cn_main := x, cn_shutdown := True\<rparr>)\<rparr>"
  have "detach_aux (x # xs) E = detach_aux xs ?E" using k by (simp add: modify_def conn_def shutdown_def)
  also have "\<dots> = Inr (?E\<lparr>en_conns := (\<lambda>y. if y \<in> set xs
      then map_option (\<lambda>k. k\<lparr>cn_main := y, cn_shutdown := True\<rparr>) (en_conns ?E y) else en_conns ?E y)\<rparr>)"
    using Cons.prems by (intro Cons.IH) auto
  finally show ?case using k by (auto intro!: Engine.equality)
qed (simp add: fun_upd_def)

lemma engine_inv_updated:
  "ptr_inv (ptrs (E\<lparr>en_conns := C, en_dpidMap := D\<rparr>)) D \<Longrightarrow> \<forall>x\<in>dom C. x < en_nextId E \<Longrightarrow>
    (\<And>x k. C x = Some k \<Longrightarrow> hs_ok D x k) \<Longrightarrow> engine_inv (E\<lparr>en_conns := C, en_dpidMap := D\<rparr>)"
  by (simp add: engine_inv_def)

lemma Connection_delete_ok:
  assumes inv: "engine_inv E" and k: "en_conns E c = Some k"
  shows "nd engine_inv (Connection_delete c E)"
proof -
  have I: "ptr_inv (ptrs E) (en_dpidMap E)" using inv by (simp add: engine_inv_def)
  let ?d = "cn_datapathId k" and ?xs = "cn_auxList k" and ?D = "en_dpidMap E"
  let ?D' = "if cn_auxiliaryId k = 0 \<and> ?D ?d = Some c then ?D(?d := None) else ?D"
  have pc: "ptrs E c = Some (cn_main k, ?xs, ?d, cn_auxiliaryId k)" using k by (auto simp: ptrs_Some)
  have listed: "x \<in> dom (en_conns E)" "x \<noteq> c" if "x \<in> set ?xs" for x
    using ptr_invD(5) [OF I pc that] by (auto simp: ptrs_Some)
  have ran: "x \<in> ran ?D' \<Longrightarrow> x \<in> ran ?D" for x by (auto simp: ran_def split: if_split_asm)
  have rel: "releaseDatapath c E = Inr (E\<lparr>en_dpidMap := ?D'\<rparr>)" using k by (simp add: releaseDatapath_def conn_def)
  show ?thesis
  proof (cases "cn_main k = c")
    case True
    let ?C = "\<lambda>x. if x = c then None else if x \<in> set ?xs
      then map_option (\<lambda>k. k\<lparr>cn_main := x, cn_shutdown := True\<rparr>) (en_conns E x) else en_conns E x"
    let ?E = "E\<lparr>en_conns := ?C, en_dpidMap := ?D'\<rparr>"
    have "Connection_delete c E = Inr ?E"
    proof (cases "dpid_empty ?d")
      case empty: True
      then have "?xs = []" "?D' = ?D" using ptr_invD(1) [OF I, of ?d] ptr_invD(3) [OF I pc] by auto
      with empty k show ?thesis by (simp add: Connection_delete_def conn_def) (auto intro!: Engine.equality)
    next
      case False
      with True k rel detach_aux_eq [of ?xs "E\<lparr>en_dpidMap := ?D'\<rparr>"] listed show ?thesis
        by (simp add: Connection_delete_def conn_def) (auto intro!: Engine.equality)
    qed
    moreover have "engine_inv ?E"
    proof (rule engine_inv_updated)
      show "ptr_inv (ptrs ?E) ?D'"
        using pc True by (intro ptr_inv_delete_main [OF I, where xs = ?xs and D' = ?D']) (auto simp: ptrs_def fun_eq_iff option.map_comp comp_def)
      show "\<forall>x\<in>dom ?C. x < en_nextId E" using inv by (auto simp: engine_inv_def domIff split: if_split_asm)
      fix x kx
      assume x: "?C x = Some kx"
      obtain k0 where k0: "en_conns E x = Some k0" "x \<noteq> c" and kx: "kx = (if x \<in> set ?xs then k0\<lparr>cn_main := x, cn_shutdown := True\<rparr> else k0)"
        using x by (auto split: if_split_asm)
      then have "hs_ok ?D' x k0" using inv_hs [OF inv k0(1)] ran by (auto simp: hs_ok_def)
      with kx show "hs_ok ?D' x kx" by (auto simp: hs_ok_def)
    qed
    ultimately show ?thesis by simp
  next
    case False
    from ptr_invD(2) [OF I pc False] obtain km where ne: "\<not> dpid_empty ?d" "?xs = []" and km: "en_conns E (cn_main k) = Some km" "c \<in> set (cn_auxList km)"
      by (auto simp: ptrs_Some)
    have pm: "ptrs E (cn_main k) = Some (cn_main km, cn_auxList km, cn_datapathId km, cn_auxiliaryId km)" using km by (auto simp: ptrs_Some)
    note del = ptr_inv_delete_aux [OF I pc False pm]
    have D': "?D' = ?D" using del(1) by (auto simp: ran_def)
    let ?km = "km\<lparr>cn_auxList := remove1 c (cn_auxList km)\<rparr>"
    let ?C = "(en_conns E)(cn_main k \<mapsto> ?km, c := None)"
    have "Connection_delete c E = Inr (E\<lparr>en_conns := ?C\<rparr>)"
      using False k km ne rel by (simp add: Connection_delete_def conn_def modify_def D')
    moreover have "ptrs (E\<lparr>en_conns := ?C\<rparr>) = (ptrs E)(cn_main k \<mapsto> (cn_main km, remove1 c (cn_auxList km), cn_datapathId km, cn_auxiliaryId km), c := None)"
      using False by (auto simp: ptrs_def fun_eq_iff)
    moreover have "hs_ok ?D (cn_main k) ?km" using inv_hs [OF inv km(1)] km(2) by (auto simp: hs_ok_def)
    ultimately show ?thesis using del(2) inv km by (auto simp: engine_inv_def split: if_split_asm)
  qed
qed

section \<open>The handshake\<close>

lemma negotiateVersion_supported:
  assumes r: "negotiateVersion A v vs = Inr r" and "r \<noteq> 0"
  shows "bit A (unat r)"
proof (cases "v \<ge> OFP_VERSION_4 \<and> vs \<noteq> 0")
  case True
  then have "r = highestVersion (A AND vs)" using r by (simp add: negotiateVersion_def intersection_def)
  with \<open>r \<noteq> 0\<close> highestVersion_spec(2) [of "A AND vs"] show ?thesis by (simp add: bit_and_iff)
next
  case no_set: False
  show ?thesis
  proof (cases "highestVersion A \<le> v")
    case True
    then have "r = highestVersion A" using no_set r by (simp only: negotiateVersion_def if_False if_True Let_def) simp
    with \<open>r \<noteq> 0\<close> highestVersion_spec(2) [of A] show ?thesis by simp
  next
    case False
    then have "bindE (containsVersion A v) (\<lambda>c. Inr (if c then v else 0)) = Inr r"
      using no_set r by (simp only: negotiateVersion_def if_False Let_def)
    with \<open>r \<noteq> 0\<close> show ?thesis
      by (cases "unat v < 32") (auto simp: containsVersion_def shift_right_def assertE_def shifted_bit split: if_split_asm)
  qed
qed

lemma nd_write_but:
  assumes "inv_but c E" and k: "en_conns E c = Some k" and "\<And>ch ch'. f ch = Inr ch' \<Longrightarrow> mc_version ch' = mc_version ch"
  shows "nd (\<lambda>E'. inv_but c E' \<and> en_dpidMap E' = en_dpidMap E \<and>
    (\<exists>ch. en_conns E' c = Some (k\<lparr>cn_channel := ch\<rparr>) \<and> mc_version ch = mc_version (cn_channel k))) (on_channel c f E)"
  using assms(1,3) by (intro nd_on_channel [OF k]) (auto simp: same_ptrs_def intro!: inv_but_set [OF _ k])

lemma nd_set_handshake:
  assumes "inv_but c E" and k: "en_conns E c = Some k" and "hs_ok (en_dpidMap E) c (k\<lparr>cn_listener := HandshakeListener h\<rparr>)"
  shows "nd engine_inv (set_handshake c h E)"
  unfolding set_handshake_def using assms(1,3) by (intro nd_modify [OF k] inv_set [OF _ k]) (auto simp: same_ptrs_def)

lemma nd_no_handshake:
  assumes "inv_but c E" and k: "en_conns E c = Some k"
  shows "nd engine_inv (installNewChannelListener c h E)" "nd engine_inv (clearChannelListener c E)"
  unfolding installNewChannelListener_def clearChannelListener_def using assms(1)
  by (intro nd_modify [OF k] inv_set [OF _ k]; simp add: same_ptrs_def hs_ok_def)+

lemma HandshakeState_order: "kSentFeaturesRequest \<le> s \<longleftrightarrow> s = kSentFeaturesRequest \<or> s = kSentPortRequest"
  "s > kSentHello \<longleftrightarrow> s = kSentFeaturesRequest \<or> s = kSentPortRequest"
  by (cases s; simp add: less_eq_HandshakeState_def less_HandshakeState_def)+

text \<open>The three requests: a message is written and the state of the handshake moves on.\<close>

lemma send_then_state:
  assumes inv: "inv_but c E" and k: "en_conns E c = Some k" and f: "\<And>ch ch'. f ch = Inr ch' \<Longrightarrow> mc_version ch' = mc_version ch"
    and h: "hs_ok (en_dpidMap E) c (k\<lparr>cn_listener := HandshakeListener h\<rparr>)"
  shows "nd engine_inv (bindE (on_channel c f E) (set_handshake c h))"
proof (rule nd_bind [OF nd_write_but [OF inv k f]], assumption)
  fix E'
  assume E': "inv_but c E' \<and> en_dpidMap E' = en_dpidMap E \<and>
    (\<exists>ch. en_conns E' c = Some (k\<lparr>cn_channel := ch\<rparr>) \<and> mc_version ch = mc_version (cn_channel k))"
  then obtain ch where ch: "en_conns E' c = Some (k\<lparr>cn_channel := ch\<rparr>)" "mc_version ch = mc_version (cn_channel k)" by blast
  show "nd engine_inv (set_handshake c h E')"
    using E' ch h by (intro nd_set_handshake [OF _ ch(1)]) (auto simp: hs_ok_def)
qed

lemma onChannelUp_ok:
  assumes inv: "inv_but c E" and k: "en_conns E c = Some k" and h: "cn_main k = c" "cn_auxList k = []" "c \<notin> ran (en_dpidMap E)"
  shows "nd engine_inv (onChannelUp now c h E)"
  unfolding onChannelUp_def
proof (rule nd_assert, rule nd_bind [OF nd_write_but [OF inv k]])
  fix E'
  assume E': "inv_but c E' \<and> en_dpidMap E' = en_dpidMap E \<and>
    (\<exists>ch. en_conns E' c = Some (k\<lparr>cn_channel := ch\<rparr>) \<and> mc_version ch = mc_version (cn_channel k))"
  then obtain ch where ch: "en_conns E' c = Some (k\<lparr>cn_channel := ch\<rparr>)" by blast
  show "nd engine_inv (sendHello now c h E')"
    unfolding sendHello_def using E' h
    by (intro send_then_state [OF _ ch]) (auto simp: hs_ok_def HandshakeState_order bindE_eq_Inr HelloBuilder_send_version)
qed (auto simp: setNextXid_def)

lemma onFeaturesReply_ok:
  assumes inv: "engine_inv E" and k: "en_conns E c = Some k" "cn_listener k = HandshakeListener h"
  shows "nd engine_inv (onFeaturesReply now c h msg E)"
proof (cases "hs_state h = kSentFeaturesRequest")
  case True
  then have np: "hs_state h \<noteq> kSentPortRequest" by simp
  have v: "mc_version (cn_channel k) \<noteq> 0" "bit (hs_versions h) (unat (mc_version (cn_channel k)))"
    using inv_hs [OF inv k(1)] k(2) True by (auto simp: hs_ok_def)
  have "nd engine_inv (bindE (postDatapath c d a E) (\<lambda>(ok, E).
      if ok then bindE (conn E c) (\<lambda>k.
        if hs_auxiliary h \<and> cn_main k \<noteq> c then bindE (assertC (a \<noteq> 0)) (\<lambda>_. clearChannelListener c E)
        else let h = h\<lparr>hs_featuresReply := msg\<rparr> in
          if mc_version (cn_channel k) > 1 then sendPortDescRequest now c h E else installNewChannelListener c h E)
      else shutdown c E))" for d a
  proof (rule nd_bind [OF postDatapath_ok [OF inv k np]], clarify)
    fix ok E'
    assume E': "inv_but c E'" "kept c k E'" "\<not> ok \<longrightarrow> engine_inv E'"
    from E'(2) obtain k' where k': "en_conns E' c = Some k'" "cn_channel k' = cn_channel k" by (auto simp: kept_def)
    have "nd engine_inv (sendPortDescRequest now c (h\<lparr>hs_featuresReply := msg\<rparr>) E')"
      unfolding sendPortDescRequest_def using E'(1) v k'(2)
      by (intro send_then_state [OF _ k'(1)]) (auto simp: hs_ok_def bindE_eq_Inr MultipartRequestBuilder_send_version)
    moreover have "nd engine_inv (bindE (assertC b) (\<lambda>_. clearChannelListener c E'))" for b
      by (intro nd_assert nd_no_handshake(2) [OF E'(1) k'(1)])
    ultimately show "nd engine_inv (if ok then bindE (conn E' c) (\<lambda>k.
        if hs_auxiliary h \<and> cn_main k \<noteq> c then bindE (assertC (a \<noteq> 0)) (\<lambda>_. clearChannelListener c E')
        else let h = h\<lparr>hs_featuresReply := msg\<rparr> in
          if mc_version (cn_channel k) > 1 then sendPortDescRequest now c h E' else installNewChannelListener c h E')
      else shutdown c E')"
      using E'(3) nd_shutdown [OF _ k'(1)] nd_no_handshake(1) [OF E'(1) k'(1)] by (simp add: conn_def k'(1) Let_def)
  qed
  with True inv show ?thesis unfolding onFeaturesReply_def Let_def by (auto intro: nd_if_cast)
qed (use inv in \<open>simp add: onFeaturesReply_def\<close>)

lemma onPortDescReply_ok:
  assumes inv: "engine_inv E" and k: "en_conns E c = Some k"
  shows "nd engine_inv (onPortDescReply c h msg E)"
  unfolding onPortDescReply_def using inv
  by (auto intro!: nd_if_cast nd_lift nd_no_handshake [OF engine_inv_but k])

lemma set_version_ok:
  assumes inv: "engine_inv E" and k: "en_conns E c = Some k" "cn_listener k = HandshakeListener h" "\<not> kSentHello < hs_state h"
  shows "engine_inv (E\<lparr>en_conns := (en_conns E)(c \<mapsto> k\<lparr>cn_channel := ch\<rparr>)\<rparr>)"
  using inv_hs [OF inv k(1)] k(2,3)
  by (intro inv_set [OF engine_inv_but [OF inv] k(1)]) (auto simp: same_ptrs_def hs_ok_def HandshakeState_order)

lemma onHello_ok:
  assumes inv: "engine_inv E" and k: "en_conns E c = Some k" "cn_listener k = HandshakeListener h" and s: "en_conns E s = Some ks"
  shows "nd engine_inv (onHello err now c h s msg E)"
proof (cases "kSentHello < hs_state h")
  case False
  let ?E = "\<lambda>v. E\<lparr>en_conns := (en_conns E)(c \<mapsto> k\<lparr>cn_channel := (cn_channel k)\<lparr>mc_version := v\<rparr>\<rparr>)\<rparr>"
  have ch: "on_channel c (\<lambda>ch. Inr (ch\<lparr>mc_version := v\<rparr>)) E = Inr (?E v)" for v
    using k by (simp add: on_channel_def conn_def modify_def liftE_def)
  have inv1: "engine_inv (?E v)" for v by (rule set_version_ok [OF inv k False])
  have un: "cn_main k = c" "cn_auxList k = []" "c \<notin> ran (en_dpidMap E)"
    using inv_hs [OF inv k(1)] k(2) False by (auto simp: hs_ok_def HandshakeState_order)
  have fail: "nd engine_inv (bindE (if w then on_channel s f (?E v) else Inr (?E v)) (shutdown c))"
    if f: "\<And>ch ch'. f ch = Inr ch' \<Longrightarrow> mc_version ch' = mc_version ch" for v f w
  proof -
    obtain ks' where ks': "en_conns (?E v) s = Some ks'" using s by (cases "s = c") auto
    have "nd (\<lambda>E'. engine_inv E' \<and> c \<in> dom (en_conns E')) (on_channel s f (?E v))"
      by (rule nd_mono [OF nd_write [OF inv1 ks' f]]) auto
    moreover have "nd engine_inv (shutdown c E')" if "engine_inv E' \<and> c \<in> dom (en_conns E')" for E'
      using that nd_shutdown by blast
    ultimately show ?thesis using inv1 by (auto intro: nd_bind)
  qed
  have ok: "nd engine_inv (if w then bindE (modify c (cn_keepAliveTimeout_update (\<lambda>_. t)) (?E v)) (sendFeaturesRequest now c h)
      else bindE (modify c (cn_keepAliveTimeout_update (\<lambda>_. t')) (?E v)) (installNewChannelListener c h))"
    if v: "v \<noteq> 0" "bit (hs_versions h) (unat v)" for v w t t'
  proof -
    let ?k = "\<lambda>t. k\<lparr>cn_channel := (cn_channel k)\<lparr>mc_version := v\<rparr>, cn_keepAliveTimeout := t\<rparr>"
    let ?E2 = "\<lambda>t. (?E v)\<lparr>en_conns := (en_conns (?E v))(c \<mapsto> ?k t)\<rparr>"
    have m: "modify c (cn_keepAliveTimeout_update (\<lambda>_. t)) (?E v) = Inr (?E2 t)" for t by (simp add: modify_def conn_def)
    have inv2: "inv_but c (?E2 t)" for t
      by (rule inv_but_set [OF engine_inv_but [OF inv1], where k = "k\<lparr>cn_channel := (cn_channel k)\<lparr>mc_version := v\<rparr>\<rparr>"])
        (auto simp: same_ptrs_def)
    have "nd engine_inv (sendFeaturesRequest now c h (?E2 t))"
      unfolding sendFeaturesRequest_def using v un
      by (intro send_then_state [OF inv2, where k = "?k t"]) (auto simp: hs_ok_def HeaderOnlyBuilder_send_version)
    moreover have "nd engine_inv (installNewChannelListener c h (?E2 t'))"
      by (rule nd_no_handshake(1) [OF inv2, where k = "?k t'"]) simp
    ultimately show ?thesis by (simp only: m bindE_simps split: if_split) simp
  qed
  have "nd engine_inv (if v = 0 then
        bindE (on_channel c (\<lambda>ch. Inr (ch\<lparr>mc_version := w\<rparr>)) E) (\<lambda>E.
        bindE (if \<not> b then on_channel s (\<lambda>ch. Inr (mc_flush (mc_write (err msg ch) ch))) E else Inr E) (shutdown c))
      else
        bindE (on_channel c (\<lambda>ch. Inr (ch\<lparr>mc_version := v\<rparr>)) E) (\<lambda>E.
        if b then bindE (modify c (cn_keepAliveTimeout_update (\<lambda>_. t)) E) (sendFeaturesRequest now c h)
        else bindE (modify c (cn_keepAliveTimeout_update (\<lambda>_. t')) E) (installNewChannelListener c h)))"
    if "negotiateVersion (hs_versions h) x y = Inr v" for v w b x y t t'
    unfolding ch bindE_simps
    using ok [of v b t t'] negotiateVersion_supported [OF that]
      fail [of "\<lambda>ch. Inr (mc_flush (mc_write (err msg ch) ch))" "\<not> b" w] by (auto simp: mc_flush_def mc_write_def)
  then show ?thesis
    unfolding onHello_def using False inv by (simp only: if_False) (intro nd_if_cast nd_lift; simp)
qed (use inv in \<open>simp add: onHello_def\<close>)

lemma onMessage_ok:
  assumes "engine_inv E" "en_conns E c = Some k" "cn_listener k = HandshakeListener h" "en_conns E s = Some ks"
  shows "nd engine_inv (onMessage err now c h s msg E)"
  unfolding onMessage_def
  using assms(1) onHello_ok [OF assms] onFeaturesReply_ok [OF assms(1-3)] onPortDescReply_ok [OF assms(1,2)] by simp

section \<open>Received messages\<close>

lemma nd_if: "(b \<Longrightarrow> nd Q x) \<Longrightarrow> (\<not> b \<Longrightarrow> nd Q y) \<Longrightarrow> nd Q (if b then x else y)"
  by simp

lemma echoMessageHandled_ok:
  assumes inv: "engine_inv E" and k: "en_conns E c = Some k"
  shows "nd (\<lambda>(handled, E'). engine_inv E' \<and> (\<exists>ch. E' = E\<lparr>en_conns := (en_conns E)(c \<mapsto> k\<lparr>cn_channel := ch\<rparr>)\<rparr>)) (echoMessageHandled c msg E)"
    (is "nd ?Q _")
proof -
  have reply: "nd ?Q (bindE (on_channel c (\<lambda>ch. Inr (mc_flush (mc_write m ch))) E) (\<lambda>E. Inr (True, E)))" for m
    by (rule nd_bind [OF nd_write [OF inv k]]) (auto simp: mc_flush_def mc_write_def)
  have "E = E\<lparr>en_conns := (en_conns E)(c \<mapsto> k\<lparr>cn_channel := cn_channel k\<rparr>)\<rparr>" using k by (simp add: fun_upd_idem)
  then have same: "nd ?Q (Inr (b, E))" for b
    unfolding nd_simps prod.case using inv by (intro conjI exI [of _ "cn_channel k"])
  show ?thesis
    unfolding echoMessageHandled_def Let_def by (intro nd_if nd_if_cast reply same)
qed

lemma postMessage_ok:
  assumes inv: "engine_inv E" and k: "en_conns E c = Some k"
  shows "case postMessage little junk err now c msg E of None \<Rightarrow> True | Some r \<Rightarrow> nd engine_inv r"
proof -
  have I: "ptr_inv (ptrs E) (en_dpidMap E)" using inv by (simp add: engine_inv_def)
  have "\<exists>p. en_conns E (cn_main k) = Some p"
    using ptr_invD(2) [OF I, of c "cn_main k"] k by (cases "cn_main k = c") (auto simp: ptrs_Some)
  then obtain p where p: "en_conns E (cn_main k) = Some p" by blast
  let ?R = "bindE (if mc_version (cn_channel k) \<ge> 1 then echoMessageHandled c msg E else Inr (False, E)) (\<lambda>(handled, E).
      if handled then Inr (cn_main k, NoListener, E) else bindE (conn E (cn_main k)) (\<lambda>p. Inr (cn_main k, cn_listener p, E)))"
  let ?Q = "\<lambda>(c', l, E'). engine_inv E' \<and> c \<in> dom (en_conns E') \<and>
      (l = NoListener \<or> (\<exists>p. en_conns E' c' = Some p \<and> cn_listener p = l))"
  have "nd ?Q (if handled then Inr (cn_main k, NoListener, E') else bindE (conn E' (cn_main k)) (\<lambda>p. Inr (cn_main k, cn_listener p, E')))"
    if "engine_inv E' \<and> (\<exists>ch. E' = E\<lparr>en_conns := (en_conns E)(c \<mapsto> k\<lparr>cn_channel := ch\<rparr>)\<rparr>)" for handled E'
    using that p by (cases "cn_main k = c") (auto simp: conn_def)
  then have handled: "nd ?Q (bindE (echoMessageHandled c msg E) (\<lambda>(handled, E).
      if handled then Inr (cn_main k, NoListener, E) else bindE (conn E (cn_main k)) (\<lambda>p. Inr (cn_main k, cn_listener p, E))))"
    by (intro nd_bind [OF echoMessageHandled_ok [OF inv k]]) auto
  have R: "nd ?Q ?R" using handled inv k p by (auto simp: conn_def)
  have "nd engine_inv (case l of HandshakeListener h \<Rightarrow> onMessage err now c' h c m E'
      | _ \<Rightarrow> modify c' (\<lambda>p. p\<lparr>cn_delivered := cn_delivered p @ [m]\<rparr>) E')"
    if Q: "?Q (c', l, E')" and "l \<noteq> NoListener" for c' l E' m
  proof -
    from Q that(2) obtain p' kc where E': "engine_inv E'" "en_conns E' c' = Some p'" "cn_listener p' = l" "en_conns E' c = Some kc" by auto
    have "engine_inv (E'\<lparr>en_conns := (en_conns E')(c' \<mapsto> p'\<lparr>cn_delivered := x\<rparr>)\<rparr>)" for x
      using inv_hs [OF E'(1,2)] by (intro inv_set [OF engine_inv_but [OF E'(1)] E'(2)]) (auto simp: same_ptrs_def hs_ok_def)
    then show ?thesis
      using onMessage_ok [OF E'(1,2) _ E'(4)] E'(2,3) by (cases l) (auto intro: nd_modify)
  qed
  then have "nd engine_inv (bindE (liftE r) (\<lambda>m. case l of HandshakeListener h \<Rightarrow> onMessage err now c' h c m E'
      | _ \<Rightarrow> modify c' (\<lambda>p. p\<lparr>cn_delivered := cn_delivered p @ [m]\<rparr>) E'))"
    if "?Q (c', l, E')" and "l \<noteq> NoListener" for c' l E' r
    using that by (intro nd_lift) blast
  note deliver = this
  show ?thesis
  proof (cases ?R)
    case (Inl e)
    with R obtain f where "e = MsgFault f" by (cases e) auto
    with Inl k show ?thesis by (simp add: postMessage_def conn_def)
  next
    case (Inr q)
    obtain c' l E' where q: "q = (c', l, E')" by (cases q)
    with R Inr have Q: "?Q (c', l, E')" by simp
    with deliver [OF Q] k Inr q show ?thesis
      by (cases "l = NoListener"; cases "normalize little junk msg") (simp_all add: postMessage_def conn_def)
  qed
qed

section \<open>Timer and new connections\<close>

lemma inv_but_new:
  assumes inv: "engine_inv E" and c: "c = en_nextId E" and k: "cn_main k = c" "cn_auxList k = []"
  shows "inv_but c (E\<lparr>en_conns := (en_conns E)(c \<mapsto> k), en_nextId := c + 1\<rparr>)" and "c \<notin> ran (en_dpidMap E)"
proof -
  have I: "ptr_inv (ptrs E) (en_dpidMap E)" using inv by (simp add: engine_inv_def)
  have fresh: "en_conns E c = None" using inv c by (fastforce simp: engine_inv_def)
  then have none: "ptrs E c = None" by (simp add: ptrs_def)
  let ?P = "(ptrs E)(c \<mapsto> (c, [], cn_datapathId k, cn_auxiliaryId k))"
  have old: "?P x = Some q" if "ptrs E x = Some q" for x q using that none by auto
  have "ptr_inv ?P (en_dpidMap E)"
  proof (rule ptr_invI)
    fix d x assume "en_dpidMap E d = Some x"
    from ptr_invD(1) [OF I this] old show "\<not> dpid_empty d \<and> (\<exists>xs. ?P x = Some (x, xs, d, 0))" by blast
  next
    fix x m xs d a assume x: "?P x = Some (m, xs, d, a)" and "m \<noteq> x"
    then have "ptrs E x = Some (m, xs, d, a)" by (auto split: if_splits)
    from ptr_invD(2) [OF I this \<open>m \<noteq> x\<close>] old
    show "xs = [] \<and> \<not> dpid_empty d \<and> (\<exists>m' xs' d' a'. ?P m = Some (m', xs', d', a') \<and> x \<in> set xs')" by blast
  next
    fix x m xs d a assume "?P x = Some (m, xs, d, a)"
    then show "(xs \<noteq> [] \<longrightarrow> \<not> dpid_empty d) \<and> distinct xs"
      using ptr_invD(3,4) [OF I] by (cases "x = c") auto
  next
    fix x m xs d a y assume "?P x = Some (m, xs, d, a)" and y: "y \<in> set xs"
    then have "ptrs E x = Some (m, xs, d, a)" by (cases "x = c") auto
    from ptr_invD(5) [OF I this y] old show "y \<noteq> x \<and> (\<exists>xs' d' a'. ?P y = Some (x, xs', d', a'))" by blast
  qed
  moreover have "ptrs (E\<lparr>en_conns := (en_conns E)(c \<mapsto> k), en_nextId := c + 1\<rparr>) = ?P" using k by (auto simp: ptrs_def)
  moreover have "\<forall>c'\<in>dom (en_conns E). c' < c" using inv c by (simp add: engine_inv_def)
  moreover have "hs_ok (en_dpidMap E) c' k'" if "en_conns E c' = Some k'" for c' k' using inv that by (simp add: engine_inv_def)
  ultimately show "inv_but c (E\<lparr>en_conns := (en_conns E)(c \<mapsto> k), en_nextId := c + 1\<rparr>)"
    unfolding inv_but_def by (auto simp: less_SucI split: if_splits)
  show "c \<notin> ran (en_dpidMap E)" using ptr_invD(1) [OF I] none by (fastforce simp: ran_def)
qed

lemma ConnUp_ok:
  assumes "engine_inv E" and "cn_main k = en_nextId E" and "cn_auxList k = []" and "cn_listener k = HandshakeListener h" and "\<not> cn_channelUp k"
  shows "nd engine_inv (channelUp now (en_nextId E) (E\<lparr>en_conns := (en_conns E)(en_nextId E \<mapsto> k), en_nextId := en_nextId E + 1\<rparr>))"
    (is "nd _ (channelUp _ ?c ?E)")
proof -
  let ?k = "k\<lparr>cn_channelUp := True\<rparr>"
  note new = inv_but_new [OF assms(1) refl, of ?k]
  have "?E\<lparr>en_conns := (en_conns ?E)(?c \<mapsto> ?k)\<rparr> = E\<lparr>en_conns := (en_conns E)(?c \<mapsto> ?k), en_nextId := ?c + 1\<rparr>" by simp
  then have swap: "?E\<lparr>en_conns := (en_conns E)(?c \<mapsto> ?k)\<rparr> = E\<lparr>en_conns := (en_conns E)(?c \<mapsto> ?k), en_nextId := ?c + 1\<rparr>" by simp
  have "channelUp now ?c ?E = onChannelUp now ?c h (?E\<lparr>en_conns := (en_conns E)(?c \<mapsto> ?k)\<rparr>)"
    using assms by (simp add: channelUp_def conn_def modify_def)
  then show ?thesis
    unfolding swap using new assms onChannelUp_ok [OF new(1), of ?k now h] by simp
qed

lemma nd_flags:
  assumes "engine_inv E" and "en_conns E c = Some k" and "same_ptrs k (f k)" and "cn_listener (f k) = cn_listener k"
    and "mc_version (cn_channel (f k)) = mc_version (cn_channel k)"
  shows "nd engine_inv (modify c f E)"
  using inv_hs [OF assms(1,2)] assms(3-5)
  by (intro nd_modify [OF assms(2)] inv_set [OF engine_inv_but [OF assms(1)] assms(2,3)]) (simp add: hs_ok_def same_ptrs_def)

lemma EchoRequestBuilder_send_version: "EchoRequestBuilder_send b ch = Inr (x, ch') \<Longrightarrow> mc_version ch' = mc_version ch"
  by (auto simp: EchoRequestBuilder_send_def bindE_eq_Inr nextXid_def mc_write_def mc_flush_def Let_def split: prod.splits if_splits)

lemma tickle_ok:
  assumes inv: "engine_inv E" and k: "en_conns E c = Some k"
  shows "nd engine_inv (tickle now taken c E)"
proof -
  let ?E = "E\<lparr>en_conns := (en_conns E)(c \<mapsto> k\<lparr>cn_idle := True\<rparr>)\<rparr>"
  have "nd engine_inv (modify c (cn_idle_update (\<lambda>_. True)) E)"
    using inv k by (intro nd_flags) (auto simp: same_ptrs_def)
  then have idle: "engine_inv ?E" using k by (simp add: modify_def conn_def)
  have "nd engine_inv (on_channel c (\<lambda>ch. bindE (EchoRequestBuilder_send b ch) (\<lambda>(_, ch). Inr ch)) ?E)" for b
    by (rule nd_mono [OF nd_write [OF idle]]) (auto simp: bindE_eq_Inr EchoRequestBuilder_send_version)
  then have "nd engine_inv (bindE (modify c (cn_idle_update (\<lambda>_. True)) E)
      (on_channel c (\<lambda>ch. bindE (EchoRequestBuilder_send b ch) (\<lambda>(_, ch). Inr ch))))" for b
    using k by (simp add: modify_def conn_def)
  then show ?thesis
    unfolding tickle_def using inv nd_shutdown [OF inv k]
    by (intro nd_conn [OF k] nd_assert) (auto simp: onTickle_def Let_def split: listener.split)
qed

lemma run_ok:
  assumes inv: "engine_inv E" and live: "live E ev"
  shows "case run little junk err ev E of None \<Rightarrow> True | Some r \<Rightarrow> nd engine_inv r"
proof (cases ev)
  case (ConnUp now permitsAuxiliary vs wantFeatures auxiliary factory xid)
  then show ?thesis
    using ConnUp_ok [OF inv, of "(Connection_make (en_nextId E) now permitsAuxiliary
      (DefaultHandshake_make vs wantFeatures auxiliary factory xid))\<lparr>cn_connectionUp := True\<rparr>"]
    by (simp add: run_def Let_def Connection_make_def)
next
  case (ReadStarted now c)
  with live obtain k where k: "en_conns E c = Some k" by (auto simp: live_def Option.is_none_def)
  have "nd engine_inv (updateTimeReadStarted now c E)"
    unfolding updateTimeReadStarted_def using inv k by (intro nd_flags) (auto simp: same_ptrs_def)
  with ReadStarted show ?thesis by (simp add: run_def)
next
  case (Receive now c msg)
  with live inv show ?thesis using postMessage_ok [OF inv] by (auto simp: live_def Option.is_none_def run_def)
next
  case (Tickle now taken c)
  with live inv show ?thesis using tickle_ok [OF inv] by (auto simp: live_def Option.is_none_def run_def)
next
  case (Down c)
  with live obtain k where k: "en_conns E c = Some k" by (auto simp: live_def Option.is_none_def)
  have "nd engine_inv (modify c (cn_channelUp_update (\<lambda>_. False)) E)"
    using inv k by (intro nd_flags) (auto simp: same_ptrs_def)
  with Down inv k show ?thesis by (simp add: run_def channelDown_def conn_def)
next
  case (Delete c)
  with live inv show ?thesis using Connection_delete_ok [OF inv] by (auto simp: live_def Option.is_none_def run_def)
qed

lemma reachable_inv: "reachable little junk err E \<Longrightarrow> engine_inv E"
proof (induction rule: reachable.induct)
  case reachable_init
  show ?case by (simp add: Engine_init_def engine_inv_def ptr_inv_def ptrs_def)
next
  case (reachable_step E ev E')
  then show ?case using run_ok [of E ev little junk err] by simp
qed

fun runs :: "bool \<Rightarrow> (nat \<Rightarrow> byte) \<Rightarrow> (bytes \<Rightarrow> MemoryChannel \<Rightarrow> bytes) \<Rightarrow> event list \<Rightarrow> Engine \<Rightarrow> Engine option" where
  "runs little junk err [] E = Some E"
| "runs little junk err (ev # evs) E =
     (if live E ev then case run little junk err ev E of Some (Inr E') \<Rightarrow> runs little junk err evs E' | _ \<Rightarrow> None else None)"

lemma runs_reachable: "runs little junk err evs E = Some E' \<Longrightarrow> reachable little junk err E \<Longrightarrow> reachable little junk err E'"
  by (induction evs arbitrary: E) (auto split: if_splits option.splits sum.splits intro: reachable_step)


text \<open>A main connection and an auxiliary connection to the same data path.\<close>

definition sample_events :: "event list" where
  "sample_events =
     (let hello = [4, 0, 0, 8, 0, 0, 0, 1];
          features = (\<lambda>aux. [4, 6, 0, 32, 0, 0, 0, 1, 0, 0, 0, 0, 0, 0, 0, 7, 0, 0, 0, 0, 1, aux, 0, 0, 0, 0, 0, 0, 0, 0, 0, 0]) in
      [Receive 1 1 hello, Receive 2 1 (features 0), Receive 4 2 hello, Receive 5 2 (features 1)])"

definition sample_conn :: "bool \<Rightarrow> connid \<Rightarrow> Connection" where
  "sample_conn wantFeatures c =
     (Connection_make c 0 True ((DefaultHandshake_make 0x10 wantFeatures True True 1)\<lparr>hs_state := kSentHello\<rparr>))
       \<lparr>cn_connectionUp := True, cn_channelUp := True,
        cn_channel := \<lparr>mc_buf = [4, 0, 0, 8, 0, 0, 0, 1], mc_nextXid = 2, mc_version = 0, mc_flushed = True\<rparr>\<rparr>"

lemma sample_hello:
  "map_sum id (snd \<circ> snd) (HelloBuilder_send (HelloBuilder_make 0x10) \<lparr>mc_buf = [], mc_nextXid = 1, mc_version = 0, mc_flushed = False\<rparr>) =
     Inr \<lparr>mc_buf = [4, 0, 0, 8, 0, 0, 0, 1], mc_nextXid = 2, mc_version = 0, mc_flushed = True\<rparr>"
  by code_simp

lemma runs_sample_conn:
  "runs little junk err (ConnUp 0 True 0x10 wantFeatures True True 1 # evs) E =
     runs little junk err evs (E\<lparr>en_nextId := en_nextId E + 1, en_conns := (en_conns E)(en_nextId E \<mapsto> sample_conn wantFeatures (en_nextId E))\<rparr>)"
proof -
  obtain x y where "HelloBuilder_send (HelloBuilder_make 0x10) \<lparr>mc_buf = [], mc_nextXid = 1, mc_version = 0, mc_flushed = False\<rparr> =
      Inr (x, y, \<lparr>mc_buf = [4, 0, 0, 8, 0, 0, 0, 1], mc_nextXid = 2, mc_version = 0, mc_flushed = True\<rparr>)"
    using sample_hello by (cases "HelloBuilder_send (HelloBuilder_make 0x10) \<lparr>mc_buf = [], mc_nextXid = 1, mc_version = 0, mc_flushed = False\<rparr>") auto
  then show ?thesis
    by (simp add: live_def run_def channelUp_def onChannelUp_def sendHello_def set_handshake_def on_channel_def modify_def conn_def
        Connection_make_def DefaultHandshake_make_def sample_conn_def setNextXid_def MemoryChannel_make_def assertC_def liftE_def
        assertE_def Let_def)
qed


end
