(* ===== verification/Delivery.thy ===== *)
theory Delivery
  imports NormalizeSafety MessageSafety ConnectionSafety
begin

text \<open>
  The messages the listener of the application gets: an engine changes them only in \<^verbatim>\<open>Connection::postMessage\<close>, which
  appends a normalized message.
\<close>

declare add_2_eq_Suc [simp del] add_2_eq_Suc' [simp del] elem_params [simp del]

text \<open>The messages delivered so far satisfy \<open>Q\<close>.\<close>

definition delivered :: "(bytes \<Rightarrow> bool) \<Rightarrow> Engine \<Rightarrow> bool" where
  "delivered Q E \<longleftrightarrow> (\<forall>c k. en_conns E c = Some k \<longrightarrow> (\<forall>m\<in>set (cn_delivered k). Q m))"

definition res :: "('a \<Rightarrow> bool) \<Rightarrow> conn_fault + 'a \<Rightarrow> bool" where
  "res P r \<longleftrightarrow> (\<forall>x. r = Inr x \<longrightarrow> P x)"

lemma res_simps [simp]: "res P (Inr x) = P x" "res P (Inl e)"
  by (simp_all add: res_def)

lemma resD: "res P r \<Longrightarrow> r = Inr x \<Longrightarrow> P x"
  by simp

lemma res_bind: "res P r \<Longrightarrow> (\<And>x. P x \<Longrightarrow> res Q (f x)) \<Longrightarrow> res Q (bindE r f)"
  by (cases r) (auto simp: res_def)

lemma res_any: "(\<And>x. res Q (f x)) \<Longrightarrow> res Q (bindE r f)"
  by (cases r) auto

lemma res_conn: "(\<And>k. res Q (f k)) \<Longrightarrow> res Q (bindE (conn E c) f)"
  by (rule res_any)

lemma res_if: "(b \<Longrightarrow> res Q x) \<Longrightarrow> (\<not> b \<Longrightarrow> res Q y) \<Longrightarrow> res Q (if b then x else y)"
  by simp

lemma res_if_cast: "res Q null \<Longrightarrow> res Q ok \<Longrightarrow> res Q (if_cast t msg null ok)"
  by (auto simp: if_cast_def split: sum.splits fault.splits)

lemma res_modify:
  assumes "delivered Q E" and "\<And>k. cn_delivered (f k) = cn_delivered k"
  shows "res (delivered Q) (modify c f E)"
  using assms by (auto simp: res_def modify_def conn_def delivered_def split: option.splits if_splits)

lemma res_on_channel: "delivered Q E \<Longrightarrow> res (delivered Q) (on_channel c f E)"
  unfolding on_channel_def by (intro res_any res_modify) simp_all

lemma res_shutdown: "delivered Q E \<Longrightarrow> res (delivered Q) (shutdown c E)"
  unfolding shutdown_def by (intro res_modify) simp_all

lemma res_set_handshake: "delivered Q E \<Longrightarrow> res (delivered Q) (set_handshake c h E)"
  unfolding set_handshake_def by (intro res_modify) simp_all

lemma delivered_dpid: "delivered Q (E\<lparr>en_dpidMap := D\<rparr>) = delivered Q E"
  by (simp add: delivered_def)

lemma res_setMainConnection: "delivered Q E \<Longrightarrow> res (delivered Q) (setMainConnection c p a E)"
  unfolding setMainConnection_def
  by (rule res_any, rule res_any, rule res_any, rule res_any, rule res_any, rule res_bind [OF res_modify], assumption, simp,
      rule res_any, rule res_bind [where P = "delivered Q"], simp add: res_shutdown split: option.split, rule res_modify, assumption, simp)

lemma res_registerDatapath: "delivered Q E \<Longrightarrow> res (\<lambda>(ok, E'). delivered Q E') (registerDatapath c E)"
  unfolding registerDatapath_def Let_def
  by (rule res_any)
    (auto simp: delivered_dpid split: option.split intro!: res_conn res_bind [OF res_shutdown] res_bind [OF res_setMainConnection] res_if)

lemma res_postDatapath: "delivered Q E \<Longrightarrow> res (\<lambda>(ok, E'). delivered Q E') (postDatapath c d a E)"
  unfolding postDatapath_def by (auto intro!: res_bind [OF res_modify] res_registerDatapath)

lemma res_detach_aux: "delivered Q E \<Longrightarrow> res (delivered Q) (detach_aux xs E)"
proof (induction xs arbitrary: E)
  case (Cons x xs)
  show ?case
    unfolding detach_aux.simps
    by (rule res_bind [OF res_modify [OF Cons.prems]], simp, rule res_bind [OF res_shutdown], assumption, rule Cons.IH)
qed simp

lemma res_Connection_delete: "delivered Q E \<Longrightarrow> res (delivered Q) (Connection_delete c E)"
proof -
  assume E: "delivered Q E"
  have release: "res (delivered Q) (releaseDatapath c E)"
    unfolding releaseDatapath_def using E by (auto intro!: res_any simp: delivered_dpid)
  have drop: "delivered Q (E\<lparr>en_conns := (en_conns E)(c := None)\<rparr>)" if "delivered Q E" for E :: Engine
    using that by (auto simp: delivered_def)
  show ?thesis
    unfolding Connection_delete_def
    by (rule res_any, rule res_bind [where P = "delivered Q"], rule res_if, rule res_bind [OF release], rule res_if,
        erule res_detach_aux, rule res_modify, assumption, simp, simp add: E, simp add: drop)
qed

section \<open>The handshake\<close>

lemma res_send:
  "delivered Q E \<Longrightarrow> res (delivered Q) (sendHello now c h E)"
  "delivered Q E \<Longrightarrow> res (delivered Q) (sendFeaturesRequest now c h E)"
  "delivered Q E \<Longrightarrow> res (delivered Q) (sendPortDescRequest now c h E)"
  unfolding sendHello_def sendFeaturesRequest_def sendPortDescRequest_def
  by (rule res_bind [OF res_on_channel], assumption, erule res_set_handshake)+

lemma res_listener:
  "delivered Q E \<Longrightarrow> res (delivered Q) (installNewChannelListener c h E)"
  "delivered Q E \<Longrightarrow> res (delivered Q) (clearChannelListener c E)"
  unfolding installNewChannelListener_def clearChannelListener_def by (rule res_modify, assumption, simp)+

lemma res_onChannelUp: "delivered Q E \<Longrightarrow> res (delivered Q) (onChannelUp now c h E)"
  unfolding onChannelUp_def by (rule res_any, rule res_bind [OF res_on_channel], assumption, erule res_send)

lemma res_onHello: "delivered Q E \<Longrightarrow> res (delivered Q) (onHello err now c h source msg E)"
proof -
  assume E: "delivered Q E"
  have incompatible: "res (delivered Q) (bindE (on_channel c f E) (\<lambda>E.
      bindE (if b then on_channel source g E else Inr E) (shutdown c)))" for f g b
    by (rule res_bind [OF res_on_channel [OF E]], rule res_bind [where P = "delivered Q"], simp add: res_on_channel, erule res_shutdown)
  have compatible: "res (delivered Q) (bindE (on_channel c f E) (\<lambda>E.
      if hs_wantFeatures h then bindE (modify c (cn_keepAliveTimeout_update x) E) (sendFeaturesRequest now c h)
      else bindE (modify c (cn_keepAliveTimeout_update y) E) (installNewChannelListener c h)))" for f x y
    by (rule res_bind [OF res_on_channel [OF E]], rule res_if; rule res_bind [OF res_modify], assumption, simp, erule res_send res_listener)
  show ?thesis
    unfolding onHello_def by (intro res_if res_if_cast res_any incompatible compatible) (simp_all add: E)
qed

lemma res_onFeaturesReply: "delivered Q E \<Longrightarrow> res (delivered Q) (onFeaturesReply now c h msg E)"
  unfolding onFeaturesReply_def Let_def
  by (rule res_if, simp, rule res_if_cast, simp, rule res_bind [OF res_postDatapath], assumption)
    (auto intro!: res_any res_listener res_send res_shutdown)

lemma res_onPortDescReply: "delivered Q E \<Longrightarrow> res (delivered Q) (onPortDescReply c h msg E)"
  unfolding onPortDescReply_def by (rule res_if, simp, rule res_if_cast, simp, rule res_any, erule res_listener)

lemma res_onMessage: "delivered Q E \<Longrightarrow> res (delivered Q) (onMessage err now c h source msg E)"
  unfolding onMessage_def by (simp add: res_onHello res_onFeaturesReply res_onPortDescReply)

section \<open>Events\<close>

lemma res_echo: "delivered Q E \<Longrightarrow> res (\<lambda>(handled, E'). delivered Q E') (echoMessageHandled c msg E)"
  unfolding echoMessageHandled_def Let_def
  by (auto intro!: res_if_cast res_bind [OF res_on_channel])

lemma res_tickle: "delivered Q E \<Longrightarrow> res (delivered Q) (tickle now taken c E)"
proof -
  assume E: "delivered Q E"
  have idle: "res (delivered Q) (bindE (modify c (cn_idle_update x) E) (on_channel c f))" for x f
    by (rule res_bind [OF res_modify [OF E]], simp, erule res_on_channel)
  show ?thesis
    unfolding tickle_def using E idle res_shutdown [OF E] by (intro res_any) (auto simp: onTickle_def Let_def split: listener.split)
qed

lemma res_channelUp: "delivered Q E \<Longrightarrow> res (delivered Q) (channelUp now c E)"
  unfolding channelUp_def
  by (rule res_conn, rule res_if, rule res_bind [OF res_modify], assumption, simp) (auto split: listener.split intro!: res_onChannelUp)

lemma delivered_postMessage:
  assumes E: "delivered Q E" and m: "\<And>m. normalize little junk msg = Some (Inr m) \<Longrightarrow> Q m"
    and post: "postMessage little junk err now c msg E = Some (Inr E')"
  shows "delivered Q E'"
proof -
  let ?R = "bindE (conn E c) (\<lambda>k.
      bindE (if mc_version (cn_channel k) \<ge> 1 then echoMessageHandled c msg E else Inr (False, E)) (\<lambda>(handled, E).
      if handled then Inr (cn_main k, NoListener, E) else bindE (conn E (cn_main k)) (\<lambda>p. Inr (cn_main k, cn_listener p, E))))"
  have handled: "res (\<lambda>(handled, E). delivered Q E) (if mc_version (cn_channel k) \<ge> 1 then echoMessageHandled c msg E else Inr (False, E))" for k
    using E res_echo by simp
  have "res (\<lambda>(c', l, E'). delivered Q E') ?R"
    by (rule res_conn, rule res_bind [OF handled]) (auto intro!: res_conn)
  then obtain c' l E1 where q: "?R = Inr (c', l, E1)" "delivered Q E1"
    using post by (cases ?R) (auto simp: postMessage_def)
  show ?thesis
  proof (cases "l = NoListener")
    case True
    with q post show ?thesis by (simp add: postMessage_def)
  next
    case False
    with q(1) post obtain r where "normalize little junk msg = Some r"
      and r: "bindE (liftE r) (\<lambda>m. case l of HandshakeListener h \<Rightarrow> onMessage err now c' h c m E1
        | _ \<Rightarrow> modify c' (\<lambda>p. p\<lparr>cn_delivered := cn_delivered p @ [m]\<rparr>) E1) = Inr E'"
      by (auto simp: postMessage_def)
    then obtain m' where "normalize little junk msg = Some (Inr m')" and m': "(case l of HandshakeListener h \<Rightarrow> onMessage err now c' h c m' E1
        | _ \<Rightarrow> modify c' (\<lambda>p. p\<lparr>cn_delivered := cn_delivered p @ [m']\<rparr>) E1) = Inr E'"
      by (cases r) (auto simp: liftE_def)
    with m have "Q m'" by blast
    then have "res (delivered Q) (modify c' (\<lambda>p. p\<lparr>cn_delivered := cn_delivered p @ [m']\<rparr>) E1)"
      using q(2) by (auto simp: res_def modify_def conn_def delivered_def split: option.splits if_splits)
    with m' q(2) res_onMessage [of Q E1] show ?thesis by (auto simp: res_def split: listener.splits)
  qed
qed

text \<open>What an event delivers.\<close>

definition delivers :: "(bytes \<Rightarrow> bool) \<Rightarrow> bool \<Rightarrow> (nat \<Rightarrow> byte) \<Rightarrow> event \<Rightarrow> bool" where
  "delivers Q little junk ev \<longleftrightarrow> (\<forall>now c msg m. ev = Receive now c msg \<longrightarrow> normalize little junk msg = Some (Inr m) \<longrightarrow> Q m)"

lemma delivered_run:
  assumes "delivered Q E" and "delivers Q little junk ev" and "run little junk err ev E = Some (Inr E')"
  shows "delivered Q E'"
proof (cases ev)
  case (ConnUp now permitsAuxiliary vs wantFeatures auxiliary factory xid)
  let ?k = "(Connection_make (en_nextId E) now permitsAuxiliary (DefaultHandshake_make vs wantFeatures auxiliary factory xid))\<lparr>cn_connectionUp := True\<rparr>"
  have "delivered Q (E\<lparr>en_conns := (en_conns E)(en_nextId E \<mapsto> ?k), en_nextId := en_nextId E + 1\<rparr>)"
    using assms(1) by (auto simp: delivered_def Connection_make_def)
  from res_channelUp [OF this, of now "en_nextId E"] show ?thesis
    by (rule resD) (use ConnUp assms(3) in \<open>simp add: run_def Let_def\<close>)
next
  case (ReadStarted now c)
  have "res (delivered Q) (updateTimeReadStarted now c E)"
    unfolding updateTimeReadStarted_def by (rule res_modify [OF assms(1)]) simp
  then show ?thesis by (rule resD) (use ReadStarted assms(3) in \<open>simp add: run_def\<close>)
next
  case (Receive now c msg)
  then have "postMessage little junk err now c msg E = Some (Inr E')" using assms(3) by (simp add: run_def)
  moreover have "Q m" if "normalize little junk msg = Some (Inr m)" for m using assms(2) that Receive unfolding delivers_def by blast
  ultimately show ?thesis using delivered_postMessage [OF assms(1)] by blast
next
  case (Tickle now taken c)
  from res_tickle [OF assms(1)] show ?thesis by (rule resD) (use Tickle assms(3) in \<open>simp add: run_def\<close>)
next
  case (Down c)
  have "res (delivered Q) (channelDown c E)"
    unfolding channelDown_def by (rule res_conn, rule res_if, rule res_modify [OF assms(1)], simp, simp add: assms(1))
  then show ?thesis by (rule resD) (use Down assms(3) in \<open>simp add: run_def\<close>)
next
  case (Delete c)
  from res_Connection_delete [OF assms(1)] show ?thesis by (rule resD) (use Delete assms(3) in \<open>simp add: run_def\<close>)
qed

lemma delivered_runs:
  assumes "runs little junk err evs E = Some E'" and "\<forall>ev\<in>set evs. delivers Q little junk ev" and "delivered Q E"
  shows "delivered Q E'"
  using assms
proof (induction evs arbitrary: E)
  case (Cons ev evs)
  then obtain E1 where "run little junk err ev E = Some (Inr E1)" "runs little junk err evs E1 = Some E'"
    by (auto split: if_splits option.splits sum.splits)
  with Cons show ?case using delivered_run [of Q E little junk ev err E1] by simp
qed simp

end
