(* ===== verification/KeepAlive.thy ===== *)
theory KeepAlive
  imports Connections
begin

text \<open>
  The keep-alive timer of a connection (\<^verbatim>\<open>Connection::tickle\<close>, \<^verbatim>\<open>Connection::echoMessageHandled\<close> in
  \<^verbatim>\<open>src/ofp/sys/connection.cpp\<close>, \<^verbatim>\<open>src/ofp/echorequest.cpp\<close>): the request one side sends, the reply of the other side
  and what the first side does with it.
\<close>

declare add_2_eq_Suc [simp del] add_2_eq_Suc' [simp del] elem_params [simp del]

text \<open>The bytes of a keep-alive request (type 2) and of the reply to it (type 3).\<close>

definition keep_alive :: "byte \<Rightarrow> byte \<Rightarrow> bytes" where
  "keep_alive version type = [version, type, 0, 16, 0xFB, 0xD0, 0xFF, 0x86] @ kKeepAliveData"

lemma keep_alive_numbers:
  "be32 0 = [0, 0, 0, 0]" "be32 kKeepAliveXID = [0xFB, 0xD0, 0xFF, 0x86]" "length kKeepAliveData = 8" "be16 16 = [0, 16]"
  "kKeepAliveXID \<noteq> 0" "rd32 0 [0xFB, 0xD0, 0xFF, 0x86] = kKeepAliveXID" "rd16 0 [0, 16] = 16"
  by code_simp+

lemma keep_alive_reads:
  "length (keep_alive v t) = 16" "Header_type (keep_alive v t) = t" "rd16 2 (keep_alive v t) = 16" "rd8 0 (keep_alive v t) = v"
  "Header_xid (keep_alive v t) = kKeepAliveXID" "drop 8 (keep_alive v t) = kKeepAliveData"
  "setType t' (keep_alive v t) = keep_alive v t'"
  using keep_alive_numbers(3,6,7)
  by (simp_all add: keep_alive_def Header_type_def Header_xid_def setType_def wr8_def overwrite_def rd_defs sub_bytes_def)

lemma keep_alive_send:
  "EchoRequestBuilder_send (setKeepAlive (EchoRequestBuilder_make 0)) ch =
     Inr (kKeepAliveXID, mc_flush (mc_write (keep_alive (mc_version ch) 2) ch))"
proof -
  have "setXid kKeepAliveXID (setXid 0 (setType 2 (zeros 8))) = [0, 2, 0, 0, 0xFB, 0xD0, 0xFF, 0x86]" by code_simp
  then have b: "setKeepAlive (EchoRequestBuilder_make 0) = ([0, 2, 0, 0, 0xFB, 0xD0, 0xFF, 0x86], kKeepAliveData)"
    by (simp add: setKeepAlive_def EchoRequestBuilder_make_def)
  have x: "Header_xid [v, 2, 0, 16, 0xFB, 0xD0, 0xFF, 0x86] = kKeepAliveXID" for v
    using keep_alive_numbers(6) by (simp add: Header_xid_def rd_defs sub_bytes_def)
  show ?thesis
    unfolding b EchoRequestBuilder_send_def
    by (simp add: x keep_alive_numbers setLength_def setVersion_def wr8_def wr16_def overwrite_def assertE_def keep_alive_def
        mc_flush_def mc_write_def OFP_MAX_SIZE_def)
qed

lemma keep_alive_cast:
  assumes "v AND 0xF0 = 0" and "t = 2 \<or> t = 3"
  shows "castMessage (if t = 2 then EchoRequest else EchoReply) (keep_alive v t) = Inr ()"
  using assms keep_alive_reads(1-4) [of v t]
  by (auto simp: castMessage_def get8_def get16_def Header_type_def isLengthValid_def msg_validateInput_def assertE_def Let_def)

lemma keep_alive_request:
  assumes "en_conns F d = Some p" and "1 \<le> mc_version (cn_channel p)" and "v AND 0xF0 = 0"
  shows "postMessage little junk err now d (keep_alive v 2) F =
    Some (Inr (F\<lparr>en_conns := (en_conns F)(d \<mapsto> p\<lparr>cn_channel := mc_flush (mc_write (keep_alive v 3) (cn_channel p))\<rparr>)\<rparr>))"
proof -
  have "kKeepAliveData \<noteq> kPassThruData" by code_simp
  moreover have "sub_bytes 8 8 (keep_alive v 2) = kKeepAliveData" by (simp add: sub_bytes_def keep_alive_reads keep_alive_numbers)
  ultimately show ?thesis
    using assms keep_alive_cast [OF assms(3), of 2] keep_alive_reads(1-6) [of v 2] keep_alive_reads(7) [of 3 v 2]
    by (simp add: postMessage_def echoMessageHandled_def if_cast_def conn_def on_channel_def modify_def liftE_def Let_def)
qed

lemma keep_alive_reply:
  assumes "en_conns E c = Some k" and "1 \<le> mc_version (cn_channel k)" and "v AND 0xF0 = 0"
  shows "postMessage little junk err now c (keep_alive v 3) E = Some (Inr E)"
  using assms keep_alive_cast [OF assms(3), of 3] keep_alive_reads [of v 3]
  by (simp add: postMessage_def echoMessageHandled_def if_cast_def conn_def)

lemma tickle_keep_alive:
  assumes k: "en_conns E c = Some k" "cn_connectionUp k" "cn_listener k = NewListener" "1 \<le> mc_version (cn_channel k)"
    and idle: "\<not> cn_idle k" "cn_keepAliveTimeout k \<le> now - cn_timeReadStarted k" "now - cn_timeReadStarted k < 2 * cn_keepAliveTimeout k"
  shows "tickle now False c E =
    Inr (E\<lparr>en_conns := (en_conns E)(c \<mapsto> k\<lparr>cn_idle := True, cn_channel := mc_flush (mc_write (keep_alive (mc_version (cn_channel k)) 2) (cn_channel k))\<rparr>)\<rparr>)"
proof -
  have "mc_version (cn_channel k) \<noteq> 0" using k(4) by auto
  then show ?thesis
    using k(1-3) idle
    by (simp add: tickle_def conn_def modify_def on_channel_def assertC_def assertE_def liftE_def keep_alive_send Let_def)
qed

text \<open>C39: A connection that has read nothing for its keep-alive time, but less than twice that, sends one keep-alive echo request;
a peer running the library answers it itself, and the answer is taken out of the messages of the application without
any other change. After twice the time the connection is shut down.\<close>

theorem keep_alive_exchange:
  assumes "en_conns E c = Some k" and "cn_connectionUp k" and "cn_listener k = NewListener" and "\<not> cn_idle k"
    and "mc_version (cn_channel k) = v" and "1 \<le> v" and "v AND 0xF0 = 0"
    and "en_conns F d = Some p" and "1 \<le> mc_version (cn_channel p)"
    and "age = now - cn_timeReadStarted k"
  shows "(age < cn_keepAliveTimeout k \<longrightarrow> tickle now False c E = Inr E) \<and>
    (cn_keepAliveTimeout k \<le> age \<and> age < 2 * cn_keepAliveTimeout k \<longrightarrow>
      (\<exists>req rep E'. tickle now False c E = Inr E' \<and>
         E' = E\<lparr>en_conns := (en_conns E)(c \<mapsto> k\<lparr>cn_idle := True, cn_channel := mc_flush (mc_write req (cn_channel k))\<rparr>)\<rparr> \<and>
         tickle now False c E' = Inr E' \<and>
         postMessage little junk err now' d req F =
           Some (Inr (F\<lparr>en_conns := (en_conns F)(d \<mapsto> p\<lparr>cn_channel := mc_flush (mc_write rep (cn_channel p))\<rparr>)\<rparr>)) \<and>
         postMessage little junk err now'' c rep E' = Some (Inr E'))) \<and>
    (2 * cn_keepAliveTimeout k \<le> age \<and> 0 < cn_keepAliveTimeout k \<longrightarrow>
      tickle now False c E = Inr (E\<lparr>en_conns := (en_conns E)(c \<mapsto> k\<lparr>cn_shutdown := True\<rparr>)\<rparr>))"
proof (intro conjI impI)
  assume "age < cn_keepAliveTimeout k"
  with assms show "tickle now False c E = Inr E" by (simp add: tickle_def conn_def assertC_def assertE_def liftE_def)
next
  assume age: "cn_keepAliveTimeout k \<le> age \<and> age < 2 * cn_keepAliveTimeout k"
  let ?k = "k\<lparr>cn_idle := True, cn_channel := mc_flush (mc_write (keep_alive v 2) (cn_channel k))\<rparr>"
  let ?E = "E\<lparr>en_conns := (en_conns E)(c \<mapsto> ?k)\<rparr>"
  have v: "v \<noteq> 0" "mc_version (cn_channel ?k) = v" using assms(5,6) by (auto simp: mc_flush_def mc_write_def)
  have "tickle now False c E = Inr ?E" using tickle_keep_alive [of E c k now] assms age by simp
  moreover have "tickle now False c ?E = Inr ?E"
    using assms age v by (simp add: tickle_def conn_def assertC_def assertE_def liftE_def Let_def)
  moreover note keep_alive_request [OF assms(8,9,7), of little junk err now']
  moreover have "postMessage little junk err now'' c (keep_alive v 3) ?E = Some (Inr ?E)"
    using assms(6,7) v by (intro keep_alive_reply [where k = ?k]) simp_all
  ultimately show "\<exists>req rep E'. tickle now False c E = Inr E' \<and>
         E' = E\<lparr>en_conns := (en_conns E)(c \<mapsto> k\<lparr>cn_idle := True, cn_channel := mc_flush (mc_write req (cn_channel k))\<rparr>)\<rparr> \<and>
         tickle now False c E' = Inr E' \<and>
         postMessage little junk err now' d req F =
           Some (Inr (F\<lparr>en_conns := (en_conns F)(d \<mapsto> p\<lparr>cn_channel := mc_flush (mc_write rep (cn_channel p))\<rparr>)\<rparr>)) \<and>
         postMessage little junk err now'' c rep E' = Some (Inr E')"
    by (intro exI [of _ "keep_alive v 2"] exI [of _ "keep_alive v 3"] exI [of _ ?E]) simp
next
  assume "2 * cn_keepAliveTimeout k \<le> age \<and> 0 < cn_keepAliveTimeout k"
  with assms show "tickle now False c E = Inr (E\<lparr>en_conns := (en_conns E)(c \<mapsto> k\<lparr>cn_shutdown := True\<rparr>)\<rparr>)"
    by (simp add: tickle_def conn_def assertC_def assertE_def liftE_def shutdown_def modify_def Let_def)
qed

definition sample_engine :: "nat \<Rightarrow> Engine" where
  "sample_engine t =
     \<lparr>en_conns = [1 \<mapsto> \<lparr>cn_channel = MemoryChannel_make 4, cn_listener = NewListener, cn_main = 1, cn_auxList = [],
        cn_datapathId = [0, 0, 0, 0, 0, 0, 0, 7], cn_auxiliaryId = 0, cn_permitsAuxiliary = True,
        cn_keepAliveTimeout = kControllerKeepAliveTimeout, cn_shutdown = False, cn_connectionUp = True, cn_channelUp = True,
        cn_idle = False, cn_timeReadStarted = t, cn_delivered = []\<rparr>],
      en_dpidMap = [[0, 0, 0, 0, 0, 0, 0, 7] \<mapsto> 1], en_nextId = 2\<rparr>"

theorem keep_alive_exchange_witness:
  "\<exists>req rep E' F'. tickle 15000 False 1 (sample_engine 0) = Inr E' \<and>
     map_option (\<lambda>k. mc_buf (cn_channel k)) (en_conns E' 1) = Some req \<and>
     postMessage True (\<lambda>_. 0) (\<lambda>_ _. []) 15001 1 req (sample_engine 9) = Some (Inr F') \<and>
     map_option (\<lambda>k. mc_buf (cn_channel k)) (en_conns F' 1) = Some rep \<and>
     postMessage True (\<lambda>_. 0) (\<lambda>_ _. []) 15002 1 rep E' = Some (Inr E')"
proof -
  let ?k = "\<lambda>t. \<lparr>cn_channel = MemoryChannel_make 4, cn_listener = NewListener, cn_main = 1, cn_auxList = [],
        cn_datapathId = [0, 0, 0, 0, 0, 0, 0, 7], cn_auxiliaryId = 0, cn_permitsAuxiliary = True,
        cn_keepAliveTimeout = kControllerKeepAliveTimeout, cn_shutdown = False, cn_connectionUp = True, cn_channelUp = True,
        cn_idle = False, cn_timeReadStarted = t, cn_delivered = []\<rparr> :: Connection"
  have "en_conns (sample_engine t) 1 = Some (?k t)" for t by (simp add: sample_engine_def)
  moreover have "(4 :: byte) AND 0xF0 = 0" by code_simp
  moreover have "mc_version (MemoryChannel_make 4) = 4" by (simp add: MemoryChannel_make_def)
  ultimately obtain req rep E' where E': "tickle 15000 False 1 (sample_engine 0) = Inr E'"
      "E' = sample_engine 0\<lparr>en_conns := (en_conns (sample_engine 0))(1 \<mapsto> (?k 0)\<lparr>cn_idle := True, cn_channel := mc_flush (mc_write req (MemoryChannel_make 4))\<rparr>)\<rparr>"
      "postMessage True (\<lambda>_. 0) (\<lambda>_ _. []) 15001 1 req (sample_engine 9) =
         Some (Inr (sample_engine 9\<lparr>en_conns := (en_conns (sample_engine 9))(1 \<mapsto> (?k 9)\<lparr>cn_channel := mc_flush (mc_write rep (MemoryChannel_make 4))\<rparr>)\<rparr>))"
      "postMessage True (\<lambda>_. 0) (\<lambda>_ _. []) 15002 1 rep E' = Some (Inr E')"
    using keep_alive_exchange [of "sample_engine 0" 1 "?k 0" 4 "sample_engine 9" 1 "?k 9" 15000 15000 True "\<lambda>_. 0" "\<lambda>_ _. []" 15001 15002]
    by (simp add: kControllerKeepAliveTimeout_def) blast
  define F' where "F' = sample_engine 9\<lparr>en_conns := (en_conns (sample_engine 9))(1 \<mapsto> (?k 9)\<lparr>cn_channel := mc_flush (mc_write rep (MemoryChannel_make 4))\<rparr>)\<rparr>"
  have buf: "mc_buf (mc_flush (mc_write m (MemoryChannel_make 4))) = m" for m by (simp add: MemoryChannel_make_def mc_flush_def mc_write_def)
  have "map_option (\<lambda>k. mc_buf (cn_channel k)) (en_conns E' 1) = Some req" unfolding E'(2) by (simp add: buf)
  moreover have "map_option (\<lambda>k. mc_buf (cn_channel k)) (en_conns F' 1) = Some rep" unfolding F'_def by (simp add: buf)
  moreover note E'(1) E'(3) [folded F'_def] E'(4)
  ultimately show ?thesis by blast
qed

end
