(* ===== verification/Timestamps.thy ===== *)
theory Timestamps
  imports StringRef Validation
begin

text \<open>
  Time stamps and intervals (\<^verbatim>\<open>include/ofp/timestamp.h\<close>, \<^verbatim>\<open>src/ofp/timestamp.cpp\<close>): seconds and nanoseconds in 64 and
  32 bits, their order, their sum with its carry, and the text form. Left out are the conversions from and to floating
  point numbers and the calendar form, which the system function \<^verbatim>\<open>gmtime_r\<close> computes.
\<close>

declare add_2_eq_Suc [simp del] add_2_eq_Suc' [simp del]

section \<open>Time stamps\<close>

datatype Timestamp = Timestamp (ts_seconds: u64) (ts_nanos: u32)

definition NANO_UNITS :: u32 where "NANO_UNITS = 1000000000"
definition MAX_TIME :: u64 where "MAX_TIME = 0xFFFFFFFFFFFFFFFF"

definition Timestamp_make :: "u64 \<Rightarrow> u32 \<Rightarrow> fault + Timestamp" where
  "Timestamp_make seconds nanos = bindE (assertE (nanos < NANO_UNITS)) (\<lambda>_. Inr (Timestamp seconds nanos))"

definition microseconds :: "Timestamp \<Rightarrow> u32" where
  "microseconds ts = ts_nanos ts div 1000"

definition milliseconds :: "Timestamp \<Rightarrow> u32" where
  "milliseconds ts = ts_nanos ts div 1000000"

definition ts_valid :: "Timestamp \<Rightarrow> bool" where
  "ts_valid ts = (\<not> (ts_seconds ts = 0 \<and> ts_nanos ts = 0))"

definition ts_clear :: "Timestamp \<Rightarrow> Timestamp" where
  "ts_clear ts = Timestamp 0 0"

text \<open>The order of the pair of seconds and nanoseconds.\<close>

definition ts_le :: "Timestamp \<Rightarrow> Timestamp \<Rightarrow> bool" where
  "ts_le a b = (ts_seconds a < ts_seconds b \<or> (ts_seconds a = ts_seconds b \<and> ts_nanos a \<le> ts_nanos b))"

definition ts_lt :: "Timestamp \<Rightarrow> Timestamp \<Rightarrow> bool" where
  "ts_lt a b = (ts_seconds a < ts_seconds b \<or> (ts_seconds a = ts_seconds b \<and> ts_nanos a < ts_nanos b))"

instantiation Timestamp :: linorder
begin

definition less_eq_Timestamp :: "Timestamp \<Rightarrow> Timestamp \<Rightarrow> bool" where
  "a \<le> b \<longleftrightarrow> ts_le a b"

definition less_Timestamp :: "Timestamp \<Rightarrow> Timestamp \<Rightarrow> bool" where
  "a < b \<longleftrightarrow> ts_lt a b"

instance
proof
  fix a b :: Timestamp
  show "a \<le> b \<Longrightarrow> b \<le> a \<Longrightarrow> a = b" by (cases a; cases b) (auto simp: less_eq_Timestamp_def ts_le_def)
qed (auto simp: less_eq_Timestamp_def less_Timestamp_def ts_le_def ts_lt_def)

end

lemmas ts_order = less_eq_Timestamp_def less_Timestamp_def ts_le_def ts_lt_def

definition kInfinity :: Timestamp where
  "kInfinity = Timestamp MAX_TIME (NANO_UNITS - 1)"

definition kPower10 :: "u32 list" where
  "kPower10 = [1, 10, 100, 1000, 10000, 100000, 1000000, 10000000, 100000000, 1000000000]"

text \<open>The fraction and the rest of the text; none if there is no number after the point.\<close>

definition parse_fraction :: "string \<Rightarrow> fault + (u32 \<times> string) option" where
  "parse_fraction s =
     (case consume_front s ''.'' of
        None \<Rightarrow> Inr (Some (0, s))
      | Some s \<Rightarrow>
          let fracDigits = length s in
          if fracDigits > 9 then Inr None
          else
            (case consumeInteger s 10 of
               None \<Rightarrow> Inr None
             | Some (fracPart, s) \<Rightarrow>
                 let fracPart = fracPart * kPower10 ! (9 - fracDigits) in
                 bindE (assertE (fracPart < NANO_UNITS)) (\<lambda>_. Inr (Some (fracPart, s)))))"

definition Timestamp_parse :: "string \<Rightarrow> Timestamp \<Rightarrow> fault + (bool \<times> Timestamp)" where
  "Timestamp_parse s this =
     (case consumeInteger s 10 of
        None \<Rightarrow> Inr (False, this)
      | Some (intPart, s) \<Rightarrow>
          bindE (parse_fraction s) (\<lambda>r.
          case r of
            None \<Rightarrow> Inr (False, this)
          | Some (fracPart, s) \<Rightarrow> if s \<noteq> [] then Inr (False, this) else Inr (True, Timestamp intPart fracPart)))"

definition Timestamp_print :: "Timestamp \<Rightarrow> string" where
  "Timestamp_print ts = write_unsigned (unat (ts_seconds ts)) 0 @ ''.'' @ write_unsigned (unat (ts_nanos ts)) 9"

text \<open>\<open>nano\<close> is the time of the system clock.\<close>

definition Timestamp_now :: "u64 \<Rightarrow> fault + Timestamp" where
  "Timestamp_now nano = Timestamp_make (nano div ucast NANO_UNITS) (ucast (nano mod ucast NANO_UNITS))"

text \<open>The argument is a signed 32 bit integer; the smallest one has no negation.\<close>

definition addSeconds :: "int \<Rightarrow> Timestamp \<Rightarrow> fault + Timestamp" where
  "addSeconds seconds ts =
     (if seconds \<ge> 0 then Inr (Timestamp (ts_seconds ts + of_int seconds) (ts_nanos ts))
      else bindE (assertE (seconds > - (2 ^ 31))) (\<lambda>_.
        Inr (Timestamp (ts_seconds ts - of_int (- seconds)) (ts_nanos ts))))"

definition ts_plus :: "Timestamp \<Rightarrow> Timestamp \<Rightarrow> Timestamp" where
  "ts_plus this rhs =
     (let seconds = ts_seconds this + ts_seconds rhs; nanos = ts_nanos this + ts_nanos rhs in
      if nanos \<ge> NANO_UNITS then Timestamp (seconds + 1) (nanos - NANO_UNITS) else Timestamp seconds nanos)"

section \<open>Time stamps as numbers\<close>

definition ts_ok :: "Timestamp \<Rightarrow> bool" where
  "ts_ok ts = (ts_nanos ts < NANO_UNITS)"

text \<open>The time in nanoseconds.\<close>

definition ns :: "Timestamp \<Rightarrow> nat" where
  "ns ts = unat (ts_seconds ts) * 10 ^ 9 + unat (ts_nanos ts)"

lemma ts_ok_unat: "ts_ok ts \<longleftrightarrow> unat (ts_nanos ts) < 10 ^ 9"
  by (simp add: ts_ok_def NANO_UNITS_def word_less_nat_alt)

lemma lex_number:
  fixes a b c d M :: nat
  assumes "b < M" and "d < M"
  shows "a < c \<or> (a = c \<and> b \<le> d) \<longleftrightarrow> a * M + b \<le> c * M + d"
proof (cases a c rule: linorder_cases)
  case less
  then have "(a + 1) * M \<le> c * M" by (intro mult_le_mono1) simp
  with less assms show ?thesis by simp
next
  case greater
  then have "(c + 1) * M \<le> a * M" by (intro mult_le_mono1) simp
  with greater assms show ?thesis by simp
qed simp

lemma ns_le:
  assumes "ts_ok a" and "ts_ok b"
  shows "a \<le> b \<longleftrightarrow> ns a \<le> ns b"
  using lex_number [of "unat (ts_nanos a)" "10 ^ 9" "unat (ts_nanos b)" "unat (ts_seconds a)" "unat (ts_seconds b)"] assms
  unfolding ts_order ns_def ts_ok_unat
  by (simp only: word_less_nat_alt word_le_nat_alt word_unat_eq_iff)

lemma ns_bound: "ts_ok a \<Longrightarrow> ns a < 2 ^ 64 * 10 ^ 9"
proof -
  assume "ts_ok a"
  then have "unat (ts_nanos a) < 10 ^ 9" by (simp add: ts_ok_unat)
  moreover have "unat (ts_seconds a) < 2 ^ LENGTH(64)" by (rule unsigned_less)
  then have "unat (ts_seconds a) + 1 \<le> 2 ^ 64" by simp
  then have "(unat (ts_seconds a) + 1) * 10 ^ 9 \<le> 2 ^ 64 * 10 ^ 9" by (rule mult_le_mono1)
  ultimately show ?thesis by (simp add: ns_def)
qed

lemma carry_number:
  fixes a b c d K M :: nat
  assumes "b < M" and "d < M" and "0 < K"
  shows "(if M \<le> b + d then (a + c + 1) mod K * M + (b + d - M) else (a + c) mod K * M + (b + d)) = (a * M + b + (c * M + d)) mod (K * M)"
proof -
  have *: "(q * M + r) mod (K * M) = q mod K * M + r" if "r < M" for q r
  proof -
    have "q * M + r = q mod K * M + r + q div K * (K * M)" by (metis add.assoc add.commute add_mult_distrib div_mult_mod_eq mult.assoc)
    moreover have "q mod K * M + r < K * M"
    proof -
      have "(q mod K + 1) * M \<le> K * M" using assms(3) by (intro mult_le_mono1) (simp add: Suc_le_eq)
      then show ?thesis using that by simp
    qed
    ultimately show ?thesis by (metis mod_less mod_mult_self1 mult.commute)
  qed
  show ?thesis
  proof (cases "M \<le> b + d")
    case True
    then have eq: "a * M + b + (c * M + d) = (a + c + 1) * M + (b + d - M)" by (simp add: algebra_simps)
    have "b + d - M < M" using assms by simp
    with True show ?thesis unfolding eq by (simp only: * if_True)
  next
    case False
    then show ?thesis using * [of "b + d" "a + c"] by (simp add: algebra_simps)
  qed
qed

lemma ts_plus_ns:
  assumes "ts_ok a" and "ts_ok b"
  shows "ts_ok (ts_plus a b)" and "ns (ts_plus a b) = (ns a + ns b) mod (2 ^ 64 * 10 ^ 9)"
proof -
  let ?n = "unat (ts_nanos a)" and ?m = "unat (ts_nanos b)"
  have n: "?n < 10 ^ 9" "?m < 10 ^ 9" using assms by (simp_all add: ts_ok_unat)
  then have sum: "unat (ts_nanos a + ts_nanos b) = ?n + ?m" by (intro unat_add_lem [THEN iffD1]) simp
  have ge: "NANO_UNITS \<le> ts_nanos a + ts_nanos b \<longleftrightarrow> 10 ^ 9 \<le> ?n + ?m"
    using sum by (simp add: word_le_nat_alt NANO_UNITS_def)
  have sub: "unat (ts_nanos a + ts_nanos b - NANO_UNITS) = ?n + ?m - 10 ^ 9" if "10 ^ 9 \<le> ?n + ?m"
    using that sum ge by (simp add: unat_sub NANO_UNITS_def)
  have secs: "unat (ts_seconds a + ts_seconds b) = (unat (ts_seconds a) + unat (ts_seconds b)) mod 2 ^ 64"
    "unat (ts_seconds a + ts_seconds b + 1) = (unat (ts_seconds a) + unat (ts_seconds b) + 1) mod 2 ^ 64"
    by (simp_all add: unat_word_ariths mod_Suc_eq)
  show "ts_ok (ts_plus a b)"
    using n sum ge sub by (auto simp: ts_ok_unat ts_plus_def Let_def)
  show "ns (ts_plus a b) = (ns a + ns b) mod (2 ^ 64 * 10 ^ 9)"
    using carry_number [OF n, of "2 ^ 64" "unat (ts_seconds a)" "unat (ts_seconds b)"] ge sub sum secs
    by (auto simp: ns_def ts_plus_def Let_def)
qed

section \<open>The text form\<close>

lemma digits_value_bound: "list_all (digit_ok 10) ds \<Longrightarrow> digits_value 10 n ds < (n + 1) * 10 ^ length ds"
proof (induction ds arbitrary: n)
  case (Cons d ds)
  then obtain v where v: "CharVal d = Some v" "v < 10" by (auto simp: digit_ok_def split: option.splits)
  have "digits_value 10 (n * 10 + v) ds < (n * 10 + v + 1) * 10 ^ length ds" using Cons by simp
  also have "\<dots> \<le> (n + 1) * 10 * 10 ^ length ds" using v(2) by (intro mult_le_mono1) simp
  finally show ?case using v by (simp add: algebra_simps)
qed simp

lemma kPower10_nth: "k \<le> 9 \<Longrightarrow> kPower10 ! k = word_of_nat (10 ^ k)"
proof -
  assume "k \<le> 9"
  moreover have "\<forall>k\<in>set [0..<10]. kPower10 ! k = word_of_nat (10 ^ k)" by code_simp
  ultimately show ?thesis by (simp add: Ball_def)
qed

lemma scaled_fraction:
  fixes v :: nat
  assumes "v < 10 ^ d" and "d \<le> 9"
  shows "unat (word_of_nat v * kPower10 ! (9 - d)) = v * 10 ^ (9 - d)" and "v * 10 ^ (9 - d) < 10 ^ 9"
proof -
  have "v * 10 ^ (9 - d) < 10 ^ d * 10 ^ (9 - d)" using assms(1) by simp
  then show small: "v * 10 ^ (9 - d) < 10 ^ 9" using assms(2) by (simp flip: power_add)
  have "word_of_nat v * kPower10 ! (9 - d) = (word_of_nat (v * 10 ^ (9 - d)) :: u32)" by (simp add: kPower10_nth)
  then have "unat (word_of_nat v * kPower10 ! (9 - d)) = v * 10 ^ (9 - d) mod 2 ^ LENGTH(32)" by (simp only: unat_of_nat)
  then show "unat (word_of_nat v * kPower10 ! (9 - d)) = v * 10 ^ (9 - d)" using small by simp
qed

lemma takeWhile_digits: "list_all (digit_ok 10) (takeWhile (digit_ok 10) s)"
  by (induction s) auto

lemma consume_char: "consume_front s [d] = (case s of [] \<Rightarrow> None | c # cs \<Rightarrow> if c = d then Some cs else None)"
  by (cases s) (auto simp: consume_front_def startswith_def drop_front_def str_substr_npos_def Let_def Suc_le_eq)

text \<open>Whatever the text, the fraction is below one second.\<close>

lemma parse_fraction_ok: "\<exists>r. parse_fraction s = Inr r \<and> (\<forall>f s'. r = Some (f, s') \<longrightarrow> f < NANO_UNITS)"
proof (cases "consume_front s ''.''")
  case None
  then show ?thesis by (simp add: parse_fraction_def NANO_UNITS_def)
next
  case (Some t)
  let ?ds = "takeWhile (digit_ok 10) t" and ?v = "digits_value 10 0 (takeWhile (digit_ok 10) t)"
  show ?thesis
  proof (cases "length t \<le> 9")
    case True
    have "?v < 10 ^ length ?ds" using digits_value_bound [OF takeWhile_digits, of 0 t] by simp
    also have "\<dots> \<le> 10 ^ length t" by (intro power_increasing length_takeWhile_le) simp_all
    finally have "word_of_nat ?v * kPower10 ! (9 - length t) < NANO_UNITS"
      using scaled_fraction [OF _ True, of ?v] by (simp add: word_less_nat_alt NANO_UNITS_def)
    then show ?thesis
      using True Some by (simp add: parse_fraction_def Let_def consumeInteger_exact assertE_def)
  qed (simp add: parse_fraction_def Some Let_def)
qed

lemma Timestamp_parse_ok:
  assumes "ts_ok ts"
  shows "\<exists>ok ts'. Timestamp_parse s ts = Inr (ok, ts') \<and> ts_ok ts' \<and> (\<not> ok \<longrightarrow> ts' = ts)"
proof (cases "consumeInteger s 10 :: (u64 \<times> string) option")
  case None
  then show ?thesis using assms by (intro exI [of _ False] exI [of _ ts]) (simp add: Timestamp_parse_def)
next
  case (Some q)
  obtain i t where q: "q = (i, t)" by (cases q)
  obtain r where r: "parse_fraction t = Inr r" "\<And>f s'. r = Some (f, s') \<Longrightarrow> f < NANO_UNITS" using parse_fraction_ok by blast
  show ?thesis
    using assms r Some q by (cases r) (auto simp: Timestamp_parse_def ts_ok_def)
qed

lemma takeWhile_number: "takeWhile (digit_ok 10) (write_unsigned n k @ t) = write_unsigned n k @ takeWhile (digit_ok 10) t"
  "dropWhile (digit_ok 10) (write_unsigned n k @ t) = dropWhile (digit_ok 10) t"
  using write_unsigned_digits(3) [of n k] by (auto simp: list_all_iff)

text \<open>A printed number followed by text that does not start with a digit.\<close>

lemma consume_number:
  fixes w :: "'a::len word"
  assumes "LENGTH('a) \<le> 64" and "takeWhile (digit_ok 10) t = []"
  shows "consumeInteger (write_unsigned (unat w) k @ t) 10 = Some (w, t)"
proof -
  have "dropWhile (digit_ok 10) t = t" using assms(2) by (cases t) auto
  moreover have "unat w < 2 ^ LENGTH('a)" by (rule unsigned_less)
  ultimately show ?thesis
    using assms write_unsigned_digits [of "unat w" k] by (simp add: consumeInteger_exact takeWhile_number)
qed

lemma format_length: "n < 10 ^ k \<Longrightarrow> 0 < k \<Longrightarrow> length (format_to_buffer n buf) \<le> length buf + k"
proof (induction k arbitrary: n buf)
  case (Suc k)
  let ?c = "char_of (of_char CHR ''0'' + n mod 10)"
  show ?case
  proof (cases "n div 10 = 0")
    case True
    then show ?thesis by (simp add: format_to_buffer.simps [of n] Let_def)
  next
    case False
    then have "0 < k" using Suc.prems by (cases k) auto
    moreover have "n div 10 < 10 ^ k" using Suc.prems by (simp add: less_mult_imp_div_less mult.commute)
    ultimately show ?thesis
      using Suc.IH [of "n div 10" "?c # buf"] False by (simp add: format_to_buffer.simps [of n] Let_def)
  qed
qed simp

lemma fraction_length: "ts_ok ts \<Longrightarrow> length (write_unsigned (unat (ts_nanos ts)) 9) = 9"
  using format_length [of "unat (ts_nanos ts)" 9 "[]"] by (simp add: ts_ok_unat write_unsigned_def Let_def)

lemma Timestamp_round_trip:
  assumes "ts_ok ts"
  shows "Timestamp_parse (Timestamp_print ts) x = Inr (True, ts)"
proof -
  let ?f = "write_unsigned (unat (ts_nanos ts)) 9"
  have p: "takeWhile (digit_ok 10) (''.'' @ ?f) = []" by (simp add: digit_ok_def CharVal_def less_eq_char_def)
  have "consumeInteger (?f @ []) 10 = Some (ts_nanos ts, [])" by (rule consume_number) simp_all
  then have "parse_fraction (''.'' @ ?f) = Inr (Some (ts_nanos ts, []))"
    using fraction_length [OF assms] assms
    by (simp add: parse_fraction_def consume_char Let_def kPower10_def ts_ok_def assertE_def)
  moreover have "consumeInteger (Timestamp_print ts) 10 = Some (ts_seconds ts, ''.'' @ ?f)"
    unfolding Timestamp_print_def by (rule consume_number [OF _ p]) simp
  ultimately show ?thesis by (simp add: Timestamp_parse_def)
qed

lemma Timestamp_now_ok: "\<exists>ts. Timestamp_now nano = Inr ts \<and> ts_ok ts \<and> ns ts = unat nano"
proof -
  let ?n = "unat nano"
  have small: "?n mod 1000000000 < 2 ^ 32" by (rule less_trans [OF mod_less_divisor]) simp_all
  have u: "unat (ucast NANO_UNITS :: u64) = 1000000000" by (simp add: NANO_UNITS_def)
  have n: "unat (ucast (nano mod ucast NANO_UNITS) :: u32) = ?n mod 1000000000"
    using small u by (simp add: unat_ucast_mod unat_mod)
  then have "(ucast (nano mod ucast NANO_UNITS) :: u32) < NANO_UNITS"
    by (simp add: word_less_nat_alt NANO_UNITS_def)
  moreover have "unat (nano div ucast NANO_UNITS) = ?n div 1000000000" using u by (simp add: unat_div)
  ultimately show ?thesis
    using n by (simp add: Timestamp_now_def Timestamp_make_def assertE_def ts_ok_def ns_def)
qed



end
