(* ===== verification/RateLimits.thy ===== *)
theory RateLimits
  imports Timestamps
begin

text \<open>
  The limiter of the rate of events (\<^verbatim>\<open>include/ofp/rpc/ratelimiter.h\<close>, \<^verbatim>\<open>src/ofp/rpc/ratelimiter.cpp\<close>): its decision, its
  text form, and an abstract limiter on natural numbers that it refines.
\<close>

declare add_2_eq_Suc [simp del] add_2_eq_Suc' [simp del]

section \<open>The limiter\<close>

record RateLimiter =
  rl_exp :: Timestamp
  rl_t :: Timestamp
  rl_nc :: u32
  rl_n :: u32
  rl_p :: u32

definition RateLimiter_NT :: "u32 \<Rightarrow> Timestamp \<Rightarrow> RateLimiter" where
  "RateLimiter_NT n t = \<lparr>rl_exp = Timestamp 0 0, rl_t = t, rl_nc = 0, rl_n = n, rl_p = 0xffffffff\<rparr>"

definition RateLimiter_NPT :: "u32 \<Rightarrow> u32 \<Rightarrow> Timestamp \<Rightarrow> RateLimiter" where
  "RateLimiter_NPT n p t = \<lparr>rl_exp = Timestamp 0 0, rl_t = t, rl_nc = 0, rl_n = n, rl_p = p\<rparr>"

definition RateLimiter_NP :: "u32 \<Rightarrow> u32 \<Rightarrow> RateLimiter" where
  "RateLimiter_NP n p = \<lparr>rl_exp = kInfinity, rl_t = Timestamp 0 0, rl_nc = 0, rl_n = n, rl_p = p\<rparr>"

definition RateLimiter_bool :: "bool \<Rightarrow> RateLimiter" where
  "RateLimiter_bool allow = RateLimiter_NP (if allow then 1 else 0) (if allow then 1 else 0xffffffff)"

definition allow :: "Timestamp \<Rightarrow> RateLimiter \<Rightarrow> bool \<times> RateLimiter" where
  "allow t r =
     (if t \<ge> rl_exp r then (True, r\<lparr>rl_exp := ts_plus t (rl_t r), rl_nc := 1\<rparr>)
      else
        let r = r\<lparr>rl_nc := rl_nc r + 1\<rparr> in
        if rl_nc r \<le> rl_n r then (True, r)
        else if rl_nc r \<le> rl_p r then (False, r)
        else
          let r = (if rl_exp r \<noteq> kInfinity then r\<lparr>rl_exp := ts_plus t (rl_t r)\<rparr> else r) in
          (True, r\<lparr>rl_nc := 1\<rparr>))"

definition toLower :: "char \<Rightarrow> char" where
  "toLower x = (if CHR ''A'' \<le> x \<and> x \<le> CHR ''Z'' then char_of (of_char x - of_char CHR ''A'' + of_char CHR ''a'' :: nat) else x)"

definition equals_lower :: "string \<Rightarrow> string \<Rightarrow> bool" where
  "equals_lower s t = (length s = length t \<and> map toLower s = map toLower t)"

text \<open>The number after a colon, or the default; none if there is no number.\<close>

definition parse_p :: "string \<Rightarrow> (u32 \<times> string) option" where
  "parse_p s = (case consume_front s '':'' of None \<Rightarrow> Some (0xffffffff, s) | Some s \<Rightarrow> consumeInteger s 10)"

definition RateLimiter_parse :: "string \<Rightarrow> RateLimiter \<Rightarrow> fault + (bool \<times> RateLimiter)" where
  "RateLimiter_parse s this =
     (if equals_lower s ''true'' then Inr (True, RateLimiter_bool True)
      else if equals_lower s ''false'' then Inr (True, RateLimiter_bool False)
      else
        (case consumeInteger s 10 of
           None \<Rightarrow> Inr (False, this)
         | Some (n, s) \<Rightarrow>
             (case parse_p s of
                None \<Rightarrow> Inr (False, this)
              | Some (p, s) \<Rightarrow>
                  bindE (case consume_front s ''/'' of
                           None \<Rightarrow> Inr (True, Timestamp 0 0, s)
                         | Some s \<Rightarrow> bindE (Timestamp_parse s (Timestamp 0 0)) (\<lambda>(ok, t). Inr (ok, t, []))) (\<lambda>(ok, t, s).
                  if \<not> ok \<or> s \<noteq> [] then Inr (False, this)
                  else if ts_valid t then Inr (True, RateLimiter_NPT n p t)
                  else Inr (True, RateLimiter_NP n p)))))"

definition RateLimiter_print :: "RateLimiter \<Rightarrow> string" where
  "RateLimiter_print r =
     (let num = (\<lambda>w. write_unsigned (unat w) 0) in
      if rl_n r = 0 then ''false''
      else if rl_n r = 1 \<and> rl_p r = 1 then ''true''
      else if \<not> ts_valid (rl_t r) then num (rl_n r) @ '':'' @ num (rl_p r)
      else if rl_p r = 0xffffffff then num (rl_n r) @ ''/'' @ Timestamp_print (rl_t r)
      else num (rl_n r) @ '':'' @ num (rl_p r) @ ''/'' @ Timestamp_print (rl_t r))"

section \<open>The abstract limiter\<close>

text \<open>\<open>n\<close> events in a time \<open>T\<close>; the state is the end of the current interval and the number of events in it.\<close>

fun limit_step :: "nat \<Rightarrow> nat \<Rightarrow> nat \<times> nat \<Rightarrow> nat \<Rightarrow> bool \<times> (nat \<times> nat)" where
  "limit_step n T (e, c) x = (if e \<le> x then (True, (x + T, 1)) else (c + 1 \<le> n, (e, c + 1)))"

fun limit_run :: "nat \<Rightarrow> nat \<Rightarrow> nat \<times> nat \<Rightarrow> nat list \<Rightarrow> (nat \<times> bool) list" where
  "limit_run n T st [] = []"
| "limit_run n T st (x # xs) = (let (b, st') = limit_step n T st x in (x, b) # limit_run n T st' xs)"

definition allowed_in :: "nat \<Rightarrow> nat \<Rightarrow> (nat \<times> bool) list \<Rightarrow> nat" where
  "allowed_in s T h = length (filter (\<lambda>(x, b). b \<and> s \<le> x \<and> x < s + T) h)"

lemma allowed_in_simps [simp]:
  "allowed_in s T [] = 0"
  "allowed_in s T ((x, b) # h) = (if b \<and> s \<le> x \<and> x < s + T then 1 else 0) + allowed_in s T h"
  by (simp_all add: allowed_in_def)

lemma limit_run_times: "map fst (limit_run n T st xs) = xs"
  by (induction xs arbitrary: st) (auto simp: Let_def split: prod.splits)

lemma after_window: "\<forall>x\<in>set xs. s + T \<le> x \<Longrightarrow> allowed_in s T (limit_run n T st xs) = 0"
  by (induction xs arbitrary: st) (auto simp: Let_def split: prod.splits)

text \<open>Until the current interval ends, at most the rest of its events are allowed.\<close>

lemma same_interval:
  assumes "s + T \<le> e" and "sorted xs"
  shows "allowed_in s T (limit_run n T (e, c) xs) \<le> n - c"
  using assms(2)
proof (induction xs arbitrary: c)
  case (Cons x xs)
  show ?case
  proof (cases "s + T \<le> x")
    case True
    then have "\<forall>y\<in>set (x # xs). s + T \<le> y" using Cons.prems by auto
    then show ?thesis by (simp only: after_window le0)
  next
    case False
    then show ?thesis using Cons.IH [of "c + 1"] Cons.prems assms(1) by auto
  qed
qed simp

lemma two_intervals:
  assumes "sorted xs" and "\<forall>x\<in>set xs. s \<le> x" and "1 \<le> n"
  shows "allowed_in s T (limit_run n T (e, c) xs) \<le> (n - c) + n"
  using assms(1,2)
proof (induction xs arbitrary: e c)
  case (Cons x xs)
  consider "s + T \<le> x" | "x < s + T" "e \<le> x" | "x < s + T" "x < e" by linarith
  then show ?case
  proof cases
    case 1
    then have "\<forall>y\<in>set (x # xs). s + T \<le> y" using Cons.prems by auto
    then show ?thesis by (simp only: after_window le0)
  next
    case 2
    then show ?thesis using same_interval [of s T "x + T" xs n 1] Cons.prems assms(3) by auto
  next
    case 3
    then show ?thesis using Cons.IH [of e "c + 1"] Cons.prems by auto
  qed
qed simp

lemma running_burst:
  assumes "sorted xs" and "1 \<le> n" and "1 \<le> c"
  shows "allowed_in s T (limit_run n T (e, c) xs) \<le> 2 * n - 1"
  using assms(1,3)
proof (induction xs arbitrary: e c)
  case (Cons x xs)
  show ?case
  proof (cases "s \<le> x")
    case True
    then have "\<forall>y\<in>set (x # xs). s \<le> y" using Cons.prems by auto
    note two_intervals [OF Cons.prems(1) this assms(2), of T e c]
    also have "(n - c) + n \<le> 2 * n - 1" using Cons.prems(2) assms(2) by simp
    finally show ?thesis .
  next
    case False
    then show ?thesis using Cons.IH [of 1 "x + T"] Cons.IH [of "c + 1" e] Cons.prems by auto
  qed
qed simp

lemma limit_burst:
  assumes "sorted xs" and "1 \<le> n"
  shows "allowed_in s T (limit_run n T (0, 0) xs) \<le> 2 * n - 1"
proof (cases xs)
  case (Cons x ys)
  show ?thesis
  proof (cases "s \<le> x \<and> x < s + T")
    case True
    then show ?thesis using Cons assms same_interval [of s T "x + T" ys n 1] by auto
  next
    case False
    then show ?thesis using Cons assms running_burst [of ys n 1 s T "x + T"] by auto
  qed
qed simp

text \<open>An event is denied only after the full number of allowed events in the time \<open>T\<close> before it.\<close>

definition recent :: "nat \<Rightarrow> nat \<Rightarrow> (nat \<times> bool) list \<Rightarrow> nat" where
  "recent T x h = length (filter (\<lambda>(y, b). b \<and> x \<le> y + T) h)"

lemma limit_denied_aux:
  assumes "sorted xs" and "\<forall>x\<in>set xs. e \<le> x + T" and "min c n \<le> recent T e h" and "1 \<le> n"
    and "limit_run n T (e, c) xs = pre @ (x, False) # post"
  shows "n \<le> recent T (x + 1) (h @ pre)"
  using assms(1-3,5)
proof (induction xs arbitrary: e c h pre)
  case (Cons y ys)
  have step: "n \<le> recent T (x + 1) ((h @ [(y, b)]) @ pre')"
    if "pre = (y, b) # pre'" "limit_step n T (e, c) y = (b, e', c')" "limit_run n T (e', c') ys = pre' @ (x, False) # post" for b e' c' pre'
  proof (rule Cons.IH)
    show "\<forall>x\<in>set ys. e' \<le> x + T" using Cons.prems that(2) by (auto split: if_splits)
    show "min c' n \<le> recent T e' (h @ [(y, b)])"
      using Cons.prems that(2) by (auto simp: recent_def split: if_splits)
  qed (use Cons.prems that(3) in auto)
  show ?case
  proof (cases "e \<le> y")
    case True
    then obtain pre' where "pre = (y, True) # pre'" "limit_run n T (y + T, 1) ys = pre' @ (x, False) # post"
      using Cons.prems(4) by (cases pre) auto
    with step [of True pre' "y + T" 1] True show ?thesis by simp
  next
    case False
    show ?thesis
    proof (cases pre)
      case Nil
      with Cons.prems(4) False have "x = y" "n \<le> c" by auto
      then have "n \<le> recent T e h" using Cons.prems(3) by simp
      also have "\<dots> \<le> recent T (x + 1) h"
        unfolding recent_def using False \<open>x = y\<close> by (induction h) auto
      finally show ?thesis using Nil by simp
    next
      case (Cons q pre')
      with Cons.prems(4) False have "q = (y, c + 1 \<le> n)" "limit_run n T (e, c + 1) ys = pre' @ (x, False) # post" by auto
      with step [of "c + 1 \<le> n" pre' e "c + 1"] Cons False show ?thesis by simp
    qed
  qed
qed simp

lemma limit_denied:
  assumes "sorted xs" and "1 \<le> n" and "limit_run n T (0, 0) xs = pre @ (x, False) # post"
  shows "n \<le> recent T (x + 1) pre"
  using limit_denied_aux [of xs 0 T 0 n "[]" pre x post] assms by (simp add: recent_def)

section \<open>The limiter refines the abstract one\<close>

fun allows :: "RateLimiter \<Rightarrow> Timestamp list \<Rightarrow> bool list" where
  "allows r [] = []"
| "allows r (t # ts) = (let (b, r') = allow t r in b # allows r' ts)"

definition fits :: "Timestamp \<Rightarrow> Timestamp \<Rightarrow> bool" where
  "fits T t \<longleftrightarrow> ts_ok t \<and> ns t + ns T < 2 ^ 64 * 10 ^ 9"

lemma max_u32: "(x :: u32) \<le> 0xffffffff"
proof -
  have "(- 1 :: u32) = 0xffffffff" by simp
  then show ?thesis using word_order.extremum [of x] by (simp only:)
qed

lemma allow_refines:
  assumes "rl_p r = 0xffffffff" and "ts_ok (rl_t r)" and "ts_ok (rl_exp r)" and t: "fits (rl_t r) t" and nc: "unat (rl_nc r) + 1 < 2 ^ 32"
  shows "\<exists>b r'. allow t r = (b, r') \<and> rl_p r' = rl_p r \<and> rl_t r' = rl_t r \<and> rl_n r' = rl_n r \<and> ts_ok (rl_exp r') \<and> unat (rl_nc r') \<le> unat (rl_nc r) + 1 \<and>
    limit_step (unat (rl_n r)) (ns (rl_t r)) (ns (rl_exp r), unat (rl_nc r)) (ns t) = (b, (ns (rl_exp r'), unat (rl_nc r')))"
proof -
  have "unat (rl_nc r + 1) = unat (rl_nc r) + 1" using nc by (simp add: unat_word_ariths)
  moreover have "rl_nc r + 1 \<le> rl_p r" unfolding assms(1) by (rule max_u32)
  moreover have "rl_exp r \<le> t \<longleftrightarrow> ns (rl_exp r) \<le> ns t" using ns_le assms(3) t by (simp add: fits_def)
  moreover have "ts_ok (ts_plus t (rl_t r))" "ns (ts_plus t (rl_t r)) = ns t + ns (rl_t r)"
    using ts_plus_ns [of t "rl_t r"] assms(2) t by (simp_all add: fits_def)
  ultimately show ?thesis
    using assms(3) by (cases "rl_exp r \<le> t") (auto simp: allow_def Let_def word_le_nat_alt)
qed

lemma allows_refines:
  assumes "rl_p r = 0xffffffff" and "ts_ok (rl_t r)" and "ts_ok (rl_exp r)" and "\<forall>t\<in>set ts. fits (rl_t r) t" and "unat (rl_nc r) + length ts < 2 ^ 32"
  shows "zip (map ns ts) (allows r ts) = limit_run (unat (rl_n r)) (ns (rl_t r)) (ns (rl_exp r), unat (rl_nc r)) (map ns ts)"
  using assms
proof (induction ts arbitrary: r)
  case (Cons t ts)
  from Cons.prems have "fits (rl_t r) t" "unat (rl_nc r) + 1 < 2 ^ 32" by simp_all
  from allow_refines [OF Cons.prems(1-3) this] obtain b r' where r': "allow t r = (b, r')" "rl_p r' = rl_p r" "rl_t r' = rl_t r" "rl_n r' = rl_n r"
    "ts_ok (rl_exp r')" "unat (rl_nc r') \<le> unat (rl_nc r) + 1"
    "limit_step (unat (rl_n r)) (ns (rl_t r)) (ns (rl_exp r), unat (rl_nc r)) (ns t) = (b, (ns (rl_exp r'), unat (rl_nc r')))" by blast
  have "zip (map ns ts) (allows r' ts) = limit_run (unat (rl_n r')) (ns (rl_t r')) (ns (rl_exp r'), unat (rl_nc r')) (map ns ts)"
    using Cons.prems r' by (intro Cons.IH) simp_all
  with r' show ?case by (simp del: limit_step.simps)
qed simp

lemma sorted_ns: "sorted ts \<Longrightarrow> \<forall>t\<in>set ts. ts_ok t \<Longrightarrow> sorted (map ns ts)"
  by (induction ts) (auto simp: ns_le)

text \<open>C10: The limiter for \<open>n\<close> events in an interval, on events in the order of time: no window of the length of the interval has more
than \<open>2 n - 1\<close> allowed events, and an event is denied only if \<open>n\<close> events were allowed within the length of the
interval before it. The counter has 32 bits, so this is about fewer than \<open>2 ^ 32\<close> events.\<close>

theorem rate_limiter_burst:
  assumes "1 \<le> n" and "ts_ok T" and "sorted ts" and "\<forall>t\<in>set ts. fits T t" and "length ts < 2 ^ 32"
    and "h = zip (map ns ts) (allows (RateLimiter_NT n T) ts)"
  shows "allowed_in s (ns T) h \<le> 2 * unat n - 1 \<and>
    (\<forall>pre x post. h = pre @ (x, False) # post \<longrightarrow> unat n \<le> recent (ns T) (x + 1) pre)"
proof -
  have n: "1 \<le> unat n" using assms(1) by (simp add: word_le_nat_alt)
  have sorted: "sorted (map ns ts)" using assms(3,4) by (intro sorted_ns) (simp_all add: fits_def)
  have h: "h = limit_run (unat n) (ns T) (0, 0) (map ns ts)"
    unfolding assms(6) using allows_refines [of "RateLimiter_NT n T" ts] assms(2,4,5)
    by (simp add: RateLimiter_NT_def ts_ok_def NANO_UNITS_def ns_def)
  show ?thesis
    unfolding h by (intro conjI allI impI) (rule limit_burst [OF sorted n], rule limit_denied [OF sorted n])
qed

theorem rate_limiter_burst_witness:
  "let ts = replicate 5 (Timestamp 9 900000000) @ replicate 6 (Timestamp 10 0); T = Timestamp 10 0 in
   allowed_in 9900000000 (ns T) (zip (map ns ts) (allows (RateLimiter_NT 5 T) ts)) \<le> 2 * unat (5 :: u32) - 1"
proof -
  let ?T = "Timestamp 10 0" and ?ts = "replicate 5 (Timestamp 9 900000000) @ replicate 6 (Timestamp 10 0)"
  have "sorted ?ts" "ts_ok ?T" "\<forall>t\<in>set ?ts. fits ?T t" "length ?ts < 2 ^ 32" "1 \<le> (5 :: u32)"
    by (auto simp: fits_def ts_ok_def NANO_UNITS_def ns_def ts_order sorted_append)
  then show ?thesis
    unfolding Let_def by (intro rate_limiter_burst [THEN conjunct1, OF _ _ _ _ _ refl])
qed

section \<open>The text form\<close>

text \<open>A limiter without allowed events denies \<open>p\<close> events and then starts over with an allowed one; for the largest \<open>p\<close> the
counter wraps around instead.\<close>

lemma allows_append: "allows r (ts @ us) = allows r ts @ allows (foldl (\<lambda>r t. snd (allow t r)) r ts) us"
  by (induction ts arbitrary: r) (auto simp: Let_def split: prod.splits)

lemma denied_step:
  assumes "t < kInfinity" and "k < unat p"
  shows "allow t ((RateLimiter_NP 0 p)\<lparr>rl_nc := word_of_nat k\<rparr>) = (False, (RateLimiter_NP 0 p)\<lparr>rl_nc := word_of_nat (Suc k)\<rparr>)"
proof -
  have "unat p < 2 ^ LENGTH(32)" by (rule unsigned_less)
  then have k: "unat (word_of_nat (Suc k) :: u32) = Suc k" using assms(2) by (simp add: unat_of_nat del: of_nat_Suc)
  then have "(word_of_nat (Suc k) :: u32) \<noteq> 0" "word_of_nat (Suc k) \<le> p"
    using assms(2) by (auto simp: word_le_nat_alt simp del: of_nat_Suc)
  moreover have "(word_of_nat k :: u32) + 1 = word_of_nat (Suc k)" by simp
  ultimately show ?thesis
    using assms(1) by (simp add: allow_def RateLimiter_NP_def Let_def del: of_nat_Suc)
qed

lemma denied_run:
  assumes "t < kInfinity" and "k + i \<le> unat p"
  shows "allows ((RateLimiter_NP 0 p)\<lparr>rl_nc := word_of_nat k\<rparr>) (replicate i t) = replicate i False \<and>
    foldl (\<lambda>r t. snd (allow t r)) ((RateLimiter_NP 0 p)\<lparr>rl_nc := word_of_nat k\<rparr>) (replicate i t) = (RateLimiter_NP 0 p)\<lparr>rl_nc := word_of_nat (k + i)\<rparr>"
  using assms(2)
proof (induction i arbitrary: k)
  case (Suc i)
  then show ?case using Suc.IH [of "Suc k"] by (simp add: denied_step [OF assms(1)] del: of_nat_Suc of_nat_add)
qed simp

lemma zero_limiter:
  assumes "t < kInfinity"
  shows "allows (RateLimiter_NP 0 p) (replicate (unat p) t @ [t]) = replicate (unat p) False @ [True]"
proof -
  have init: "(RateLimiter_NP 0 p)\<lparr>rl_nc := word_of_nat 0\<rparr> = RateLimiter_NP 0 p" by (simp add: RateLimiter_NP_def)
  have "unat p < 2 ^ LENGTH(32)" by (rule unsigned_less)
  then have "unat (p + 1) = 0 \<or> unat (p + 1) = Suc (unat p)" by (cases "Suc (unat p) = 2 ^ 32") (simp_all add: unat_word_ariths)
  then have "p + 1 = 0 \<or> \<not> p + 1 \<le> p" by (auto simp: word_le_nat_alt unat_eq_0)
  then have "fst (allow t ((RateLimiter_NP 0 p)\<lparr>rl_nc := p\<rparr>))"
    using assms by (auto simp: allow_def RateLimiter_NP_def Let_def)
  then show ?thesis
    using denied_run [OF assms, of 0 "unat p" p] unfolding allows_append init by (simp add: case_prod_beta Let_def)
qed

lemma digit_not_letter: "isDigit c \<Longrightarrow> toLower c = c \<and> c \<noteq> CHR ''t'' \<and> c \<noteq> CHR ''f''"
  by (auto simp: isDigit_def toLower_def less_eq_char_def)

lemma number_not_bool: "\<not> equals_lower (write_unsigned n k @ t) ''true''" "\<not> equals_lower (write_unsigned n k @ t) ''false''"
proof -
  obtain c cs where c: "write_unsigned n k = c # cs" "isDigit c"
    using write_unsigned_digits(1,2) [of n k] by (cases "write_unsigned n k") auto
  have lower: "toLower CHR ''t'' = CHR ''t''" "toLower CHR ''f'' = CHR ''f''" by code_simp+
  show "\<not> equals_lower (write_unsigned n k @ t) ''true''" "\<not> equals_lower (write_unsigned n k @ t) ''false''"
    using digit_not_letter [OF c(2)] lower by (simp_all add: equals_lower_def c(1))
qed

lemma no_digits: "\<not> digit_ok 10 CHR '':''" "\<not> digit_ok 10 CHR ''/''"
  by (simp_all add: digit_ok_def CharVal_def less_eq_char_def)

lemma print_NPT:
  assumes "n \<noteq> 0" and "ts_valid t" and "\<not> (n = 1 \<and> p = 1)"
  shows "RateLimiter_print (RateLimiter_NPT n p t) =
    write_unsigned (unat n) 0 @ (if p = 0xffffffff then [] else CHR '':'' # write_unsigned (unat p) 0) @ CHR ''/'' # Timestamp_print t"
  using assms by (auto simp: RateLimiter_print_def RateLimiter_NPT_def Let_def)

lemma NPT_round_trip:
  assumes "n \<noteq> 0" and "ts_valid t" and "ts_ok t" and "\<not> (n = 1 \<and> p = 1)"
  shows "RateLimiter_parse (RateLimiter_print (RateLimiter_NPT n p t)) x = Inr (True, RateLimiter_NPT n p t)"
proof -
  let ?s = "CHR ''/'' # Timestamp_print t" and ?p = "if p = 0xffffffff then [] else CHR '':'' # write_unsigned (unat p) 0"
  have "consumeInteger (write_unsigned (unat n) 0 @ ?p @ ?s) 10 = Some (n, ?p @ ?s)"
    by (rule consume_number) (simp_all add: no_digits)
  moreover have "parse_p (?p @ ?s) = Some (p, ?s)"
    using consume_number [of ?s p 0] by (simp add: parse_p_def consume_char no_digits)
  ultimately show ?thesis
    unfolding print_NPT [OF assms(1,2,4)] RateLimiter_parse_def
    using number_not_bool [of "unat n" 0] Timestamp_round_trip [OF assms(3)] assms(2) by (simp add: consume_char)
qed

lemma NP_round_trip:
  assumes "n \<noteq> 0"
  shows "RateLimiter_parse (RateLimiter_print (RateLimiter_NP n p)) x = Inr (True, RateLimiter_NP n p)"
proof (cases "n = 1 \<and> p = 1")
  case True
  then show ?thesis
    by (simp add: RateLimiter_print_def RateLimiter_NP_def RateLimiter_parse_def RateLimiter_bool_def equals_lower_def)
next
  case False
  let ?p = "CHR '':'' # write_unsigned (unat p) 0"
  have "RateLimiter_print (RateLimiter_NP n p) = write_unsigned (unat n) 0 @ ?p"
    using assms False by (auto simp: RateLimiter_print_def RateLimiter_NP_def Let_def ts_valid_def)
  moreover have "consumeInteger (write_unsigned (unat n) 0 @ ?p) 10 = Some (n, ?p)"
    by (rule consume_number) (simp_all add: no_digits)
  moreover have "parse_p ?p = Some (p, [])"
    using consume_number [of "[]" p 0] by (simp add: parse_p_def consume_char)
  ultimately show ?thesis
    unfolding RateLimiter_parse_def using number_not_bool [of "unat n" 0] by (simp add: consume_char ts_valid_def)
qed



end
