(* ===== verification/Spec2Isabelle.thy ===== *)
theory Spec2Isabelle
  imports ByteList Addresses Delivery KeepAlive RateLimits
begin

text \<open>
  Verification of libofp, a C++ library and command line tool for the OpenFlow protocol, versions 1.0 to 1.5.

  The program. A message arrives on a connection (\<^verbatim>\<open>src/ofp/sys\<close>) as a byte string with an eight byte header, or is cut out
  of a captured packet stream (\<^verbatim>\<open>src/ofp/demux\<close>). A connection first runs a handshake that settles the protocol version;
  afterwards each message is rewritten in place to one layout per message type (\<^verbatim>\<open>src/ofp/normalize.cpp\<close>), cast to its message class, which
  checks every length in it (\<^verbatim>\<open>validateInput\<close> of the classes under \<^verbatim>\<open>src/ofp\<close>), and given to the application. Messages are built in a
  growable byte buffer and sent; long multipart messages are split. Addresses, raw bytes and numbers have text forms.

  The model. A byte string is a \<^typ>\<open>8 word list\<close>, an integer of \<open>w\<close> bits a word of that width, a pointer into a message an
  offset. A computation that can fail returns a sum: \<^const>\<open>Inl\<close> is a read outside of the message (\<open>OutOfBounds\<close>), a failing \<^verbatim>\<open>assert\<close>
  (\<open>AssertFailed\<close>) or a rejection with its reason (\<open>Invalid\<close>). State is passed explicitly. A loop that may not end is a
  \<^theory_text>\<open>partial_function\<close> whose result \<^const>\<open>None\<close> is divergence; every other loop is total. The arguments \<open>little\<close> (byte
  order of the host), \<open>junk\<close> (uninitialized memory), the allocator, the clock and the functions \<open>inet_pton\<close> and \<open>inet_ntop\<close>
  stand for the environment; what is assumed of the last two is stated as \<open>inet4_contract\<close> and \<open>inet6_contract\<close>.

  The theories, with the source they model:

  \<^item> \<open>Prelude\<close>, \<open>Wire\<close>: types, slices of byte strings, the error monad, reading and writing big-endian fields.
  \<^item> \<open>ByteOrder\<close>: \<^verbatim>\<open>byteorder.h\<close>, \<^verbatim>\<open>padding.h\<close>. One interface, \<open>byte_swap\<close>, for the swaps of four widths; stored integers
    read back and have the big-endian bytes on either host.
  \<^item> \<open>SmallBuffer\<close>, \<open>ByteList\<close>: \<^verbatim>\<open>smallbuffer.cpp\<close>, \<^verbatim>\<open>bytelist.cpp\<close> over an explicit memory. The interface \<open>byte_buffer\<close> says what an
    edit does to the contents; any sequence of edits refines the list operations, one operation overflows.
  \<^item> \<open>HexCodec\<close>, \<open>StringRef\<close>: \<^verbatim>\<open>types.cpp\<close> and the string view of \<^verbatim>\<open>external/yaml-io\<close>: hexadecimal, base64 and decimal text.
  \<^item> \<open>Addresses\<close>: MAC, data path, IPv4, IPv6 addresses and endpoints, with their text forms.
  \<^item> \<open>Validation\<close>, \<open>ProtocolRange\<close>, \<open>OXM\<close>: \<^verbatim>\<open>validation.cpp\<close>, \<^verbatim>\<open>protocoliterator.cpp\<close>, \<^verbatim>\<open>oxmtype.h\<close>, \<^verbatim>\<open>oxmrange.cpp\<close>: the check that elements
    tile a range is exact, for every element type through the interface \<open>protocol_element\<close>.
  \<^item> \<open>MessageParts\<close>, \<open>Messages\<close>, \<open>MessageSafety\<close>: the checks of every part and class of message and the dispatch; decoding is
    memory safe and accepts only well formed messages, with the exceptions found.
  \<^item> \<open>Header\<close>, \<open>Legacy\<close>: \<^verbatim>\<open>header.cpp\<close>; ports and matches of the old versions and their conversion.
  \<^item> \<open>NormalizeActions\<close>, \<open>Normalize\<close>, \<open>NormalizeSafety\<close>: \<^verbatim>\<open>normalize.cpp\<close>. Rewriting is a map over actions; the loops over
    replies share the interface \<open>element_rewriter\<close>; normalization returns a framed message, with the exceptions found.
  \<^item> \<open>MultipartSend\<close>: \<^verbatim>\<open>multipartrequest.cpp\<close>, \<^verbatim>\<open>multipartreply.cpp\<close>, \<^verbatim>\<open>memorychannel.h\<close>: the interface \<open>multipart_sender\<close> for
    requests and replies; a body of any length is split at element boundaries.
  \<^item> \<open>Versions\<close>: \<^verbatim>\<open>protocolversions.cpp\<close>, \<^verbatim>\<open>hello.cpp\<close>: two peers never settle on different versions.
  \<^item> \<open>Connections\<close>, \<open>ConnectionSafety\<close>, \<open>KeepAlive\<close>, \<open>Delivery\<close>: \<^verbatim>\<open>connection.cpp\<close>, \<^verbatim>\<open>defaulthandshake.cpp\<close>, the registry of
    \<^verbatim>\<open>engine.cpp\<close>. An engine is a record; \<open>run\<close> is one event, \<open>reachable\<close> the engines events lead to. No event follows a
    pointer to a deleted connection; idle connections are kept alive; this theory adds what the application gets.
  \<^item> \<open>Timestamps\<close>, \<open>RateLimits\<close>: \<^verbatim>\<open>timestamp.cpp\<close>, \<^verbatim>\<open>ratelimiter.h\<close>: arithmetic of time stamps; an abstract limiter on
    natural numbers that the limiter refines and its bounds.

  Bounds. A message has at most 65535 bytes, the limit of its length field; the theorems on messages assume only that the
  length field states the length (\<open>framed\<close>), which the reader of a connection ensures. Counters wrap at their width; where a
  theorem needs fewer steps than the width has values, it says so. No fuel is used.

  Not modelled: the YAML and JSON codecs (\<^verbatim>\<open>src/ofp/yaml\<close> and the parser in \<^verbatim>\<open>external/yaml-io\<close>), which are templates over
  all message types; the builders of messages other than hello, echo, header-only and multipart messages; sockets, TLS, timers and
  signals (\<^verbatim>\<open>src/ofp/sys\<close> other than the parts above), files and packet capture, which are input and output through asio, OpenSSL and libpcap;
  the RPC server (\<^verbatim>\<open>src/ofp/rpc\<close> other than the rate limiter); packet parsing for matches (\<^verbatim>\<open>matchpacket.cpp\<close>, \<^verbatim>\<open>prerequisites.cpp\<close>); logging; floating point and calendar time; the
  command line tool, the tests, the examples and the build files.
\<close>

section \<open>From the network to the application\<close>

lemma framed_delivers:
  assumes "\<forall>now c msg. ev = Receive now c msg \<longrightarrow> framed msg \<and> \<not> norm_unsafe msg"
  shows "delivers framed little junk ev"
  unfolding delivers_def using assms normalize_framed by (metis Inr_inject option.inject)



end
